(* ===== verification/Prelude.thy ===== *)
theory Prelude
  imports Main "HOL-Library.Word" "HOL-Library.Monad_Syntax"
begin

text \<open>
  Vocabulary shared by every component of the development.

  \<^item> Machine types: the kernel is 32-bit, so \<open>uint32_t\<close>, \<open>vm_addr\<close> and pointers are
    \<^typ>\<open>32 word\<close>; \<open>uint64_t\<close> is \<^typ>\<open>64 word\<close>.
  \<^item> Results: a system call returns zero or a positive value, or a negative error number.
    The model returns a value of a sum type, \<open>Inl e\<close> for \<open>-e\<close>.
  \<^item> Panics: \<open>kassert\<close>, \<open>kernelpanic\<close> and the dereference of a null or out-of-range
    pointer are the value \<^term>\<open>None\<close> of an option; a function that cannot panic has no
    option in its type.
  \<^item> Fact collections: \<open>list_abs\<close> (heap lists against sequences), \<open>kstate_simps\<close>
    (frame facts of state updates) and \<open>inv_intros\<close> (preservation lemmas).
\<close>

type_synonym u8 = "8 word"
type_synonym u32 = "32 word"
type_synonym u64 = "64 word"

named_theorems list_abs "abstraction of linked lists in the heap to sequences"
named_theorems kstate_simps "frame facts of the kernel's state updates"
named_theorems inv_intros "preservation of component invariants"

text \<open>Error numbers used by the modelled system calls (C library, \<open>errno.h\<close>).\<close>

datatype errno =
    EPERM | ENOENT | ESRCH | EINTR | EIO | E2BIG | EBADF | ECHILD | EAGAIN | ENOMEM
  | EACCES | EFAULT | EBUSY | EEXIST | ENOTDIR | EISDIR | EINVAL | ENFILE | EMFILE
  | ENOTTY | ENOSPC | ESPIPE | EROFS | EPIPE | ENOSYS | ETIMEDOUT | ENAMETOOLONG
  | ENOTEMPTY | EDEADLK | EXDEV | ECONNABORTED | ENOTSUP | EUNDEF

type_synonym 'a result = "errno + 'a"

text \<open>\<open>kassert\<close> panics when its condition is false.\<close>

definition kassert :: "bool \<Rightarrow> unit option" where
  "kassert b = (if b then Some () else None)"

lemma kassert_simps [simp]:
  "kassert True = Some ()" "kassert False = None"
  by (simp_all add: kassert_def)

lemma kassert_Some_iff [simp]: "kassert b = Some u \<longleftrightarrow> b"
  by (cases u) (simp add: kassert_def)

lemma bind_kassert_Some [simp]: "Option.bind (kassert b) f = Some r \<longleftrightarrow> b \<and> f () = Some r"
  by (cases b) simp_all

subsection \<open>First and last element as options\<close>

definition hd_opt :: "'a list \<Rightarrow> 'a option" where
  "hd_opt xs = (case xs of [] \<Rightarrow> None | x # _ \<Rightarrow> Some x)"

definition last_opt :: "'a list \<Rightarrow> 'a option" where
  "last_opt xs = (if xs = [] then None else Some (last xs))"

lemma hd_opt_simps [simp]: "hd_opt [] = None" "hd_opt (x # xs) = Some x"
  by (simp_all add: hd_opt_def)

lemma last_opt_simps [simp]:
  "last_opt [] = None" "last_opt (xs @ [x]) = Some x" "last_opt [x] = Some x"
  "last_opt (x # y # zs) = last_opt (y # zs)"
  by (simp_all add: last_opt_def)

lemma hd_opt_None [simp]: "hd_opt xs = None \<longleftrightarrow> xs = []"
  by (cases xs) simp_all

lemma last_opt_None [simp]: "last_opt xs = None \<longleftrightarrow> xs = []"
  by (simp add: last_opt_def)

lemma hd_opt_SomeD: "hd_opt xs = Some x \<Longrightarrow> x \<in> set xs"
  by (cases xs) simp_all

lemma last_opt_SomeD: "last_opt xs = Some x \<Longrightarrow> x \<in> set xs"
  by (auto simp: last_opt_def split: if_splits)

lemma hd_opt_Some_iff: "hd_opt xs = Some x \<longleftrightarrow> (\<exists>ys. xs = x # ys)"
  by (cases xs) auto

lemma last_opt_Some_iff: "last_opt xs = Some x \<longleftrightarrow> (\<exists>ys. xs = ys @ [x])"
  by (cases xs rule: rev_cases) auto

lemma last_opt_append [simp]:
  "last_opt (xs @ ys) = (if ys = [] then last_opt xs else last_opt ys)"
  by (simp add: last_opt_def)

lemma hd_opt_append [simp]:
  "hd_opt (xs @ ys) = (if xs = [] then hd_opt ys else hd_opt xs)"
  by (cases xs) simp_all

lemma last_opt_Cons: "last_opt (x # xs) = (if xs = [] then Some x else last_opt xs)"
  by (cases xs) simp_all

subsection \<open>Removal of one entry from a sequence\<close>

lemma remove1_split: "x \<notin> set xs \<Longrightarrow> remove1 x (xs @ x # ys) = xs @ ys"
  by (simp add: remove1_append)

lemma in_set_split_first: "x \<in> set zs \<Longrightarrow> \<exists>xs ys. zs = xs @ x # ys \<and> x \<notin> set xs"
  by (rule split_list_first)

subsection \<open>Signed division of C\<close>

text \<open>C's \<open>/\<close> and \<open>%\<close> on signed integers truncate towards zero.\<close>

definition c_div :: "int \<Rightarrow> int \<Rightarrow> int" where
  "c_div a b = sgn a * sgn b * (\<bar>a\<bar> div \<bar>b\<bar>)"

definition c_mod :: "int \<Rightarrow> int \<Rightarrow> int" where
  "c_mod a b = a - c_div a b * b"

lemma c_div_nonneg: "0 \<le> a \<Longrightarrow> 0 < b \<Longrightarrow> c_div a b = a div b"
  by (cases "a = 0") (simp_all add: c_div_def)

lemma c_mod_nonneg: "0 \<le> a \<Longrightarrow> 0 < b \<Longrightarrow> c_mod a b = a mod b"
  by (simp add: c_mod_def c_div_nonneg minus_div_mult_eq_mod)

lemma set_tlD: "x \<in> set (tl xs) \<Longrightarrow> x \<in> set xs"
  by (cases xs) auto

lemma length_filter_update:
  "n < length xs \<Longrightarrow>
     length (filter P (xs[n := e])) + (if P (xs ! n) then 1 else 0)
     = length (filter P xs) + (if P e then 1 else (0 :: nat))"
proof (induction xs arbitrary: n)
  case (Cons x xs)
  then show ?case by (cases n) auto
qed simp

end
