(* ===== verification/Lists.thy ===== *)
theory Lists
  imports Prelude
begin

text \<open>
  The intrusive linked lists of \<open>include/kernel/lists.h\<close>: the doubly linked list with a
  head and a tail pointer (\<open>DLIST_*\<close>) and the circular queue with a head pointer
  (\<open>CIRCLEQ_*\<close>). The header is a record; the link fields of every object that may be on
  the list are two functions from object to pointer (null is \<^term>\<open>None\<close>), so a macro
  that writes through a pointer updates the heap of links exactly where the C code does.

  The representation predicates \<open>dlist_rep\<close> and \<open>circleq_rep\<close> say which sequence of
  objects a header and a heap stand for. The locale \<open>linked_queue\<close> is the contract
  the rest of the kernel relies on; it is interpreted on both implementations. The other
  components use the sequence operations that these lemmas justify.
\<close>

section \<open>Headers and links\<close>

record 'p dlist_header =
  dl_head :: "'p option"
  dl_tail :: "'p option"

record 'p links =
  lnext :: "'p \<Rightarrow> 'p option"
  lprev :: "'p \<Rightarrow> 'p option"

type_synonym 'p dlist = "'p dlist_header \<times> 'p links"

definition set_next :: "'p \<Rightarrow> 'p option \<Rightarrow> 'p links \<Rightarrow> 'p links" where
  "set_next x q l = l\<lparr>lnext := (lnext l)(x := q)\<rparr>"

definition set_prev :: "'p \<Rightarrow> 'p option \<Rightarrow> 'p links \<Rightarrow> 'p links" where
  "set_prev x q l = l\<lparr>lprev := (lprev l)(x := q)\<rparr>"

lemma set_link_simps [simp]:
  "lnext (set_next x q l) = (lnext l)(x := q)" "lprev (set_next x q l) = lprev l"
  "lprev (set_prev x q l) = (lprev l)(x := q)" "lnext (set_prev x q l) = lnext l"
  by (simp_all add: set_next_def set_prev_def)

section \<open>The macros of the doubly linked list\<close>

definition DLIST_INIT :: "'p links \<Rightarrow> 'p dlist" where
  "DLIST_INIT l = (\<lparr>dl_head = None, dl_tail = None\<rparr>, l)"

definition DLIST_EMPTY :: "'p dlist \<Rightarrow> bool" where
  "DLIST_EMPTY d = (dl_head (fst d) = None)"

definition DLIST_HEAD :: "'p dlist \<Rightarrow> 'p option" where
  "DLIST_HEAD d = dl_head (fst d)"

definition DLIST_TAIL :: "'p dlist \<Rightarrow> 'p option" where
  "DLIST_TAIL d = dl_tail (fst d)"

definition DLIST_NEXT :: "'p \<Rightarrow> 'p dlist \<Rightarrow> 'p option" where
  "DLIST_NEXT x d = lnext (snd d) x"

definition DLIST_PREV :: "'p \<Rightarrow> 'p dlist \<Rightarrow> 'p option" where
  "DLIST_PREV x d = lprev (snd d) x"

definition DLIST_ADD_HEAD :: "'p \<Rightarrow> 'p dlist \<Rightarrow> 'p dlist" where
  "DLIST_ADD_HEAD x d = (case d of (h, l) \<Rightarrow>
     let l1 = set_prev x None (set_next x (dl_head h) l) in
     (case dl_head h of
        Some y \<Rightarrow> (h\<lparr>dl_head := Some x\<rparr>, set_prev y (Some x) l1)
      | None \<Rightarrow> (h\<lparr>dl_tail := Some x, dl_head := Some x\<rparr>, l1)))"

definition DLIST_ADD_TAIL :: "'p \<Rightarrow> 'p dlist \<Rightarrow> 'p dlist" where
  "DLIST_ADD_TAIL x d = (case d of (h, l) \<Rightarrow>
     let l1 = set_prev x (dl_tail h) (set_next x None l) in
     (case dl_tail h of
        Some y \<Rightarrow> (h\<lparr>dl_tail := Some x\<rparr>, set_next y (Some x) l1)
      | None \<Rightarrow> (h\<lparr>dl_head := Some x, dl_tail := Some x\<rparr>, l1)))"

text \<open>Removal from an empty list dereferences a null pointer.\<close>

definition DLIST_REM_HEAD :: "'p dlist \<Rightarrow> 'p dlist option" where
  "DLIST_REM_HEAD d = (case d of (h, l) \<Rightarrow>
     (case dl_head h of
        None \<Rightarrow> None
      | Some x \<Rightarrow>
         (case lnext l x of
            Some y \<Rightarrow> Some (h\<lparr>dl_head := Some y\<rparr>, set_prev y None l)
          | None \<Rightarrow> Some (h\<lparr>dl_head := None, dl_tail := None\<rparr>, l))))"

definition DLIST_REM_TAIL :: "'p dlist \<Rightarrow> 'p dlist option" where
  "DLIST_REM_TAIL d = (case d of (h, l) \<Rightarrow>
     (case dl_tail h of
        None \<Rightarrow> None
      | Some x \<Rightarrow>
         (case lprev l x of
            Some y \<Rightarrow> Some (h\<lparr>dl_tail := Some y\<rparr>, set_next y None l)
          | None \<Rightarrow> Some (h\<lparr>dl_tail := None, dl_head := None\<rparr>, l))))"

definition DLIST_INSERT_AFTER :: "'p \<Rightarrow> 'p \<Rightarrow> 'p dlist \<Rightarrow> 'p dlist" where
  "DLIST_INSERT_AFTER p x d = (case d of (h, l) \<Rightarrow>
     let l1 = set_next p (Some x) (set_prev x (Some p) (set_next x (lnext l p) l)) in
     (case lnext l1 x of
        Some y \<Rightarrow> (h, set_prev y (Some x) l1)
      | None \<Rightarrow> (h\<lparr>dl_tail := Some x\<rparr>, l1)))"

definition DLIST_INSERT_BEFORE :: "'p \<Rightarrow> 'p \<Rightarrow> 'p dlist \<Rightarrow> 'p dlist" where
  "DLIST_INSERT_BEFORE n x d = (case d of (h, l) \<Rightarrow>
     let l1 = set_prev n (Some x) (set_next x (Some n) (set_prev x (lprev l n) l)) in
     (case lprev l1 x of
        Some y \<Rightarrow> (h, set_next y (Some x) l1)
      | None \<Rightarrow> (h\<lparr>dl_head := Some x\<rparr>, l1)))"

definition DLIST_REM_ENTRY :: "'p \<Rightarrow> 'p dlist \<Rightarrow> 'p dlist" where
  "DLIST_REM_ENTRY x d = (case d of (h, l) \<Rightarrow>
     let (h1, l1) = (case lprev l x of
                       Some p \<Rightarrow> (h, set_next p (lnext l x) l)
                     | None \<Rightarrow> (h\<lparr>dl_head := lnext l x\<rparr>, l)) in
     (case lnext l1 x of
        Some n \<Rightarrow> (h1, set_prev n (lprev l1 x) l1)
      | None \<Rightarrow> (h1\<lparr>dl_tail := lprev l1 x\<rparr>, l1)))"

text \<open>
  Concatenation takes two headers over the same links; only the destination header
  is written. A non-empty destination with a null tail would be a null dereference.
\<close>

definition DLIST_CONCAT ::
    "'p dlist_header \<Rightarrow> 'p dlist_header \<Rightarrow> 'p links \<Rightarrow> 'p dlist option" where
  "DLIST_CONCAT dest src l =
     (case dl_head src of
        None \<Rightarrow> Some (dest, l)
      | Some s \<Rightarrow>
          (case dl_head dest of
             Some _ \<Rightarrow>
               (case dl_tail dest of
                  None \<Rightarrow> None
                | Some t \<Rightarrow>
                    Some (dest\<lparr>dl_tail := dl_tail src\<rparr>,
                          set_prev s (Some t) (set_next t (Some s) l)))
           | None \<Rightarrow>
               Some (dest\<lparr>dl_head := dl_head src, dl_tail := dl_tail src\<rparr>,
                     set_prev s None l)))"

section \<open>The macros of the circular queue\<close>

record 'p circleq_header =
  cq_head :: "'p option"

type_synonym 'p circleq = "'p circleq_header \<times> 'p links"

definition CIRCLEQ_INIT :: "'p links \<Rightarrow> 'p circleq" where
  "CIRCLEQ_INIT l = (\<lparr>cq_head = None\<rparr>, l)"

definition CIRCLEQ_EMPTY :: "'p circleq \<Rightarrow> bool" where
  "CIRCLEQ_EMPTY c = (cq_head (fst c) = None)"

definition CIRCLEQ_HEAD :: "'p circleq \<Rightarrow> 'p option" where
  "CIRCLEQ_HEAD c = cq_head (fst c)"

definition CIRCLEQ_TAIL :: "'p circleq \<Rightarrow> 'p option" where
  "CIRCLEQ_TAIL c = (case cq_head (fst c) of Some x \<Rightarrow> lprev (snd c) x | None \<Rightarrow> None)"

definition CIRCLEQ_FORWARD :: "'p circleq \<Rightarrow> 'p circleq option" where
  "CIRCLEQ_FORWARD c = (case c of (h, l) \<Rightarrow>
     (case cq_head h of None \<Rightarrow> None | Some x \<Rightarrow> Some (h\<lparr>cq_head := lnext l x\<rparr>, l)))"

definition CIRCLEQ_REVERSE :: "'p circleq \<Rightarrow> 'p circleq" where
  "CIRCLEQ_REVERSE c = (case c of (h, l) \<Rightarrow>
     (case cq_head h of None \<Rightarrow> (h, l) | Some x \<Rightarrow> (h\<lparr>cq_head := lnext l x\<rparr>, l)))"

definition CIRCLEQ_ADD_HEAD :: "'p \<Rightarrow> 'p circleq \<Rightarrow> 'p circleq option" where
  "CIRCLEQ_ADD_HEAD x c = (case c of (h, l) \<Rightarrow>
     (case cq_head h of
       Some y \<Rightarrow>
        (let l1 = set_prev x (lprev l y) (set_next x (Some y) l);
             l2 = set_prev y (Some x) l1
         in (case lprev l2 x of
               None \<Rightarrow> None
             | Some p \<Rightarrow> Some (h\<lparr>cq_head := Some x\<rparr>, set_next p (Some x) l2)))
     | None \<Rightarrow>
         Some (h\<lparr>cq_head := Some x\<rparr>, set_prev x (Some x) (set_next x (Some x) l))))"

definition CIRCLEQ_ADD_TAIL :: "'p \<Rightarrow> 'p circleq \<Rightarrow> 'p circleq option" where
  "CIRCLEQ_ADD_TAIL x c = (case c of (h, l) \<Rightarrow>
     (case cq_head h of
       Some y \<Rightarrow>
        (let l1 = set_prev x (lprev l y) (set_next x (Some y) l);
             l2 = set_prev y (Some x) l1
         in (case lprev l2 x of
               None \<Rightarrow> None
             | Some p \<Rightarrow> Some (h, set_next p (Some x) l2)))
     | None \<Rightarrow>
         Some (h\<lparr>cq_head := Some x\<rparr>, set_prev x (Some x) (set_next x (Some x) l))))"

definition CIRCLEQ_REM_HEAD :: "'p circleq \<Rightarrow> 'p circleq option" where
  "CIRCLEQ_REM_HEAD c = (case c of (h, l) \<Rightarrow>
     (case cq_head h of
       None \<Rightarrow> None
     | Some x \<Rightarrow>
        (if lnext l x \<noteq> Some x then
           (case (lnext l x, lprev l x) of
              (Some n, Some p) \<Rightarrow>
                let l1 = set_prev n (Some p) l;
                    l2 = set_next p (Some n) l1
                in Some (h\<lparr>cq_head := lnext l2 x\<rparr>, l2)
            | _ \<Rightarrow> None)
         else Some (h\<lparr>cq_head := None\<rparr>, l))))"

definition CIRCLEQ_REM_ENTRY :: "'p \<Rightarrow> 'p circleq \<Rightarrow> 'p circleq option" where
  "CIRCLEQ_REM_ENTRY x c = (case c of (h, l) \<Rightarrow>
     if lnext l x \<noteq> Some x then
       (case (lnext l x, lprev l x) of
          (Some n, Some p) \<Rightarrow>
            let l1 = set_prev n (Some p) l;
                l2 = set_next p (Some n) l1
            in Some (if cq_head h = Some x then h\<lparr>cq_head := lnext l2 x\<rparr> else h, l2)
        | _ \<Rightarrow> None)
     else Some (h\<lparr>cq_head := None\<rparr>, l))"

section \<open>Which sequence a list stands for\<close>

text \<open>
  \<open>links_ok l p xs q\<close>: the objects of \<open>xs\<close> are chained in order by both link fields,
  the first one's back link is \<open>p\<close> and the last one's forward link is \<open>q\<close>.
\<close>

fun links_ok :: "'p links \<Rightarrow> 'p option \<Rightarrow> 'p list \<Rightarrow> 'p option \<Rightarrow> bool" where
  "links_ok l p [] q = True"
| "links_ok l p (x # xs) q =
     (lprev l x = p \<and> lnext l x = (if xs = [] then q else hd_opt xs)
      \<and> links_ok l (Some x) xs q)"

definition dlist_rep :: "'p dlist \<Rightarrow> 'p list \<Rightarrow> bool" where
  "dlist_rep d xs \<longleftrightarrow>
     distinct xs \<and> dl_head (fst d) = hd_opt xs \<and> dl_tail (fst d) = last_opt xs
     \<and> links_ok (snd d) None xs None"

definition circleq_rep :: "'p circleq \<Rightarrow> 'p list \<Rightarrow> bool" where
  "circleq_rep c xs \<longleftrightarrow>
     distinct xs \<and> cq_head (fst c) = hd_opt xs
     \<and> links_ok (snd c) (last_opt xs) xs (hd_opt xs)"

lemma links_ok_append [list_abs]:
  "links_ok l p (xs @ ys) q \<longleftrightarrow>
     links_ok l p xs (if ys = [] then q else hd_opt ys)
     \<and> links_ok l (if xs = [] then p else last_opt xs) ys q"
  by (induction xs arbitrary: p) (auto simp: last_opt_Cons)

lemma links_ok_set_next [simp]:
  "x \<notin> set xs \<Longrightarrow> links_ok (set_next x v l) p xs q \<longleftrightarrow> links_ok l p xs q"
  by (induction xs arbitrary: p) auto

lemma links_ok_set_prev [simp]:
  "x \<notin> set xs \<Longrightarrow> links_ok (set_prev x v l) p xs q \<longleftrightarrow> links_ok l p xs q"
  by (induction xs arbitrary: p) auto

lemma links_ok_set_next_last [list_abs]:
  "distinct (xs @ [y]) \<Longrightarrow>
     links_ok (set_next y v l) p (xs @ [y]) q \<longleftrightarrow> links_ok l p (xs @ [y]) (lnext l y) \<and> q = v"
  by (auto simp: list_abs)

lemma links_ok_last_next: "links_ok l p (xs @ [y]) q \<Longrightarrow> lnext l y = q"
  by (simp add: list_abs)

lemma links_ok_eq_links:
  "\<forall>x \<in> set xs. lnext l' x = lnext l x \<and> lprev l' x = lprev l x \<Longrightarrow>
     links_ok l' p xs q \<longleftrightarrow> links_ok l p xs q"
  by (induction xs arbitrary: p) auto

section \<open>The doubly linked list implements sequences\<close>

lemma dlist_rep_init: "dlist_rep (DLIST_INIT l) []"
  by (simp add: dlist_rep_def DLIST_INIT_def)

lemma dlist_rep_distinct: "dlist_rep d xs \<Longrightarrow> distinct xs"
  by (simp add: dlist_rep_def)

lemma dlist_rep_head: "dlist_rep d xs \<Longrightarrow> DLIST_HEAD d = hd_opt xs"
  by (simp add: dlist_rep_def DLIST_HEAD_def)

lemma dlist_rep_empty: "dlist_rep d xs \<Longrightarrow> DLIST_EMPTY d \<longleftrightarrow> xs = []"
  by (simp add: dlist_rep_def DLIST_EMPTY_def)

lemma dlist_rep_tail: "dlist_rep d xs \<Longrightarrow> DLIST_TAIL d = last_opt xs"
  by (simp add: dlist_rep_def DLIST_TAIL_def)

lemma dlist_rep_next:
  "dlist_rep d (xs @ x # ys) \<Longrightarrow> DLIST_NEXT x d = hd_opt ys"
  by (simp add: dlist_rep_def DLIST_NEXT_def list_abs)

lemma dlist_rep_prev:
  "dlist_rep d (xs @ x # ys) \<Longrightarrow> DLIST_PREV x d = last_opt xs"
  by (cases "xs = []") (simp_all add: dlist_rep_def DLIST_PREV_def list_abs)

lemma dlist_rep_add_head:
  "dlist_rep d xs \<Longrightarrow> x \<notin> set xs \<Longrightarrow> dlist_rep (DLIST_ADD_HEAD x d) (x # xs)"
  by (cases d; cases xs)
     (auto simp: dlist_rep_def DLIST_ADD_HEAD_def Let_def last_opt_Cons split: if_splits)

lemma dlist_rep_add_tail:
  assumes "dlist_rep d xs" and "x \<notin> set xs"
  shows "dlist_rep (DLIST_ADD_TAIL x d) (xs @ [x])"
proof (cases xs rule: rev_cases)
  case Nil
  with assms show ?thesis
    by (cases d) (simp add: dlist_rep_def DLIST_ADD_TAIL_def Let_def)
next
  case (snoc ys y)
  with assms show ?thesis
    by (cases d) (auto simp: dlist_rep_def DLIST_ADD_TAIL_def Let_def list_abs split: if_splits)
qed

lemma dlist_rep_rem_head:
  "dlist_rep d (x # xs) \<Longrightarrow> \<exists>d'. DLIST_REM_HEAD d = Some d' \<and> dlist_rep d' xs"
  by (cases d; cases xs) (auto simp: dlist_rep_def DLIST_REM_HEAD_def last_opt_Cons)

lemma dlist_rep_rem_tail:
  assumes "dlist_rep d (xs @ [x])"
  shows "\<exists>d'. DLIST_REM_TAIL d = Some d' \<and> dlist_rep d' xs"
proof (cases xs rule: rev_cases)
  case Nil
  with assms show ?thesis
    by (cases d) (simp add: dlist_rep_def DLIST_REM_TAIL_def)
next
  case (snoc ys y)
  with assms show ?thesis
    by (cases d) (auto simp: dlist_rep_def DLIST_REM_TAIL_def list_abs split: if_splits)
qed

lemma dlist_rep_insert_after:
  assumes "dlist_rep d (xs @ p # ys)" and "x \<notin> set (xs @ p # ys)"
  shows "dlist_rep (DLIST_INSERT_AFTER p x d) (xs @ p # x # ys)"
  using assms
  by (cases d; cases ys; cases "xs = []")
     (auto simp: dlist_rep_def DLIST_INSERT_AFTER_def Let_def list_abs last_opt_Cons)

lemma dlist_rep_insert_before:
  assumes "dlist_rep d (xs @ n # ys)" and "x \<notin> set (xs @ n # ys)"
  shows "dlist_rep (DLIST_INSERT_BEFORE n x d) (xs @ x # n # ys)"
proof (cases xs rule: rev_cases)
  case Nil
  with assms show ?thesis
    by (cases d) (auto simp: dlist_rep_def DLIST_INSERT_BEFORE_def Let_def last_opt_Cons)
next
  case (snoc zs z)
  with assms show ?thesis
    by (cases d)
       (auto simp: dlist_rep_def DLIST_INSERT_BEFORE_def Let_def list_abs last_opt_Cons)
qed

lemma dlist_rep_rem_entry_split:
  assumes "dlist_rep d (xs @ x # ys)"
  shows "dlist_rep (DLIST_REM_ENTRY x d) (xs @ ys)"
proof (cases xs rule: rev_cases)
  case Nil
  with assms show ?thesis
    by (cases d; cases ys)
       (auto simp: dlist_rep_def DLIST_REM_ENTRY_def Let_def last_opt_Cons)
next
  case (snoc zs z)
  with assms show ?thesis
    by (cases d; cases ys)
       (auto simp: dlist_rep_def DLIST_REM_ENTRY_def Let_def list_abs last_opt_Cons
             split: if_splits)
qed

lemma dlist_rep_rem_entry:
  assumes "dlist_rep d xs" and "x \<in> set xs"
  shows "dlist_rep (DLIST_REM_ENTRY x d) (remove1 x xs)"
proof -
  from in_set_split_first [OF assms(2)]
  obtain as bs where split: "xs = as @ x # bs" "x \<notin> set as" by blast
  with assms(1) show ?thesis
    by (simp add: remove1_split dlist_rep_rem_entry_split)
qed

lemma dlist_rep_concat:
  assumes "dlist_rep (dest, l) xs" and "dlist_rep (src, l) ys" and "set xs \<inter> set ys = {}"
  shows "\<exists>d. DLIST_CONCAT dest src l = Some d \<and> dlist_rep d (xs @ ys)"
proof (cases xs rule: rev_cases)
  case Nil
  with assms show ?thesis
    by (cases ys) (auto simp: dlist_rep_def DLIST_CONCAT_def)
next
  case (snoc zs z)
  with assms show ?thesis
    by (cases ys)
       (auto simp: dlist_rep_def DLIST_CONCAT_def list_abs split: option.splits)
qed

section \<open>The circular queue implements sequences\<close>

lemma circleq_rep_init: "circleq_rep (CIRCLEQ_INIT l) []"
  by (simp add: circleq_rep_def CIRCLEQ_INIT_def)

lemma circleq_rep_distinct: "circleq_rep c xs \<Longrightarrow> distinct xs"
  by (simp add: circleq_rep_def)

lemma circleq_rep_head: "circleq_rep c xs \<Longrightarrow> CIRCLEQ_HEAD c = hd_opt xs"
  by (simp add: circleq_rep_def CIRCLEQ_HEAD_def)

lemma circleq_rep_empty: "circleq_rep c xs \<Longrightarrow> CIRCLEQ_EMPTY c \<longleftrightarrow> xs = []"
  by (simp add: circleq_rep_def CIRCLEQ_EMPTY_def)

lemma circleq_rep_tail: "circleq_rep c xs \<Longrightarrow> CIRCLEQ_TAIL c = last_opt xs"
  by (cases xs) (simp_all add: circleq_rep_def CIRCLEQ_TAIL_def)

lemma circleq_rep_forward:
  "circleq_rep c (x # xs) \<Longrightarrow>
     \<exists>c'. CIRCLEQ_FORWARD c = Some c' \<and> circleq_rep c' (xs @ [x])"
  by (cases c; cases xs) (auto simp: circleq_rep_def CIRCLEQ_FORWARD_def list_abs last_opt_Cons)

lemma circleq_rep_reverse:
  "circleq_rep c (x # xs) \<Longrightarrow> circleq_rep (CIRCLEQ_REVERSE c) (xs @ [x])"
  by (cases c; cases xs) (auto simp: circleq_rep_def CIRCLEQ_REVERSE_def list_abs last_opt_Cons)

lemma circleq_rep_add_head:
  assumes "circleq_rep c xs" and "x \<notin> set xs"
  shows "\<exists>c'. CIRCLEQ_ADD_HEAD x c = Some c' \<and> circleq_rep c' (x # xs)"
proof (cases xs)
  case Nil
  with assms show ?thesis
    by (cases c) (auto simp: circleq_rep_def CIRCLEQ_ADD_HEAD_def)
next
  case (Cons y ys)
  with assms show ?thesis
    by (cases c; cases ys rule: rev_cases)
       (auto simp: circleq_rep_def CIRCLEQ_ADD_HEAD_def Let_def list_abs last_opt_Cons
             split: if_splits)
qed

lemma circleq_rep_add_tail:
  assumes "circleq_rep c xs" and "x \<notin> set xs"
  shows "\<exists>c'. CIRCLEQ_ADD_TAIL x c = Some c' \<and> circleq_rep c' (xs @ [x])"
proof (cases xs)
  case Nil
  with assms show ?thesis
    by (cases c) (auto simp: circleq_rep_def CIRCLEQ_ADD_TAIL_def)
next
  case (Cons y ys)
  with assms show ?thesis
    by (cases c; cases ys rule: rev_cases)
       (auto simp: circleq_rep_def CIRCLEQ_ADD_TAIL_def Let_def list_abs last_opt_Cons
             split: if_splits)
qed

lemma circleq_rep_rem_head:
  assumes "circleq_rep c (x # xs)"
  shows "\<exists>c'. CIRCLEQ_REM_HEAD c = Some c' \<and> circleq_rep c' xs"
proof (cases xs)
  case Nil
  with assms show ?thesis
    by (cases c) (simp add: circleq_rep_def CIRCLEQ_REM_HEAD_def)
next
  case (Cons y ys)
  with assms show ?thesis
    by (cases c; cases ys rule: rev_cases)
       (auto simp: circleq_rep_def CIRCLEQ_REM_HEAD_def Let_def list_abs last_opt_Cons
             split: if_splits)
qed

text \<open>A queue may be read from any of its entries: the ring is the same.\<close>

lemma circleq_rep_ring:
  assumes "circleq_rep (h, l) (xs @ x # ys)"
  shows "circleq_rep (\<lparr>cq_head = Some x\<rparr>, l) (x # ys @ xs)"
  using assms by (cases "xs = []"; cases "ys = []") (auto simp: circleq_rep_def list_abs last_opt_Cons)

lemma circleq_rep_rem_entry_split:
  assumes rep: "circleq_rep c (xs @ x # ys)"
  shows "\<exists>c'. CIRCLEQ_REM_ENTRY x c = Some c' \<and> circleq_rep c' (xs @ ys)"
proof (cases xs)
  case Nil
  with rep have "CIRCLEQ_REM_ENTRY x c = CIRCLEQ_REM_HEAD c"
    by (cases c) (simp add: circleq_rep_def CIRCLEQ_REM_ENTRY_def CIRCLEQ_REM_HEAD_def
          Let_def split: option.split)
  with rep Nil show ?thesis using circleq_rep_rem_head [of c x ys] by simp
next
  case (Cons a as)
  with rep show ?thesis
    by (cases c; cases ys; cases as rule: rev_cases)
       (auto simp: circleq_rep_def CIRCLEQ_REM_ENTRY_def Let_def list_abs last_opt_Cons
             split: if_splits)
qed

lemma circleq_rep_rem_entry:
  assumes "circleq_rep c xs" and "x \<in> set xs"
  shows "\<exists>c'. CIRCLEQ_REM_ENTRY x c = Some c' \<and> circleq_rep c' (remove1 x xs)"
proof -
  from in_set_split_first [OF assms(2)]
  obtain as bs where split: "xs = as @ x # bs" "x \<notin> set as" by blast
  from assms(1) have "circleq_rep c (as @ x # bs)" by (simp add: split)
  from circleq_rep_rem_entry_split [OF this] show ?thesis
    by (simp only: split remove1_split [OF split(2)])
qed

section \<open>The contract of a queue of objects\<close>

text \<open>
  What the kernel's components rely on: a queue stands for a sequence of distinct objects,
  and each operation does to the sequence what its name says. \<open>None\<close> is the dereference
  of a null pointer, which the contract excludes.
\<close>

locale linked_queue =
  fixes rep :: "'q \<Rightarrow> 'p list \<Rightarrow> bool"
    and head :: "'q \<Rightarrow> 'p option"
    and add_head :: "'p \<Rightarrow> 'q \<Rightarrow> 'q option"
    and add_tail :: "'p \<Rightarrow> 'q \<Rightarrow> 'q option"
    and rem_head :: "'q \<Rightarrow> 'q option"
    and rem_entry :: "'p \<Rightarrow> 'q \<Rightarrow> 'q option"
  assumes rep_distinct: "rep q xs \<Longrightarrow> distinct xs"
    and rep_head: "rep q xs \<Longrightarrow> head q = hd_opt xs"
    and rep_add_head: "rep q xs \<Longrightarrow> x \<notin> set xs \<Longrightarrow> \<exists>q'. add_head x q = Some q' \<and> rep q' (x # xs)"
    and rep_add_tail: "rep q xs \<Longrightarrow> x \<notin> set xs \<Longrightarrow> \<exists>q'. add_tail x q = Some q' \<and> rep q' (xs @ [x])"
    and rep_rem_head: "rep q (x # xs) \<Longrightarrow> \<exists>q'. rem_head q = Some q' \<and> rep q' xs"
    and rep_rem_entry: "rep q xs \<Longrightarrow> x \<in> set xs \<Longrightarrow> \<exists>q'. rem_entry x q = Some q' \<and> rep q' (remove1 x xs)"

text \<open>Enqueue a batch at the tail, and take \<open>n\<close> objects from the head.\<close>

fun enqueue_all :: "('p \<Rightarrow> 'q \<Rightarrow> 'q option) \<Rightarrow> 'p list \<Rightarrow> 'q \<Rightarrow> 'q option" where
  "enqueue_all add [] q = Some q"
| "enqueue_all add (x # xs) q = Option.bind (add x q) (enqueue_all add xs)"

fun drain :: "('q \<Rightarrow> 'p option) \<Rightarrow> ('q \<Rightarrow> 'q option) \<Rightarrow> nat \<Rightarrow> 'q \<Rightarrow> ('p list \<times> 'q) option" where
  "drain hd_of rem 0 q = Some ([], q)"
| "drain hd_of rem (Suc n) q =
     (case hd_of q of
        None \<Rightarrow> None
      | Some x \<Rightarrow>
          (case rem q of
             None \<Rightarrow> None
           | Some q' \<Rightarrow> map_option (\<lambda>(ys, q''). (x # ys, q'')) (drain hd_of rem n q')))"

context linked_queue
begin

lemma enqueue_all_rep:
  "rep q ys \<Longrightarrow> distinct (ys @ xs) \<Longrightarrow> \<exists>q'. enqueue_all add_tail xs q = Some q' \<and> rep q' (ys @ xs)"
proof (induction xs arbitrary: q ys)
  case Nil
  then show ?case by simp
next
  case (Cons x xs)
  then obtain q1 where "add_tail x q = Some q1" "rep q1 (ys @ [x])"
    using rep_add_tail [of q ys x] by auto
  with Cons.IH [of q1 "ys @ [x]"] Cons.prems show ?case by simp
qed

lemma drain_rep:
  "rep q (xs @ ys) \<Longrightarrow> \<exists>q'. drain head rem_head (length xs) q = Some (xs, q') \<and> rep q' ys"
proof (induction xs arbitrary: q)
  case Nil
  then show ?case by simp
next
  case (Cons x xs)
  then obtain q1 where "rem_head q = Some q1" "rep q1 (xs @ ys)"
    using rep_rem_head [of q x "xs @ ys"] by auto
  moreover from Cons.prems have "head q = Some x" using rep_head by fastforce
  ultimately show ?case using Cons.IH [of q1] by auto
qed

text \<open>First in, first out.\<close>

lemma fifo:
  assumes "rep q ys" and "distinct (ys @ xs)"
  shows "\<exists>q' q''. enqueue_all add_tail xs q = Some q'
     \<and> drain head rem_head (length ys + length xs) q' = Some (ys @ xs, q'') \<and> rep q'' []"
proof -
  from enqueue_all_rep [OF assms] obtain q' where
    q': "enqueue_all add_tail xs q = Some q'" "rep q' (ys @ xs)" by blast
  with drain_rep [of q' "ys @ xs" "[]"] show ?thesis by auto
qed

text \<open>Taking an entry out of the middle and putting it at the tail loses nobody.\<close>

lemma requeue_permutes:
  assumes "rep q xs" and "x \<in> set xs"
  shows "\<exists>q1 q2. rem_entry x q = Some q1 \<and> add_tail x q1 = Some q2
     \<and> rep q2 (remove1 x xs @ [x])"
proof -
  from rep_rem_entry [OF assms] obtain q1 where
    "rem_entry x q = Some q1" "rep q1 (remove1 x xs)" by blast
  moreover have "x \<notin> set (remove1 x xs)"
    using rep_distinct [OF assms(1)] by simp
  ultimately show ?thesis using rep_add_tail by blast
qed

end

interpretation dl: linked_queue dlist_rep DLIST_HEAD
    "\<lambda>x d. Some (DLIST_ADD_HEAD x d)" "\<lambda>x d. Some (DLIST_ADD_TAIL x d)" DLIST_REM_HEAD
    "\<lambda>x d. Some (DLIST_REM_ENTRY x d)"
  by unfold_locales
     (blast intro: dlist_rep_distinct dlist_rep_head dlist_rep_add_head dlist_rep_add_tail
        dlist_rep_rem_head dlist_rep_rem_entry)+

interpretation cq: linked_queue circleq_rep CIRCLEQ_HEAD CIRCLEQ_ADD_HEAD CIRCLEQ_ADD_TAIL
    CIRCLEQ_REM_HEAD CIRCLEQ_REM_ENTRY
  by unfold_locales
     (blast intro: circleq_rep_distinct circleq_rep_head circleq_rep_add_head
        circleq_rep_add_tail circleq_rep_rem_head circleq_rep_rem_entry)+

end
