(* ===== verification/Kernel_State.thy ===== *)
theory Kernel_State
  imports Lists
begin

text \<open>
  The state shared by the scheduler, the big kernel lock, the condition variables
  (\<open>struct Rendez\<close>), the timers, the thread events and the futexes: the thread
  table, the run queues, the blocked lists and the clocks. Threads are numbered; a list of
  threads is the sequence its linked list stands for (theory \<open>Lists\<close>).
\<close>

type_synonym tid = nat

text \<open>\<open>thread.state\<close>\<close>

datatype thread_state =
    THREAD_STATE_FREE | THREAD_STATE_INIT | THREAD_STATE_READY | THREAD_STATE_RUNNING
  | THREAD_STATE_RENDEZ_BLOCKED | THREAD_STATE_BKL_BLOCKED | THREAD_STATE_EXITED

text \<open>\<open>thread.sched_policy\<close>; any other integer is an unknown policy.\<close>

datatype sched_policy =
    SCHED_OTHER | SCHED_FIFO | SCHED_RR | SCHED_IDLE | SCHED_UNKNOWN int

text \<open>
  The condition variables threads sleep on: the one embedded in each thread, the timer
  task's, one per futex, the futex table's, one per page, that of the free pages, that of
  \<open>sync\<close>, three per process, that of the thread reaper, and those of other objects.
\<close>

datatype rendez =
    Rendez_thread tid | Rendez_timer | Rendez_futex nat | Rendez_futex_table | Rendez_page nat | Rendez_page_list
  | Rendez_sync | Rendez_child_list nat | Rendez_thread_list nat | Rendez_process nat | Rendez_reaper | Rendez_obj nat

record thread =
  t_state :: thread_state
  sched_policy :: sched_policy
  quanta_used :: int
  priority :: nat
  desired_priority :: nat
  blocking_rendez :: "rendez option"
  intr_flags :: u32
  pending_events :: u32
  event_mask :: u32
  t_process :: nat
  usage_usec :: u64
  last_resched_time_usec :: u64
  creation_usec :: u64

text \<open>
  The timers of a thread, and what a timer calls when it expires: the two callbacks the
  kernel installs itself, or one given to \<open>SetTimeout\<close>.
\<close>

datatype timer_id = Sleep_timer tid | Timeout_timer tid

datatype timer_callback = SleepCallback | TaskTimedSleepCallback | Callback nat

record timer =
  armed :: bool
  expiration_time :: int
  tm_arg :: "rendez option"
  tm_callback :: "timer_callback option"
  tm_thread :: "tid option"

record kstate =
  threads :: "tid \<Rightarrow> thread"
  sched_queue :: "nat \<Rightarrow> tid list"
  sched_queue_bitmap :: u32
  current_thread :: "tid option"
  current_process :: "nat option"
  idle_thread :: "tid option"
  bkl_locked :: bool
  bkl_owner :: "tid option"
  bkl_blocked_list :: "tid list"
  blocked_list :: "rendez \<Rightarrow> tid list"
  monotonic_usec :: u64
  hardclock_time :: int
  softclock_time :: int
  timing_wheel :: "nat \<Rightarrow> timer_id list"
  timers :: "timer_id \<Rightarrow> timer"

definition upd_thread :: "tid \<Rightarrow> (thread \<Rightarrow> thread) \<Rightarrow> kstate \<Rightarrow> kstate" where
  "upd_thread t f s = s\<lparr>threads := (threads s)(t := f (threads s t))\<rparr>"

definition upd_queue :: "nat \<Rightarrow> (tid list \<Rightarrow> tid list) \<Rightarrow> kstate \<Rightarrow> kstate" where
  "upd_queue q f s = s\<lparr>sched_queue := (sched_queue s)(q := f (sched_queue s q))\<rparr>"

definition upd_blocked :: "rendez \<Rightarrow> (tid list \<Rightarrow> tid list) \<Rightarrow> kstate \<Rightarrow> kstate" where
  "upd_blocked r f s = s\<lparr>blocked_list := (blocked_list s)(r := f (blocked_list s r))\<rparr>"

abbreviation set_state :: "tid \<Rightarrow> thread_state \<Rightarrow> kstate \<Rightarrow> kstate" where
  "set_state t st \<equiv> upd_thread t (\<lambda>th. th\<lparr>t_state := st\<rparr>)"

lemma upd_thread_simps [simp]:
  "threads (upd_thread t f s) = (threads s)(t := f (threads s t))"
  "sched_queue (upd_thread t f s) = sched_queue s"
  "sched_queue_bitmap (upd_thread t f s) = sched_queue_bitmap s"
  "current_thread (upd_thread t f s) = current_thread s"
  "idle_thread (upd_thread t f s) = idle_thread s"
  "bkl_locked (upd_thread t f s) = bkl_locked s"
  "bkl_owner (upd_thread t f s) = bkl_owner s"
  "bkl_blocked_list (upd_thread t f s) = bkl_blocked_list s"
  "blocked_list (upd_thread t f s) = blocked_list s"
  "timers (upd_thread t f s) = timers s"
  "timing_wheel (upd_thread t f s) = timing_wheel s"
  "hardclock_time (upd_thread t f s) = hardclock_time s"
  "softclock_time (upd_thread t f s) = softclock_time s"
  "monotonic_usec (upd_thread t f s) = monotonic_usec s"
  by (simp_all add: upd_thread_def)

lemma upd_queue_simps [simp]:
  "threads (upd_queue q f s) = threads s"
  "sched_queue (upd_queue q f s) = (sched_queue s)(q := f (sched_queue s q))"
  "sched_queue_bitmap (upd_queue q f s) = sched_queue_bitmap s"
  "current_thread (upd_queue q f s) = current_thread s"
  "idle_thread (upd_queue q f s) = idle_thread s"
  "bkl_locked (upd_queue q f s) = bkl_locked s"
  "bkl_owner (upd_queue q f s) = bkl_owner s"
  "bkl_blocked_list (upd_queue q f s) = bkl_blocked_list s"
  "blocked_list (upd_queue q f s) = blocked_list s"
  "timers (upd_queue q f s) = timers s"
  "timing_wheel (upd_queue q f s) = timing_wheel s"
  "hardclock_time (upd_queue q f s) = hardclock_time s"
  "softclock_time (upd_queue q f s) = softclock_time s"
  "monotonic_usec (upd_queue q f s) = monotonic_usec s"
  by (simp_all add: upd_queue_def)

lemma upd_blocked_simps [simp]:
  "threads (upd_blocked r f s) = threads s"
  "sched_queue (upd_blocked r f s) = sched_queue s"
  "sched_queue_bitmap (upd_blocked r f s) = sched_queue_bitmap s"
  "current_thread (upd_blocked r f s) = current_thread s"
  "idle_thread (upd_blocked r f s) = idle_thread s"
  "bkl_locked (upd_blocked r f s) = bkl_locked s"
  "bkl_owner (upd_blocked r f s) = bkl_owner s"
  "bkl_blocked_list (upd_blocked r f s) = bkl_blocked_list s"
  "blocked_list (upd_blocked r f s) = (blocked_list s)(r := f (blocked_list s r))"
  "timers (upd_blocked r f s) = timers s"
  "timing_wheel (upd_blocked r f s) = timing_wheel s"
  "hardclock_time (upd_blocked r f s) = hardclock_time s"
  "softclock_time (upd_blocked r f s) = softclock_time s"
  "monotonic_usec (upd_blocked r f s) = monotonic_usec s"
  by (simp_all add: upd_blocked_def)

text \<open>The tables as \<open>init_processes\<close> clears them.\<close>

definition free_thread :: thread where
  "free_thread = \<lparr>t_state = THREAD_STATE_FREE, sched_policy = SCHED_OTHER, quanta_used = 0,
     priority = 0, desired_priority = 0, blocking_rendez = None, intr_flags = 0,
     pending_events = 0, event_mask = 0, t_process = 0, usage_usec = 0,
     last_resched_time_usec = 0, creation_usec = 0\<rparr>"

definition init_tables :: kstate where
  "init_tables = \<lparr>threads = (\<lambda>_. free_thread), sched_queue = (\<lambda>_. []), sched_queue_bitmap = 0,
     current_thread = None, current_process = None, idle_thread = None, bkl_locked = False,
     bkl_owner = None, bkl_blocked_list = [], blocked_list = (\<lambda>_. []), monotonic_usec = 0,
     hardclock_time = 0, softclock_time = 0, timing_wheel = (\<lambda>_. []),
     timers = (\<lambda>_. \<lparr>armed = False, expiration_time = 0, tm_arg = None, tm_callback = None,
        tm_thread = None\<rparr>)\<rparr>"

end
