(* ===== verification/Sched.thy ===== *)
theory Sched
  imports Kernel_State
begin

text \<open>
  The scheduler of \<open>proc/sched.c\<close> and \<open>proc/thread_sched.c\<close>: 32 run queues with a bitmap
  of the non-empty ones, round robin within a queue, and the task switch. A function that may
  reach \<open>kernelpanic\<close>, fail a \<open>kassert\<close> or dereference a null queue head returns an
  option. The register switch (\<open>SetContext\<close>, \<open>GetContext\<close>) is the change of
  \<open>current_thread\<close>; \<open>pmap_switch\<close> has no effect on this state. The microsecond counter
  read by \<open>arch_get_monotonic_usec\<close> is the field \<open>monotonic_usec\<close>.
\<close>

unbundle bit_operations_syntax

section \<open>Operations\<close>

definition SCHED_QUANTA_JIFFIES :: int where
  "SCHED_QUANTA_JIFFIES = 5"

text \<open>\<open>sched_queue_bitmap |= (1 << q)\<close> and \<open>sched_queue_bitmap &= ~(1 << q)\<close>\<close>

definition set_queue_bit :: "nat \<Rightarrow> kstate \<Rightarrow> kstate" where
  "set_queue_bit q s = s\<lparr>sched_queue_bitmap := sched_queue_bitmap s OR push_bit q 1\<rparr>"

definition clear_queue_bit :: "nat \<Rightarrow> kstate \<Rightarrow> kstate" where
  "clear_queue_bit q s = s\<lparr>sched_queue_bitmap := sched_queue_bitmap s AND NOT (push_bit q 1)\<rparr>"

definition SchedReady :: "tid \<Rightarrow> kstate \<Rightarrow> kstate option" where
  "SchedReady t s =
     (let th = threads s t;
          zero_quanta = upd_thread t (\<lambda>th. th\<lparr>quanta_used := 0\<rparr>)
      in case sched_policy th of
           SCHED_RR \<Rightarrow>
             Some (zero_quanta (set_queue_bit (priority th)
                    (upd_queue (priority th) (\<lambda>xs. xs @ [t]) s)))
         | SCHED_FIFO \<Rightarrow>
             Some (zero_quanta (set_queue_bit (priority th)
                    (upd_queue (priority th) (\<lambda>xs. xs @ [t]) s)))
         | SCHED_OTHER \<Rightarrow>
             Some (zero_quanta (set_queue_bit (priority th)
                    (upd_queue (priority th) (\<lambda>xs. xs @ [t]) s)))
         | SCHED_IDLE \<Rightarrow> Some (zero_quanta s)
         | SCHED_UNKNOWN _ \<Rightarrow> None)"

text \<open>Unlink a thread from its run queue and clear the queue's bit when it was the last.\<close>

definition sched_unlink :: "tid \<Rightarrow> nat \<Rightarrow> kstate \<Rightarrow> kstate" where
  "sched_unlink t q s =
     (let s1 = upd_queue q (remove1 t) s
      in if sched_queue s1 q = [] then clear_queue_bit q s1 else s1)"

definition SchedUnready :: "tid \<Rightarrow> kstate \<Rightarrow> kstate option" where
  "SchedUnready t s =
     (let th = threads s t
      in case sched_policy th of
           SCHED_RR \<Rightarrow>
             Some (upd_thread t (\<lambda>th. th\<lparr>quanta_used := 0\<rparr>) (sched_unlink t (priority th) s))
         | SCHED_FIFO \<Rightarrow>
             Some (upd_thread t (\<lambda>th. th\<lparr>quanta_used := 0\<rparr>) (sched_unlink t (priority th) s))
         | SCHED_OTHER \<Rightarrow>
             Some (upd_thread t
                     (\<lambda>th. th\<lparr>priority := desired_priority th, quanta_used := 0\<rparr>)
                     (sched_unlink t (priority th) s))
         | SCHED_IDLE \<Rightarrow> Some s
         | SCHED_UNKNOWN _ \<Rightarrow> None)"

text \<open>
  The first part of \<open>Reschedule\<close>: charge the running thread a tick, rotate its queue when
  it is round robin, and demote a \<open>SCHED_OTHER\<close> thread by one priority when its quanta are
  used. The demotion moves the thread to another queue without touching the bitmap.
\<close>

definition resched_charge :: "kstate \<Rightarrow> kstate option" where
  "resched_charge s =
     (case current_thread s of
        None \<Rightarrow> Some s
      | Some c \<Rightarrow>
         (let s1 = upd_thread c (\<lambda>th. th\<lparr>quanta_used := quanta_used th + 1\<rparr>) s;
              th = threads s1 c;
              p = priority th;
              zero_quanta = upd_thread c (\<lambda>th. th\<lparr>quanta_used := 0\<rparr>)
          in (case sched_policy th of
               SCHED_RR \<Rightarrow>
                 do {
                   kassert (p \<ge> 16 \<and> p < 32);
                   Some (if sched_queue s1 p \<noteq> []
                         then zero_quanta (upd_queue p rotate1 s1)
                         else s1)
                 }
             | SCHED_OTHER \<Rightarrow>
                 (if quanta_used th = SCHED_QUANTA_JIFFIES then
                    if sched_queue s1 p = [] then None
                    else if p > 1 then
                      Some (zero_quanta
                              (upd_queue (p - 1) (\<lambda>xs. xs @ [c])
                                 (upd_thread c (\<lambda>th. th\<lparr>priority := p - 1\<rparr>)
                                    (upd_queue p tl s1))))
                    else Some (zero_quanta (upd_queue p rotate1 s1))
                  else Some s1)
             | _ \<Rightarrow> Some s1)))"

text \<open>The highest set bit of the bitmap, searched from queue 31 downwards.\<close>

fun highest_queue :: "u32 \<Rightarrow> nat \<Rightarrow> nat option" where
  "highest_queue bm 0 = None"
| "highest_queue bm (Suc q) =
     (if bm AND push_bit q 1 \<noteq> 0 then Some q else highest_queue bm q)"

definition resched_next :: "kstate \<Rightarrow> tid option" where
  "resched_next s =
     (case highest_queue (sched_queue_bitmap s) 32 of
        Some q \<Rightarrow>
          (case sched_queue s q of
             t # _ \<Rightarrow> Some t
           | [] \<Rightarrow> idle_thread s)
      | None \<Rightarrow> idle_thread s)"

text \<open>
  The accounting and the switch. With no thread to run at all and a current thread,
  \<open>next->last_resched_time_usec\<close> would be written through a null pointer.
\<close>

definition resched_switch :: "tid option \<Rightarrow> kstate \<Rightarrow> kstate option" where
  "resched_switch next s =
     (let s1 = (case next of
                  Some n \<Rightarrow> set_state n THREAD_STATE_RUNNING s
                | None \<Rightarrow> s);
          now = monotonic_usec s1;
          s2 = (case current_thread s1 of
                  Some c \<Rightarrow>
                    upd_thread c (\<lambda>th. th\<lparr>
                      usage_usec := usage_usec th + (now - last_resched_time_usec th),
                      last_resched_time_usec := now\<rparr>) s1
                | None \<Rightarrow> s1)
      in if next = current_thread s2 then Some s2
         else (case next of
                 None \<Rightarrow> None
               | Some n \<Rightarrow>
                   Some ((upd_thread n (\<lambda>th. th\<lparr>last_resched_time_usec := now\<rparr>) s2)
                     \<lparr>current_thread := Some n, current_process := Some (t_process (threads s2 n))\<rparr>)))"

definition Reschedule :: "kstate \<Rightarrow> kstate option" where
  "Reschedule s = do { s1 \<leftarrow> resched_charge s; resched_switch (resched_next s1) s1 }"

definition thread_start :: "tid \<Rightarrow> kstate \<Rightarrow> kstate option" where
  "thread_start t s =
     SchedReady t (upd_thread t (\<lambda>th. th\<lparr>usage_usec := 0,
        last_resched_time_usec := monotonic_usec s, creation_usec := monotonic_usec s,
        t_state := THREAD_STATE_READY\<rparr>) s)"

text \<open>
  Hand the big kernel lock to the longest-waiting thread, or unlock it. The same
  statements open \<open>thread_stop\<close>, \<open>TaskSleep\<close> and \<open>TaskSleepInterruptible\<close>.
\<close>

definition bkl_handover :: "kstate \<Rightarrow> kstate option" where
  "bkl_handover s =
     (case bkl_blocked_list s of
        t # ts \<Rightarrow>
          SchedReady t ((set_state t THREAD_STATE_READY (s\<lparr>bkl_blocked_list := ts\<rparr>))
            \<lparr>bkl_owner := Some t\<rparr>)
      | [] \<Rightarrow> Some (s\<lparr>bkl_locked := False, bkl_owner := None\<rparr>))"

text \<open>
  \<open>thread_stop\<close> never returns to its caller: the result is the state in which the
  next thread runs.
\<close>

definition thread_stop :: "kstate \<Rightarrow> kstate option" where
  "thread_stop s =
     (case current_thread s of
        None \<Rightarrow> None
      | Some c \<Rightarrow> do {
          s1 \<leftarrow> bkl_handover s;
          s2 \<leftarrow> SchedUnready c (set_state c THREAD_STATE_EXITED s1);
          Reschedule s2 })"

definition init_schedparams :: "tid \<Rightarrow> sched_policy \<Rightarrow> int \<Rightarrow> kstate \<Rightarrow> kstate option" where
  "init_schedparams t policy prio s =
     (let p0 = (if prio < 0 then 0 else prio);
          p1 = (if p0 > 31 then 31 else p0);
          set_params = (\<lambda>pol p. Some (upd_thread t (\<lambda>th. th\<lparr>quanta_used := 0,
             sched_policy := pol, priority := nat p, desired_priority := nat p\<rparr>) s))
      in case policy of
           SCHED_RR \<Rightarrow> set_params SCHED_RR (if p1 \<ge> 16 then p1 else 16)
         | SCHED_FIFO \<Rightarrow> set_params SCHED_FIFO (if p1 \<ge> 16 then p1 else 16)
         | SCHED_OTHER \<Rightarrow> set_params SCHED_OTHER (if p1 < 16 then p1 else 0)
         | SCHED_IDLE \<Rightarrow> set_params SCHED_IDLE 0
         | SCHED_UNKNOWN _ \<Rightarrow> None)"

text \<open>The fields of \<open>init_thread\<close> that scheduling and sleeping use.\<close>

definition init_thread :: "tid \<Rightarrow> nat \<Rightarrow> kstate \<Rightarrow> kstate" where
  "init_thread t proc s =
     upd_thread t (\<lambda>th. th\<lparr>t_process := proc, t_state := THREAD_STATE_INIT, blocking_rendez := None,
        intr_flags := 0, event_mask := 0, pending_events := 0\<rparr>)
       (upd_blocked (Rendez_thread t) (\<lambda>_. []) s)"

definition start_scheduler :: "kstate \<Rightarrow> kstate option" where
  "start_scheduler s = do {
     q \<leftarrow> highest_queue (sched_queue_bitmap s) 32;
     n \<leftarrow> (case hd_opt (sched_queue s q) of Some n \<Rightarrow> Some n | None \<Rightarrow> idle_thread s);
     Some ((set_state n THREAD_STATE_RUNNING s)
       \<lparr>current_thread := Some n, current_process := Some (t_process (threads s n))\<rparr>) }"

definition dup_schedparams :: "tid \<Rightarrow> tid \<Rightarrow> kstate \<Rightarrow> kstate" where
  "dup_schedparams t old s =
     (let o_th = threads s old in
      upd_thread t (\<lambda>th. th\<lparr>quanta_used := 0, sched_policy := sched_policy o_th,
        priority := priority o_th, desired_priority := desired_priority o_th\<rparr>) s)"

text \<open>
  The system call that changes the caller's policy; \<open>privileged\<close> is the outcome of
  \<open>check_privileges(current_proc, PRIV_SCHED_RR | PRIV_SCHED)\<close>.
\<close>

definition sched_change :: "tid \<Rightarrow> sched_policy \<Rightarrow> nat \<Rightarrow> kstate \<Rightarrow> kstate option" where
  "sched_change c policy p s = do {
     s1 \<leftarrow> SchedUnready c s;
     s2 \<leftarrow> SchedReady c (upd_thread c (\<lambda>th. th\<lparr>sched_policy := policy,
             desired_priority := p, priority := p\<rparr>) s1);
     Reschedule s2 }"

definition sys_thread_setschedparams ::
    "bool \<Rightarrow> sched_policy \<Rightarrow> int \<Rightarrow> kstate \<Rightarrow> (unit result \<times> kstate) option" where
  "sys_thread_setschedparams privileged policy prio s =
     (case current_thread s of
        None \<Rightarrow> None
      | Some c \<Rightarrow>
          if policy = SCHED_RR \<or> policy = SCHED_FIFO then
            if \<not> privileged then Some (Inl EPERM, s)
            else if prio < 16 \<or> prio > 31 then Some (Inl EINVAL, s)
            else map_option (\<lambda>s'. (Inr (), s')) (sched_change c policy (nat prio) s)
          else if policy = SCHED_OTHER then
            if prio < 0 \<or> prio > 15 then Some (Inl EINVAL, s)
            else map_option (\<lambda>s'. (Inr (), s')) (sched_change c policy (nat prio) s)
          else Some (Inl EINVAL, s))"

section \<open>The bitmap\<close>

lemma queue_bit_test: "(bm :: u32) AND 2 ^ q = 0 \<longleftrightarrow> \<not> bit bm q"
  by (simp add: bit_iff_and_push_bit_not_eq_0)

lemma highest_queue_Some:
  "highest_queue bm n = Some q \<longleftrightarrow> q < n \<and> bit bm q \<and> (\<forall>p. q < p \<and> p < n \<longrightarrow> \<not> bit bm p)"
proof (induction n)
  case (Suc n)
  show ?case
  proof (cases "bit bm n")
    case True
    have "q = n" if "q < Suc n" "\<forall>p. q < p \<and> p < Suc n \<longrightarrow> \<not> bit bm p"
      using that True by (metis lessI less_Suc_eq)
    with True show ?thesis by (auto simp: queue_bit_test)
  next
    case False
    then have "highest_queue bm (Suc n) = highest_queue bm n" by (simp add: queue_bit_test)
    with Suc.IH False show ?thesis by (auto simp: less_Suc_eq)
  qed
qed simp

lemma highest_queue_None: "highest_queue bm n = None \<longleftrightarrow> (\<forall>p < n. \<not> bit bm p)"
  by (induction n) (auto simp: queue_bit_test less_Suc_eq)

lemma bit_set_queue_bit:
  "q < 32 \<Longrightarrow> bit (sched_queue_bitmap (set_queue_bit q s)) p \<longleftrightarrow> p = q \<or> bit (sched_queue_bitmap s) p"
  by (auto simp: set_queue_bit_def bit_simps)

lemma bit_clear_queue_bit:
  "p < 32 \<Longrightarrow> bit (sched_queue_bitmap (clear_queue_bit q s)) p \<longleftrightarrow> p \<noteq> q \<and> bit (sched_queue_bitmap s) p"
  by (auto simp: clear_queue_bit_def bit_simps)

lemma queue_bit_simps [simp]:
  "threads (set_queue_bit q s) = threads s" "threads (clear_queue_bit q s) = threads s"
  "sched_queue (set_queue_bit q s) = sched_queue s"
  "sched_queue (clear_queue_bit q s) = sched_queue s"
  "current_thread (set_queue_bit q s) = current_thread s"
  "current_thread (clear_queue_bit q s) = current_thread s"
  by (simp_all add: set_queue_bit_def clear_queue_bit_def)

section \<open>The run queues\<close>

text \<open>
  \<open>queues_rep R s\<close>: the threads of \<open>R\<close> whose policy uses the run queues, and no others,
  are queued, each once and on the queue of its priority. Between two operations \<open>R\<close> is
  the set of runnable threads.
\<close>

definition queued_policy :: "sched_policy \<Rightarrow> bool" where
  "queued_policy p = (p \<in> {SCHED_RR, SCHED_FIFO, SCHED_OTHER})"

definition prio_ok :: "thread \<Rightarrow> bool" where
  "prio_ok th \<longleftrightarrow>
     sched_policy th \<in> {SCHED_RR, SCHED_FIFO} \<and> 16 \<le> priority th \<and> priority th < 32
     \<or> sched_policy th = SCHED_OTHER \<and> priority th < 16 \<and> desired_priority th < 16
     \<or> sched_policy th = SCHED_IDLE"

definition queues_rep :: "tid set \<Rightarrow> kstate \<Rightarrow> bool" where
  "queues_rep R s \<longleftrightarrow>
     (\<forall>q. distinct (sched_queue s q)) \<and>
     (\<forall>q t. t \<in> set (sched_queue s q) \<longleftrightarrow>
        t \<in> R \<and> queued_policy (sched_policy (threads s t)) \<and> priority (threads s t) = q) \<and>
     (\<forall>t \<in> R. prio_ok (threads s t))"

definition bitmap_ok :: "kstate \<Rightarrow> bool" where
  "bitmap_ok s \<longleftrightarrow> (\<forall>q < 32. bit (sched_queue_bitmap s) q \<longleftrightarrow> sched_queue s q \<noteq> [])"

lemma prio_ok_bound: "prio_ok th \<Longrightarrow> queued_policy (sched_policy th) \<Longrightarrow> priority th < 32"
  by (auto simp: prio_ok_def queued_policy_def)

lemma queues_rep_queued:
  "queues_rep R s \<Longrightarrow> t \<in> set (sched_queue s q) \<Longrightarrow>
     t \<in> R \<and> queued_policy (sched_policy (threads s t)) \<and> priority (threads s t) = q \<and> q < 32"
  by (auto simp: queues_rep_def dest: prio_ok_bound)

lemma queues_rep_distinct: "queues_rep R s \<Longrightarrow> distinct (sched_queue s q)"
  by (simp add: queues_rep_def)

lemma queues_rep_cong:
  assumes "queues_rep R s" and "sched_queue s' = sched_queue s"
    and "\<And>t. sched_policy (threads s' t) = sched_policy (threads s t)
           \<and> priority (threads s' t) = priority (threads s t)
           \<and> desired_priority (threads s' t) = desired_priority (threads s t)"
  shows "queues_rep R s'"
proof -
  from assms(3) have "prio_ok (threads s' t) = prio_ok (threads s t)" for t
    by (simp add: prio_ok_def)
  with assms show ?thesis by (simp add: queues_rep_def)
qed

lemma bitmap_ok_cong:
  "bitmap_ok s \<Longrightarrow> sched_queue s' = sched_queue s \<Longrightarrow>
     sched_queue_bitmap s' = sched_queue_bitmap s \<Longrightarrow> bitmap_ok s'"
  by (simp add: bitmap_ok_def)

text \<open>What a scheduler operation on thread \<open>t\<close> leaves alone.\<close>

definition sched_frame :: "kstate \<Rightarrow> kstate \<Rightarrow> bool" where
  "sched_frame s s' \<longleftrightarrow>
     s' = s\<lparr>threads := threads s', sched_queue := sched_queue s',
            sched_queue_bitmap := sched_queue_bitmap s', current_thread := current_thread s',
            current_process := current_process s'\<rparr>"

text \<open>The fields of a thread that no scheduler operation writes.\<close>

definition thread_keeps :: "thread \<Rightarrow> thread \<Rightarrow> bool" where
  "thread_keeps th th' \<longleftrightarrow>
     th' = th\<lparr>t_state := t_state th', priority := priority th', quanta_used := quanta_used th',
        usage_usec := usage_usec th', last_resched_time_usec := last_resched_time_usec th'\<rparr>"

definition threads_keep :: "kstate \<Rightarrow> kstate \<Rightarrow> bool" where
  "threads_keep s s' \<longleftrightarrow> (\<forall>t. thread_keeps (threads s t) (threads s' t))"

lemma thread_keeps_refl [simp]: "thread_keeps th th"
  by (simp add: thread_keeps_def)

lemma thread_keeps_trans: "thread_keeps a b \<Longrightarrow> thread_keeps b c \<Longrightarrow> thread_keeps a c"
  by (cases a; cases b; cases c) (simp add: thread_keeps_def)

lemma thread_keepsD:
  assumes "thread_keeps a b"
  shows "sched_policy b = sched_policy a" "desired_priority b = desired_priority a"
    "blocking_rendez b = blocking_rendez a" "intr_flags b = intr_flags a"
    "pending_events b = pending_events a" "event_mask b = event_mask a"
    "t_process b = t_process a" "creation_usec b = creation_usec a"
  using assms by (cases a; cases b; simp add: thread_keeps_def)+

lemma thread_keeps_upd [simp]:
  "thread_keeps a (b\<lparr>t_state := x1\<rparr>) = thread_keeps a b"
  "thread_keeps a (b\<lparr>priority := x2\<rparr>) = thread_keeps a b"
  "thread_keeps a (b\<lparr>quanta_used := x3\<rparr>) = thread_keeps a b"
  "thread_keeps a (b\<lparr>usage_usec := x4\<rparr>) = thread_keeps a b"
  "thread_keeps a (b\<lparr>last_resched_time_usec := x5\<rparr>) = thread_keeps a b"
  by (cases a; cases b; auto simp: thread_keeps_def)+

lemma threads_keep_refl [simp]: "threads_keep s s"
  by (simp add: threads_keep_def)

lemma threads_keep_trans: "threads_keep s s1 \<Longrightarrow> threads_keep s1 s2 \<Longrightarrow> threads_keep s s2"
  unfolding threads_keep_def by (blast intro: thread_keeps_trans)

lemmas threads_keepD = thread_keepsD [OF threads_keep_def [THEN iffD1, rule_format]]

lemma sched_frame_refl [simp]: "sched_frame s s"
  by (simp add: sched_frame_def)

lemma sched_frame_trans: "sched_frame s s1 \<Longrightarrow> sched_frame s1 s2 \<Longrightarrow> sched_frame s s2"
  by (cases s; cases s1; cases s2) (simp add: sched_frame_def)

lemma sched_frameD:
  assumes "sched_frame s s'"
  shows "idle_thread s' = idle_thread s" "bkl_locked s' = bkl_locked s"
    "bkl_owner s' = bkl_owner s" "bkl_blocked_list s' = bkl_blocked_list s"
    "blocked_list s' = blocked_list s" "timers s' = timers s"
    "timing_wheel s' = timing_wheel s" "hardclock_time s' = hardclock_time s"
    "softclock_time s' = softclock_time s" "monotonic_usec s' = monotonic_usec s"
  using assms by (cases s; cases s'; simp add: sched_frame_def)+

lemma sched_frame_upd [simp]:
  "sched_frame s (upd_thread t f s') \<longleftrightarrow> sched_frame s s'"
  "sched_frame s (upd_queue q g s') \<longleftrightarrow> sched_frame s s'"
  "sched_frame s (set_queue_bit q s') \<longleftrightarrow> sched_frame s s'"
  "sched_frame s (clear_queue_bit q s') \<longleftrightarrow> sched_frame s s'"
  by (cases s; cases s';
      auto simp: sched_frame_def upd_thread_def upd_queue_def set_queue_bit_def
        clear_queue_bit_def)+

section \<open>SchedReady and SchedUnready\<close>

lemma SchedReady_ok:
  assumes rep: "queues_rep R s" and new: "t \<notin> R" and prio: "prio_ok (threads s t)"
  shows "\<exists>s'. SchedReady t s = Some s' \<and> queues_rep (insert t R) s' \<and> sched_frame s s'
     \<and> threads s' = (threads s)(t := (threads s t)\<lparr>quanta_used := 0\<rparr>)
     \<and> current_thread s' = current_thread s \<and> (bitmap_ok s \<longrightarrow> bitmap_ok s')
     \<and> (\<forall>q c. hd_opt (sched_queue s q) = Some c \<longrightarrow> hd_opt (sched_queue s' q) = Some c)"
proof (cases "sched_policy (threads s t) = SCHED_IDLE")
  case True
  with assms have "queues_rep (insert t R) (upd_thread t (\<lambda>th. th\<lparr>quanta_used := 0\<rparr>) s)"
    by (auto simp: queues_rep_def queued_policy_def prio_ok_def)
  with True show ?thesis
    by (auto simp: SchedReady_def intro: bitmap_ok_cong)
next
  case False
  let ?p = "priority (threads s t)"
  let ?s' = "upd_thread t (\<lambda>th. th\<lparr>quanta_used := 0\<rparr>)
      (set_queue_bit ?p (upd_queue ?p (\<lambda>xs. xs @ [t]) s))"
  from False prio have pol: "queued_policy (sched_policy (threads s t))"
    by (auto simp: prio_ok_def queued_policy_def)
  with prio have p32: "?p < 32" by (simp add: prio_ok_bound)
  from pol have eq: "SchedReady t s = Some ?s'"
    by (auto simp: SchedReady_def queued_policy_def Let_def)
  from rep new have notin: "t \<notin> set (sched_queue s q)" for q
    by (auto simp: queues_rep_def)
  have "queues_rep (insert t R) ?s'"
    using rep new pol prio notin by (auto simp: queues_rep_def prio_ok_def)
  moreover have "bitmap_ok ?s'" if "bitmap_ok s"
    using that p32 by (auto simp: bitmap_ok_def bit_set_queue_bit)
  ultimately show ?thesis
    unfolding eq by auto
qed

lemma SchedUnready_ok:
  assumes rep: "queues_rep R s" and "in": "t \<in> R"
  shows "\<exists>s'. SchedUnready t s = Some s' \<and> queues_rep (R - {t}) s' \<and> sched_frame s s'
     \<and> threads_keep s s' \<and> (\<forall>u. t_state (threads s' u) = t_state (threads s u))
     \<and> prio_ok (threads s' t) \<and> (\<forall>u. u \<noteq> t \<longrightarrow> threads s' u = threads s u)
     \<and> (sched_policy (threads s t) \<noteq> SCHED_IDLE \<longrightarrow> quanta_used (threads s' t) = 0)
     \<and> current_thread s' = current_thread s \<and> (bitmap_ok s \<longrightarrow> bitmap_ok s')"
proof (cases "sched_policy (threads s t) = SCHED_IDLE")
  case True
  then have "SchedUnready t s = Some s" by (simp add: SchedUnready_def)
  moreover from rep True have "queues_rep (R - {t}) s"
    by (auto simp: queues_rep_def queued_policy_def)
  moreover from True have "prio_ok (threads s t)" by (simp add: prio_ok_def)
  ultimately show ?thesis using True by simp
next
  case False
  let ?p = "priority (threads s t)"
  from rep "in" have prio: "prio_ok (threads s t)" by (simp add: queues_rep_def)
  with False have pol: "queued_policy (sched_policy (threads s t))"
    by (auto simp: prio_ok_def queued_policy_def)
  let ?d = "if sched_policy (threads s t) = SCHED_OTHER then desired_priority (threads s t) else ?p"
  let ?s' = "upd_thread t (\<lambda>th. th\<lparr>priority := ?d, quanta_used := 0\<rparr>) (sched_unlink t ?p s)"
  have thr [simp]: "threads (sched_unlink t ?p s) = threads s"
    "current_thread (sched_unlink t ?p s) = current_thread s"
    "sched_queue (sched_unlink t ?p s) = (sched_queue s)(?p := remove1 t (sched_queue s ?p))"
    "sched_frame s (sched_unlink t ?p s)"
    by (simp_all add: sched_unlink_def Let_def)
  have eq: "SchedUnready t s = Some ?s'"
    using pol by (auto simp: SchedUnready_def queued_policy_def upd_thread_def Let_def)
  from rep have in_q: "u \<in> set (sched_queue s q) \<Longrightarrow> u \<in> R \<and> priority (threads s u) = q" for u q
    by (auto simp: queues_rep_def)
  have "queues_rep (R - {t}) ?s'"
    using rep pol in_q by (auto simp: queues_rep_def)
  moreover have "bitmap_ok ?s'" if "bitmap_ok s"
    using that by (auto simp: bitmap_ok_def sched_unlink_def Let_def bit_clear_queue_bit)
  moreover have "prio_ok (threads ?s' t)"
    using prio pol by (auto simp: prio_ok_def)
  ultimately show ?thesis
    unfolding eq by (auto simp: threads_keep_def)
qed

section \<open>Reschedule\<close>

text \<open>
  What holds when \<open>Reschedule\<close> is called: the running thread, when it is queued, is at the
  head of its queue; when it has just been taken off, its quanta were reset; and the idle
  thread is never queued.
\<close>

definition resched_pre :: "tid set \<Rightarrow> kstate \<Rightarrow> bool" where
  "resched_pre R s \<longleftrightarrow>
     (\<forall>c. current_thread s = Some c \<longrightarrow>
        prio_ok (threads s c)
        \<and> (sched_policy (threads s c) = SCHED_OTHER
           \<longrightarrow> quanta_used (threads s c) + 1 = SCHED_QUANTA_JIFFIES
           \<longrightarrow> c \<in> R \<and> hd_opt (sched_queue s (priority (threads s c))) = Some c))
     \<and> idle_thread s \<noteq> None"

text \<open>
  The running thread is about to be demoted: the one case in which \<open>Reschedule\<close> moves a
  thread between queues.
\<close>

definition demotes :: "kstate \<Rightarrow> bool" where
  "demotes s \<longleftrightarrow> (\<exists>c. current_thread s = Some c \<and> sched_policy (threads s c) = SCHED_OTHER
     \<and> quanta_used (threads s c) + 1 = SCHED_QUANTA_JIFFIES \<and> priority (threads s c) > 1)"

lemma queues_rep_demote:
  assumes rep: "queues_rep R s" and cR: "c \<in> R"
    and q: "sched_queue s (priority (threads s c)) = c # rest"
    and prio: "prio_ok (threads s c)" and pol: "sched_policy (threads s c) = SCHED_OTHER"
    and p: "priority (threads s c) > 1"
  shows "queues_rep R
     (upd_thread c (\<lambda>th. th\<lparr>quanta_used := 0\<rparr>)
       (upd_queue (priority (threads s c) - 1) (\<lambda>xs. xs @ [c])
         (upd_thread c (\<lambda>th. th\<lparr>priority := priority (threads s c) - 1\<rparr>)
           (upd_queue (priority (threads s c)) tl
             (upd_thread c (\<lambda>th. th\<lparr>quanta_used := quanta_used th + 1\<rparr>) s)))))"
proof -
  let ?p = "priority (threads s c)"
  from rep have mem: "t \<in> set (sched_queue s r) \<longleftrightarrow>
      t \<in> R \<and> queued_policy (sched_policy (threads s t)) \<and> priority (threads s t) = r" for t r
    by (simp add: queues_rep_def)
  from p have ne: "?p - 1 \<noteq> ?p" by simp
  have "distinct (c # rest)" using rep q by (metis queues_rep_distinct)
  then have rest: "c \<notin> set rest" "distinct rest" by auto
  have mem_rest: "t \<in> set rest \<longleftrightarrow> t \<noteq> c \<and> t \<in> set (sched_queue s ?p)" for t
    using rest by (auto simp: q)
  have notin: "c \<notin> set (sched_queue s (?p - 1))" using mem ne by simp
  let ?s' = "upd_thread c (\<lambda>th. th\<lparr>quanta_used := 0\<rparr>)
       (upd_queue (?p - 1) (\<lambda>xs. xs @ [c])
         (upd_thread c (\<lambda>th. th\<lparr>priority := ?p - 1\<rparr>)
           (upd_queue ?p tl
             (upd_thread c (\<lambda>th. th\<lparr>quanta_used := quanta_used th + 1\<rparr>) s))))"
  have queue: "sched_queue ?s' r =
      (if r = ?p - 1 then sched_queue s (?p - 1) @ [c] else if r = ?p then rest
       else sched_queue s r)" for r
    using ne by (simp add: q)
  have "distinct (sched_queue ?s' r)" for r
    unfolding queue using rest notin rep by (simp add: queues_rep_def)
  moreover have "t \<in> set (sched_queue ?s' r) \<longleftrightarrow>
      t \<in> R \<and> queued_policy (sched_policy (threads ?s' t)) \<and> priority (threads ?s' t) = r" for t r
  proof (cases "t = c")
    case True
    have "t \<in> set (sched_queue ?s' r) \<longleftrightarrow> r = ?p - 1"
      unfolding queue using rest mem ne True by auto
    then show ?thesis using True cR pol by (auto simp: queued_policy_def)
  next
    case False
    then have "t \<in> set (sched_queue ?s' r) \<longleftrightarrow> t \<in> set (sched_queue s r)"
      unfolding queue using mem_rest by auto
    then show ?thesis using False mem by simp
  qed
  moreover have "prio_ok (threads ?s' t)" if "t \<in> R" for t
    using rep that prio pol p by (auto simp: queues_rep_def prio_ok_def)
  ultimately show ?thesis unfolding queues_rep_def by blast
qed

lemma prio_ok_quanta [simp]: "prio_ok (th\<lparr>quanta_used := x\<rparr>) = prio_ok th"
  by (simp add: prio_ok_def)

lemma resched_charge_ok:
  assumes rep: "queues_rep R s" and pre: "resched_pre R s"
  shows "\<exists>s'. resched_charge s = Some s' \<and> queues_rep R s' \<and> sched_frame s s'
     \<and> current_thread s' = current_thread s \<and> sched_queue_bitmap s' = sched_queue_bitmap s
     \<and> threads_keep s s' \<and> (\<forall>t. t_state (threads s' t) = t_state (threads s t))
     \<and> (\<forall>t. prio_ok (threads s t) \<longrightarrow> prio_ok (threads s' t))
     \<and> (\<not> demotes s \<longrightarrow> (\<forall>q. set (sched_queue s' q) = set (sched_queue s q))
          \<and> (\<forall>t. priority (threads s' t) = priority (threads s t)))"
proof (cases "current_thread s")
  case None
  then show ?thesis using rep by (simp add: resched_charge_def)
next
  case (Some c)
  let ?p = "priority (threads s c)"
  let ?s1 = "upd_thread c (\<lambda>th. th\<lparr>quanta_used := quanta_used th + 1\<rparr>) s"
  let ?s0 = "upd_thread c (\<lambda>th. th\<lparr>quanta_used := 0\<rparr>)"
  let ?rot = "?s0 (upd_queue ?p rotate1 ?s1)"
  have rep1: "queues_rep R ?s1" by (rule queues_rep_cong [OF rep]) auto
  have rep_rot: "queues_rep R ?rot"
    using rep by (auto simp: queues_rep_def prio_ok_def)
  from pre Some have prio: "prio_ok (threads s c)" by (simp add: resched_pre_def)
  show ?thesis
  proof (cases "sched_policy (threads s c)")
    case SCHED_RR
    with prio have "16 \<le> ?p" "?p < 32" by (auto simp: prio_ok_def)
    with SCHED_RR Some have "resched_charge s = Some (if sched_queue s ?p \<noteq> [] then ?rot else ?s1)"
      by (simp add: resched_charge_def Let_def)
    with rep1 rep_rot Some show ?thesis
      by (auto simp: threads_keep_def)
  next
    case SCHED_OTHER
    show ?thesis
    proof (cases "quanta_used (threads s c) + 1 = SCHED_QUANTA_JIFFIES")
      case False
      with SCHED_OTHER Some have "resched_charge s = Some ?s1"
        by (simp add: resched_charge_def Let_def)
      with rep1 Some show ?thesis by (auto simp: threads_keep_def)
    next
      case True
      with pre Some SCHED_OTHER obtain rest where cR: "c \<in> R" and q: "sched_queue s ?p = c # rest"
        by (auto simp: resched_pre_def hd_opt_Some_iff)
      show ?thesis
      proof (cases "?p > 1")
        case False
        with True q SCHED_OTHER Some have "resched_charge s = Some ?rot"
          by (simp add: resched_charge_def Let_def)
        with rep_rot Some show ?thesis by (auto simp: threads_keep_def)
      next
        case dem: True
        let ?s' = "?s0 (upd_queue (?p - 1) (\<lambda>xs. xs @ [c])
            (upd_thread c (\<lambda>th. th\<lparr>priority := ?p - 1\<rparr>) (upd_queue ?p tl ?s1)))"
        from True q SCHED_OTHER Some dem have eq: "resched_charge s = Some ?s'"
          by (simp add: resched_charge_def Let_def)
        have "queues_rep R ?s'"
          using rep cR q prio SCHED_OTHER dem by (rule queues_rep_demote)
        moreover have "demotes s"
          using Some SCHED_OTHER True dem by (auto simp: demotes_def)
        ultimately show ?thesis using eq SCHED_OTHER prio by (auto simp: threads_keep_def prio_ok_def)
      qed
    qed
  next
    case SCHED_FIFO
    with Some rep1 show ?thesis by (auto simp: resched_charge_def Let_def threads_keep_def)
  next
    case SCHED_IDLE
    with Some rep1 show ?thesis by (auto simp: resched_charge_def Let_def threads_keep_def)
  next
    case (SCHED_UNKNOWN x)
    with prio show ?thesis by (simp add: prio_ok_def)
  qed
qed


lemma resched_next_cases:
  assumes "queues_rep R s" and "idle_thread s \<noteq> None"
  shows "(\<exists>n. resched_next s = Some n \<and> n \<in> R
            \<and> hd_opt (sched_queue s (priority (threads s n))) = Some n)
     \<or> resched_next s = idle_thread s"
proof (cases "highest_queue (sched_queue_bitmap s) 32")
  case None
  then show ?thesis by (simp add: resched_next_def)
next
  case (Some q)
  show ?thesis
  proof (cases "sched_queue s q")
    case Nil
    with Some show ?thesis by (simp add: resched_next_def)
  next
    case (Cons n rest)
    then have "n \<in> R \<and> priority (threads s n) = q"
      using queues_rep_queued [OF assms(1), of n q] by simp
    with Some Cons show ?thesis by (simp add: resched_next_def)
  qed
qed

text \<open>
  With a correct bitmap the next thread is the head of the non-empty queue of highest
  priority, and the idle thread only when every queue is empty.
\<close>

lemma resched_next_highest:
  assumes rep: "queues_rep R s" and bm: "bitmap_ok s"
  shows "case resched_next s of
      Some n \<Rightarrow> (if \<forall>q. sched_queue s q = [] then idle_thread s = Some n
                 else n \<in> R \<and> queued_policy (sched_policy (threads s n))
                      \<and> hd_opt (sched_queue s (priority (threads s n))) = Some n
                      \<and> (\<forall>t \<in> R. queued_policy (sched_policy (threads s t)) \<longrightarrow>
                            priority (threads s t) \<le> priority (threads s n)))
    | None \<Rightarrow> idle_thread s = None \<and> (\<forall>q. sched_queue s q = [])"
proof (cases "highest_queue (sched_queue_bitmap s) 32")
  case None
  then have "\<forall>q < 32. sched_queue s q = []"
    using bm by (simp add: highest_queue_None bitmap_ok_def)
  moreover have "sched_queue s q = []" if "q \<ge> 32" for q
    using queues_rep_queued [OF rep, of "hd (sched_queue s q)" q] that
    by (cases "sched_queue s q") auto
  ultimately have "\<forall>q. sched_queue s q = []" by (meson not_le)
  with None show ?thesis by (simp add: resched_next_def split: option.split)
next
  case (Some q)
  then have q: "q < 32" "sched_queue s q \<noteq> []"
    and above: "\<And>p. q < p \<Longrightarrow> p < 32 \<Longrightarrow> sched_queue s p = []"
    using bm by (auto simp: highest_queue_Some bitmap_ok_def)
  then obtain n rest where n: "sched_queue s q = n # rest" by (cases "sched_queue s q") auto
  with Some have next_eq: "resched_next s = Some n" by (simp add: resched_next_def)
  from n have nR: "n \<in> R" "queued_policy (sched_policy (threads s n))" "priority (threads s n) = q"
    using queues_rep_queued [OF rep, of n q] by auto
  have "priority (threads s t) \<le> q"
    if "t \<in> R" "queued_policy (sched_policy (threads s t))" for t
  proof -
    from that rep have "t \<in> set (sched_queue s (priority (threads s t)))"
      by (simp add: queues_rep_def)
    moreover from that rep have "priority (threads s t) < 32"
      by (simp add: queues_rep_def prio_ok_bound)
    ultimately show ?thesis using above [of "priority (threads s t)"] by fastforce
  qed
  with next_eq nR n q show ?thesis by auto
qed

lemma resched_switch_ok:
  assumes "next = Some n"
  shows "\<exists>s'. resched_switch next s = Some s' \<and> current_thread s' = Some n \<and> sched_frame s s'
     \<and> threads_keep s s' \<and> sched_queue s' = sched_queue s
     \<and> sched_queue_bitmap s' = sched_queue_bitmap s
     \<and> (\<forall>t. t_state (threads s' t) = (if t = n then THREAD_STATE_RUNNING else t_state (threads s t))
          \<and> priority (threads s' t) = priority (threads s t)
          \<and> quanta_used (threads s' t) = quanta_used (threads s t))"
proof -
  have frame: "sched_frame s (x\<lparr>current_thread := a, current_process := b\<rparr>)"
    if "sched_frame s x" for x a b
    using that by (cases s; cases x) (simp add: sched_frame_def)
  show ?thesis
    using assms by (cases "current_thread s"; simp add: resched_switch_def Let_def)
      (auto simp: threads_keep_def intro!: frame)
qed

text \<open>\<open>Reschedule\<close> does not panic, keeps the queues, and runs a queued thread or idle.\<close>

lemma Reschedule_ok:
  assumes rep: "queues_rep R s" and pre: "resched_pre R s"
  shows "\<exists>s' n. Reschedule s = Some s' \<and> current_thread s' = Some n
     \<and> queues_rep R s' \<and> sched_frame s s' \<and> threads_keep s s'
     \<and> (\<forall>t. t_state (threads s' t) = (if t = n then THREAD_STATE_RUNNING else t_state (threads s t)))
     \<and> (n \<in> R \<and> hd_opt (sched_queue s' (priority (threads s' n))) = Some n
        \<or> idle_thread s = Some n)
     \<and> (\<forall>t. prio_ok (threads s t) \<longrightarrow> prio_ok (threads s' t))
     \<and> (bitmap_ok s \<longrightarrow> \<not> demotes s \<longrightarrow> bitmap_ok s')"
proof -
  from resched_charge_ok [OF rep pre] obtain s1 where
    s1: "resched_charge s = Some s1" "queues_rep R s1" "sched_frame s s1"
      "sched_queue_bitmap s1 = sched_queue_bitmap s" "threads_keep s s1"
      "\<And>t. t_state (threads s1 t) = t_state (threads s t)"
    and prio: "\<And>t. prio_ok (threads s t) \<Longrightarrow> prio_ok (threads s1 t)"
    and nodem: "\<not> demotes s \<longrightarrow> (\<forall>q. set (sched_queue s1 q) = set (sched_queue s q))" by blast
  from pre s1(3) have idle: "idle_thread s1 \<noteq> None"
    by (simp add: resched_pre_def sched_frameD)
  from resched_next_cases [OF s1(2) idle] idle obtain n where
    n: "resched_next s1 = Some n"
      "n \<in> R \<and> hd_opt (sched_queue s1 (priority (threads s1 n))) = Some n \<or> idle_thread s1 = Some n"
    by (cases "idle_thread s1") auto
  from resched_switch_ok [OF n(1), of s1] obtain s2 where
    s2: "resched_switch (resched_next s1) s1 = Some s2" "current_thread s2 = Some n"
      "sched_frame s1 s2" "threads_keep s1 s2" "sched_queue s2 = sched_queue s1"
      "sched_queue_bitmap s2 = sched_queue_bitmap s1"
      "\<And>t. t_state (threads s2 t) = (if t = n then THREAD_STATE_RUNNING else t_state (threads s1 t))"
      "\<And>t. priority (threads s2 t) = priority (threads s1 t)" by blast
  have "queues_rep R s2"
    by (rule queues_rep_cong [OF s1(2) s2(5)]) (simp add: s2(8) threads_keepD [OF s2(4)])
  moreover have "prio_ok (threads s2 t)" if "prio_ok (threads s t)" for t
    using prio [OF that] by (simp add: prio_ok_def s2(8) threads_keepD [OF s2(4)])
  moreover have "bitmap_ok s2" if "bitmap_ok s" "\<not> demotes s"
    using that nodem s1(4) s2(5,6) by (simp add: bitmap_ok_def) (metis set_empty)
  ultimately show ?thesis
    using s1 s2 n sched_frame_trans [OF s1(3) s2(3)] threads_keep_trans [OF s1(5) s2(4)]
    by (auto simp: Reschedule_def sched_frameD [OF s1(3)])
qed


section \<open>Properties\<close>


text \<open>Two real-time threads, the first of them running, and the idle thread.\<close>

definition two_rr :: kstate where
  "two_rr = init_tables\<lparr>
     threads := (threads init_tables)(
       0 := free_thread\<lparr>t_state := THREAD_STATE_RUNNING, sched_policy := SCHED_RR, priority := 16\<rparr>,
       1 := free_thread\<lparr>t_state := THREAD_STATE_READY, sched_policy := SCHED_RR, priority := 20\<rparr>,
       2 := free_thread\<lparr>t_state := THREAD_STATE_READY, sched_policy := SCHED_IDLE\<rparr>),
     sched_queue := (\<lambda>q. if q = 16 then [0] else if q = 20 then [1] else []),
     sched_queue_bitmap := 0x110000, current_thread := Some 0, idle_thread := Some 2\<rparr>"

lemma bits_0x110000: "bit (0x110000 :: u32) q \<longleftrightarrow> q = 16 \<or> q = 20"
proof -
  have "(0x110000 :: u32) = set_bit 16 (set_bit 20 0)" by (simp add: set_bit_eq_or)
  then show ?thesis unfolding bit_set_bit_iff by (simp only: bit_set_bit_iff) auto
qed

lemma two_rr_queues: "sched_queue_bitmap two_rr = 0x110000"
  "sched_queue two_rr q = (if q = 16 then [0] else if q = 20 then [1] else [])"
  by (simp_all add: two_rr_def)

lemma two_rr_bitmap: "bitmap_ok two_rr"
  unfolding bitmap_ok_def two_rr_queues bits_0x110000 by simp

lemma two_rr_ok:
  "queues_rep {0, 1} two_rr" "resched_pre {0, 1} two_rr" "bitmap_ok two_rr" "\<not> demotes two_rr"
  using two_rr_bitmap by (auto simp: two_rr_def init_tables_def free_thread_def queues_rep_def queued_policy_def
      prio_ok_def resched_pre_def hd_opt_def demotes_def split: if_splits)


definition one_other :: kstate where
  "one_other = init_tables\<lparr>
     threads := (threads init_tables)(
       0 := free_thread\<lparr>t_state := THREAD_STATE_RUNNING, sched_policy := SCHED_OTHER, quanta_used := 4,
              priority := 5, desired_priority := 5\<rparr>,
       1 := free_thread\<lparr>t_state := THREAD_STATE_READY, sched_policy := SCHED_IDLE\<rparr>),
     sched_queue := (\<lambda>q. if q = 5 then [0] else []),
     sched_queue_bitmap := 0x20, current_thread := Some 0, idle_thread := Some 1\<rparr>"

lemma bits_0x20: "bit (0x20 :: u32) q \<longleftrightarrow> q = 5"
proof -
  have "(0x20 :: u32) = set_bit 5 0" by (simp add: set_bit_eq_or)
  then show ?thesis unfolding bit_set_bit_iff by (simp only: bit_set_bit_iff) auto
qed

lemma one_other_queues: "sched_queue_bitmap one_other = 0x20"
  "sched_queue one_other q = (if q = 5 then [0] else [])"
  by (simp_all add: one_other_def)

lemma one_other_bitmap: "bitmap_ok one_other"
  unfolding bitmap_ok_def one_other_queues bits_0x20 by simp

text \<open>
  Demotion loses a ready thread. When the running thread of policy \<open>SCHED_OTHER\<close> has
  used its quanta, \<open>Reschedule\<close> moves it to the next lower queue without updating
  \<open>sched_queue_bitmap\<close>: from a consistent state with one such thread and an empty machine it
  selects the idle thread although the thread is ready and queued, and the bitmap no longer
  describes the queues.
\<close>

theorem Reschedule_demotion_runs_idle:
  "queues_rep {0} one_other \<and> resched_pre {0} one_other \<and> bitmap_ok one_other
   \<and> (\<exists>s'. Reschedule one_other = Some s' \<and> current_thread s' = idle_thread one_other
        \<and> sched_queue s' 4 = [0] \<and> \<not> bitmap_ok s')"
proof -
  have hq: "highest_queue 0x20 32 = Some 5"
    unfolding highest_queue_Some bits_0x20 by simp
  have ok: "queues_rep {0} one_other" "resched_pre {0} one_other" "bitmap_ok one_other"
    using one_other_bitmap
    by (auto simp: one_other_def init_tables_def free_thread_def queues_rep_def queued_policy_def
      prio_ok_def resched_pre_def hd_opt_def split: if_splits)
  have "\<exists>s'. Reschedule one_other = Some s' \<and> current_thread s' = Some 1
      \<and> sched_queue s' = (\<lambda>q. if q = 4 then [0] else []) \<and> sched_queue_bitmap s' = 0x20"
    by (simp add: Reschedule_def resched_charge_def one_other_def init_tables_def free_thread_def
        SCHED_QUANTA_JIFFIES_def resched_next_def hq resched_switch_def Let_def hd_opt_def)
      (auto simp: fun_eq_iff)
  then obtain s' where s': "Reschedule one_other = Some s'" "current_thread s' = Some 1"
      "sched_queue s' = (\<lambda>q. if q = 4 then [0] else [])" "sched_queue_bitmap s' = 0x20" by blast
  have "\<not> bitmap_ok s'"
    unfolding bitmap_ok_def s' bits_0x20 by (auto intro: exI [of _ "4 :: nat"])
  with s' ok show ?thesis by (auto simp: one_other_def)
qed

end
