(* ===== verification/Sleep.thy ===== *)
theory Sleep
  imports Sched
begin

text \<open>
  The big kernel lock and the condition variables of \<open>proc/sleep_wakeup_bkl.c\<close>, and the
  interrupt wrapper of \<open>boards/raspberry_pi_4/interrupt.c\<close> that takes the lock. A
  function that puts its caller to sleep returns the state in which another thread runs; the
  statements after its call of \<open>Reschedule\<close> are a definition of their own
  (\<open>TaskSleep_return\<close>, \<open>TaskSleepInterruptible_return\<close>), evaluated when the sleeper runs
  again.
\<close>

section \<open>The big kernel lock\<close>

definition KernelLock :: "kstate \<Rightarrow> kstate option" where
  "KernelLock s =
     (if \<not> bkl_locked s then
        Some (s\<lparr>bkl_locked := True, bkl_owner := current_thread s\<rparr>)
      else
        (case current_thread s of
           None \<Rightarrow> None
         | Some c \<Rightarrow> do {
             s1 \<leftarrow> SchedUnready c (set_state c THREAD_STATE_BKL_BLOCKED
                    (s\<lparr>bkl_blocked_list := bkl_blocked_list s @ [c]\<rparr>));
             Reschedule s1 }))"

definition KernelUnlock :: "kstate \<Rightarrow> kstate option" where
  "KernelUnlock s =
     (if bkl_locked s then
        (case bkl_blocked_list s of
           t # ts \<Rightarrow> do {
             s1 \<leftarrow> SchedReady t (set_state t THREAD_STATE_READY
                    (s\<lparr>bkl_locked := True, bkl_owner := Some t, bkl_blocked_list := ts\<rparr>));
             Reschedule s1 }
         | [] \<Rightarrow> Some (s\<lparr>bkl_locked := False, bkl_owner := None\<rparr>))
      else None)"

section \<open>Sleeping\<close>

definition InitRendez :: "rendez \<Rightarrow> kstate \<Rightarrow> kstate" where
  "InitRendez r s = upd_blocked r (\<lambda>_. []) s"

definition TaskSleep :: "rendez \<Rightarrow> kstate \<Rightarrow> kstate option" where
  "TaskSleep r s =
     (case current_thread s of
        None \<Rightarrow> None
      | Some c \<Rightarrow> do {
          kassert (bkl_locked s);
          kassert (bkl_owner s = Some c);
          s1 \<leftarrow> bkl_handover s;
          s2 \<leftarrow> SchedUnready c
                 (upd_thread c (\<lambda>th. th\<lparr>t_state := THREAD_STATE_RENDEZ_BLOCKED,
                                      blocking_rendez := Some r\<rparr>)
                    (upd_blocked r (\<lambda>xs. xs @ [c]) s1));
          Reschedule s2 })"

definition TaskSleep_return :: "tid \<Rightarrow> kstate \<Rightarrow> unit option" where
  "TaskSleep_return c s = do {
     kassert (bkl_locked s);
     kassert (bkl_owner s = Some c) }"

definition INTRF_EVENT :: u32 where "INTRF_EVENT = 2"

definition JIFFIES_PER_SECOND :: int where "JIFFIES_PER_SECOND = 100"

definition NANOSECONDS_PER_JIFFY :: int where "NANOSECONDS_PER_JIFFY = 10000000"

text \<open>
  \<open>timing_wheel[expiration_time % JIFFIES_PER_SECOND]\<close>: a negative index is out of the
  array.
\<close>

definition wheel_index :: "int \<Rightarrow> nat option" where
  "wheel_index e =
     (let i = c_mod e JIFFIES_PER_SECOND in if i < 0 then None else Some (nat i))"

definition wheel_add :: "timer_id \<Rightarrow> kstate \<Rightarrow> kstate option" where
  "wheel_add tm s = do {
     i \<leftarrow> wheel_index (expiration_time (timers s tm));
     Some (s\<lparr>timing_wheel := (timing_wheel s)(i := timing_wheel s i @ [tm])\<rparr>) }"

definition wheel_remove :: "timer_id \<Rightarrow> kstate \<Rightarrow> kstate option" where
  "wheel_remove tm s = do {
     i \<leftarrow> wheel_index (expiration_time (timers s tm));
     Some (s\<lparr>timing_wheel := (timing_wheel s)(i := remove1 tm (timing_wheel s i))\<rparr>) }"

definition upd_timer :: "timer_id \<Rightarrow> (timer \<Rightarrow> timer) \<Rightarrow> kstate \<Rightarrow> kstate" where
  "upd_timer tm f s = s\<lparr>timers := (timers s)(tm := f (timers s tm))\<rparr>"

definition TaskCheckInterruptible :: "tid \<Rightarrow> u32 \<Rightarrow> kstate \<Rightarrow> unit result" where
  "TaskCheckInterruptible t flags s =
     (if flags AND INTRF_EVENT \<noteq> 0
         \<and> pending_events (threads s t) AND event_mask (threads s t) \<noteq> 0
      then Inl EINTR else Inr ())"

text \<open>A timeout is a pair of seconds and nanoseconds (\<open>struct timespec\<close>).\<close>

definition arm_sleep_timeout :: "tid \<Rightarrow> rendez \<Rightarrow> int \<times> int \<Rightarrow> kstate \<Rightarrow> kstate option" where
  "arm_sleep_timeout c r ts s =
     wheel_add (Sleep_timer c)
       (upd_timer (Sleep_timer c) (\<lambda>tm. tm\<lparr>tm_thread := Some c, tm_arg := Some r, armed := True,
          tm_callback := Some TaskTimedSleepCallback,
          expiration_time := hardclock_time s +
            (fst ts * JIFFIES_PER_SECOND + c_div (snd ts) NANOSECONDS_PER_JIFFY)\<rparr>) s)"

text \<open>The outcome of a call that may sleep: it returned, or another thread is running.\<close>

datatype 'a sleep_outcome = Returned 'a | Asleep

text \<open>The outcome of one pass of a loop that sleeps: the call returns, sleeps or goes round again.\<close>

datatype 'a pass = Return 'a | Sleep | Again

definition TaskSleepInterruptible ::
    "rendez \<Rightarrow> (int \<times> int) option \<Rightarrow> u32 \<Rightarrow> kstate
     \<Rightarrow> (unit result sleep_outcome \<times> kstate) option" where
  "TaskSleepInterruptible r ts flags s =
     (case current_thread s of
        None \<Rightarrow> None
      | Some c \<Rightarrow> do {
          kassert (bkl_locked s);
          kassert (bkl_owner s = Some c);
          if TaskCheckInterruptible c flags s \<noteq> Inr () then Some (Returned (Inl EINTR), s)
          else do {
            s1 \<leftarrow> bkl_handover s;
            s2 \<leftarrow> (case ts of None \<Rightarrow> Some s1 | Some t \<Rightarrow> arm_sleep_timeout c r t s1);
            s3 \<leftarrow> SchedUnready c
                   (upd_thread c (\<lambda>th. th\<lparr>t_state := THREAD_STATE_RENDEZ_BLOCKED,
                        intr_flags := flags, blocking_rendez := Some r\<rparr>)
                      (upd_blocked r (\<lambda>xs. xs @ [c]) s2));
            s4 \<leftarrow> Reschedule s3;
            Some (Asleep, s4) } })"

text \<open>
  After the sleeper \<open>c\<close> runs again: a timer still armed is taken off the wheel; one that
  fired means a timeout, unless an event is pending.
\<close>

definition TaskSleepInterruptible_return ::
    "tid \<Rightarrow> (int \<times> int) option \<Rightarrow> u32 \<Rightarrow> kstate \<Rightarrow> (unit result \<times> kstate) option" where
  "TaskSleepInterruptible_return c ts flags s =
     (let s1 = upd_thread c (\<lambda>th. th\<lparr>intr_flags := 0\<rparr>) s;
          sc = TaskCheckInterruptible c flags s1
      in case ts of
           None \<Rightarrow> Some (sc, s1)
         | Some _ \<Rightarrow>
             (if armed (timers s1 (Sleep_timer c)) then do {
                s2 \<leftarrow> wheel_remove (Sleep_timer c) s1;
                Some (sc, upd_timer (Sleep_timer c)
                  (\<lambda>tm. tm\<lparr>armed := False, tm_thread := None, tm_callback := None\<rparr>) s2) }
              else if sc = Inr () then Some (Inl ETIMEDOUT, s1)
              else Some (sc, s1)))"

section \<open>Waking\<close>

text \<open>
  Every wakeup moves the thread from the condition variable to the tail of the list of
  threads waiting for the big kernel lock.
\<close>

definition rendez_to_bkl :: "tid \<Rightarrow> kstate \<Rightarrow> kstate" where
  "rendez_to_bkl t s =
     upd_thread t (\<lambda>th. th\<lparr>blocking_rendez := None, t_state := THREAD_STATE_BKL_BLOCKED\<rparr>)
       (s\<lparr>bkl_blocked_list := bkl_blocked_list s @ [t]\<rparr>)"

definition do_TaskTimedSleepCallback :: "timer_id \<Rightarrow> kstate \<Rightarrow> kstate option" where
  "do_TaskTimedSleepCallback tm s =
     (case tm_thread (timers s tm) of
        None \<Rightarrow> Some s
      | Some t \<Rightarrow>
          if t_state (threads s t) = THREAD_STATE_RENDEZ_BLOCKED then do {
            kassert (blocking_rendez (threads s t) = tm_arg (timers s tm));
            r \<leftarrow> tm_arg (timers s tm);
            Some (rendez_to_bkl t (upd_blocked r (remove1 t) s)) }
          else Some s)"

definition TaskWakeup :: "rendez \<Rightarrow> kstate \<Rightarrow> kstate option" where
  "TaskWakeup r s =
     (case blocked_list s r of
        [] \<Rightarrow> Some s
      | t # _ \<Rightarrow> do {
          kassert (blocking_rendez (threads s t) = Some r);
          kassert (t_state (threads s t) = THREAD_STATE_RENDEZ_BLOCKED);
          Some (rendez_to_bkl t (upd_blocked r tl s)) })"

definition TaskWakeupSpecific :: "tid option \<Rightarrow> u32 \<Rightarrow> kstate \<Rightarrow> kstate option" where
  "TaskWakeupSpecific th_opt reason s =
     (case th_opt of
        None \<Rightarrow> Some s
      | Some t \<Rightarrow>
          if t_state (threads s t) = THREAD_STATE_RENDEZ_BLOCKED
             \<and> (intr_flags (threads s t) AND reason \<noteq> 0 \<or> reason = 0)
          then do {
            r \<leftarrow> blocking_rendez (threads s t);
            Some (rendez_to_bkl t (upd_blocked r (remove1 t) s)) }
          else Some s)"

text \<open>
  An empty \<open>r_old\<close> is a null dereference. A thread that is not the head of \<open>r_old\<close> would be linked into
  two lists at once, which destroys them; the model stops there.
\<close>

definition TaskRendezRequeue :: "tid \<Rightarrow> rendez \<Rightarrow> rendez \<Rightarrow> kstate \<Rightarrow> kstate option" where
  "TaskRendezRequeue t r_new r_old s =
     (case blocked_list s r_old of
        [] \<Rightarrow> None
      | u # _ \<Rightarrow>
          if u = t then
            Some (upd_thread t (\<lambda>th. th\<lparr>blocking_rendez := Some r_new\<rparr>)
                    (upd_blocked r_new (\<lambda>xs. xs @ [t]) (upd_blocked r_old tl s)))
          else None)"

function TaskWakeupAll :: "rendez \<Rightarrow> kstate \<Rightarrow> kstate option" where
  "TaskWakeupAll r s =
     (case blocked_list s r of
        [] \<Rightarrow> Some s
      | t # _ \<Rightarrow>
          if bkl_locked s then TaskWakeupAll r (rendez_to_bkl t (upd_blocked r tl s))
          else None)"
  by pat_completeness auto
termination
  by (relation "measure (\<lambda>(r, s). length (blocked_list s r))")
     (auto simp: rendez_to_bkl_def)

declare TaskWakeupAll.simps [simp del]

text \<open>
  An interrupt takes the lock when it arrives outside the kernel; \<open>top_half\<close> is the
  handler of the interrupt line.
\<close>

definition interrupt_handler :: "(kstate \<Rightarrow> kstate option) \<Rightarrow> kstate \<Rightarrow> kstate option" where
  "interrupt_handler top_half s =
     (if \<not> bkl_locked s then do {
        s1 \<leftarrow> KernelLock s;
        s2 \<leftarrow> top_half s1;
        KernelUnlock s2 }
      else top_half s)"

section \<open>The invariant of the kernel's threads\<close>

definition runnable :: "kstate \<Rightarrow> tid set" where
  "runnable s = {t. t_state (threads s t) \<in> {THREAD_STATE_READY, THREAD_STATE_RUNNING}}"

text \<open>A thread is on the blocked list its state says, once, and on no other.\<close>

definition lists_ok :: "kstate \<Rightarrow> bool" where
  "lists_ok s \<longleftrightarrow>
     distinct (bkl_blocked_list s)
     \<and> (\<forall>t. t \<in> set (bkl_blocked_list s) \<longleftrightarrow> t_state (threads s t) = THREAD_STATE_BKL_BLOCKED)
     \<and> (\<forall>r. distinct (blocked_list s r))
     \<and> (\<forall>r t. t \<in> set (blocked_list s r) \<longleftrightarrow>
          t_state (threads s t) = THREAD_STATE_RENDEZ_BLOCKED
          \<and> blocking_rendez (threads s t) = Some r)
     \<and> (\<forall>t. t_state (threads s t) = THREAD_STATE_RENDEZ_BLOCKED \<longrightarrow>
          blocking_rendez (threads s t) \<noteq> None)
     \<and> (\<forall>t. t_state (threads s t) \<in> {THREAD_STATE_BKL_BLOCKED, THREAD_STATE_RENDEZ_BLOCKED} \<longrightarrow>
          prio_ok (threads s t))"

text \<open>The big kernel lock: its owner can run, and nobody waits for a free lock.\<close>

definition lock_ok :: "kstate \<Rightarrow> bool" where
  "lock_ok s \<longleftrightarrow>
     (bkl_locked s \<longleftrightarrow> bkl_owner s \<noteq> None)
     \<and> (\<forall>t. bkl_owner s = Some t \<longrightarrow> t \<in> runnable s)
     \<and> (bkl_blocked_list s \<noteq> [] \<longrightarrow> bkl_locked s)"

definition idle_ok :: "kstate \<Rightarrow> bool" where
  "idle_ok s \<longleftrightarrow> (\<exists>i. idle_thread s = Some i \<and> sched_policy (threads s i) = SCHED_IDLE
     \<and> i \<in> runnable s)"

definition current_ok :: "kstate \<Rightarrow> bool" where
  "current_ok s \<longleftrightarrow> (\<exists>c. current_thread s = Some c \<and> c \<in> runnable s
     \<and> (queued_policy (sched_policy (threads s c)) \<longrightarrow>
          hd_opt (sched_queue s (priority (threads s c))) = Some c))"

definition kernel_wf :: "kstate \<Rightarrow> bool" where
  "kernel_wf s \<longleftrightarrow> queues_rep (runnable s) s \<and> lists_ok s \<and> lock_ok s \<and> idle_ok s"

definition kernel_inv :: "kstate \<Rightarrow> bool" where
  "kernel_inv s \<longleftrightarrow> kernel_wf s \<and> current_ok s"

lemmas kernel_defs = kernel_inv_def kernel_wf_def lists_ok_def lock_ok_def idle_ok_def current_ok_def

lemma kernel_inv_cong:
  assumes "threads s' = threads s" "sched_queue s' = sched_queue s" "blocked_list s' = blocked_list s"
    "bkl_locked s' = bkl_locked s" "bkl_owner s' = bkl_owner s" "bkl_blocked_list s' = bkl_blocked_list s"
    "idle_thread s' = idle_thread s" "current_thread s' = current_thread s"
  shows "kernel_inv s' = kernel_inv s" "runnable s' = runnable s"
  unfolding kernel_defs runnable_def queues_rep_def assms by (rule refl)+

lemma current_prio_ok: "kernel_inv s \<Longrightarrow> current_thread s = Some c \<Longrightarrow> prio_ok (threads s c)"
  by (auto simp: kernel_inv_def kernel_wf_def current_ok_def queues_rep_def)

lemma Reschedule_inv:
  assumes wf: "kernel_wf s" and pre: "resched_pre (runnable s) s"
  shows "\<exists>s'. Reschedule s = Some s' \<and> kernel_inv s' \<and> runnable s' = runnable s
     \<and> sched_frame s s' \<and> threads_keep s s'
     \<and> (\<forall>t. t \<notin> runnable s \<longrightarrow> t_state (threads s' t) = t_state (threads s t))
     \<and> (bitmap_ok s \<longrightarrow> \<not> demotes s \<longrightarrow> bitmap_ok s')"
proof -
  from wf have rep: "queues_rep (runnable s) s" by (simp add: kernel_wf_def)
  from Reschedule_ok [OF rep pre] obtain s' n where
    R: "Reschedule s = Some s'" "current_thread s' = Some n" "queues_rep (runnable s) s'"
      "sched_frame s s'" "threads_keep s s'"
    and st: "\<And>t. t_state (threads s' t) = (if t = n then THREAD_STATE_RUNNING else t_state (threads s t))"
    and n: "n \<in> runnable s \<and> hd_opt (sched_queue s' (priority (threads s' n))) = Some n
        \<or> idle_thread s = Some n"
    and prio: "\<And>t. prio_ok (threads s t) \<Longrightarrow> prio_ok (threads s' t)"
    and bm: "bitmap_ok s \<longrightarrow> \<not> demotes s \<longrightarrow> bitmap_ok s'" by blast
  note fr = sched_frameD [OF R(4)] and kp = threads_keepD [OF R(5)]
  from n wf have nr: "n \<in> runnable s"
    by (auto simp: kernel_wf_def idle_ok_def)
  then have run: "runnable s' = runnable s"
    by (auto simp: runnable_def st)
  have other: "t_state (threads s' t) = t_state (threads s t)" if "t \<notin> runnable s" for t
    using that nr by (auto simp: st)
  have blocked: "t_state (threads s' t) = b \<longleftrightarrow> t_state (threads s t) = b"
    if "b \<in> {THREAD_STATE_BKL_BLOCKED, THREAD_STATE_RENDEZ_BLOCKED}" for t b
    using that nr by (auto simp: st runnable_def)
  have "lists_ok s'"
    using wf prio by (auto simp: kernel_wf_def lists_ok_def fr kp blocked)
  moreover have "lock_ok s'"
    using wf unfolding kernel_wf_def lock_ok_def fr run by blast
  moreover have "idle_ok s'"
    using wf by (auto simp: kernel_wf_def idle_ok_def fr run kp)
  moreover have "current_ok s'"
    using R(2) n nr wf by (auto simp: current_ok_def run kernel_wf_def idle_ok_def kp queued_policy_def)
  ultimately show ?thesis
    using R run other bm by (simp add: kernel_inv_def kernel_wf_def)
qed

text \<open>
  What a lemma about the lock leaves alone: the frame of the operations of this file that
  touch neither the timers nor the clocks.
\<close>

definition lock_frame :: "kstate \<Rightarrow> kstate \<Rightarrow> bool" where
  "lock_frame s s' \<longleftrightarrow>
     idle_thread s' = idle_thread s \<and> timers s' = timers s \<and> timing_wheel s' = timing_wheel s
     \<and> hardclock_time s' = hardclock_time s \<and> softclock_time s' = softclock_time s"

lemma lock_frame_refl [simp]: "lock_frame s s"
  by (simp add: lock_frame_def)

lemma lock_frame_trans: "lock_frame s s1 \<Longrightarrow> lock_frame s1 s2 \<Longrightarrow> lock_frame s s2"
  by (simp add: lock_frame_def)

lemma sched_lock_frame: "sched_frame s s' \<Longrightarrow> lock_frame s s'"
  by (simp add: lock_frame_def sched_frameD)

lemma kernel_inv_owner:
  assumes "kernel_inv s"
  shows "bkl_locked s \<longleftrightarrow> bkl_owner s \<noteq> None" "bkl_owner s = Some t \<Longrightarrow> t \<in> runnable s"
    "bkl_blocked_list s \<noteq> [] \<Longrightarrow> bkl_owner s \<noteq> None"
  using assms by (auto simp: kernel_inv_def kernel_wf_def lock_ok_def)

lemma kernel_inv_lists:
  assumes "kernel_inv s"
  shows "t \<in> set (bkl_blocked_list s) \<longleftrightarrow> t_state (threads s t) = THREAD_STATE_BKL_BLOCKED"
    "t \<in> set (blocked_list s r) \<longleftrightarrow> t_state (threads s t) = THREAD_STATE_RENDEZ_BLOCKED
       \<and> blocking_rendez (threads s t) = Some r"
    "distinct (bkl_blocked_list s)" "distinct (blocked_list s r)"
    "t \<in> runnable s \<Longrightarrow> t \<notin> set (bkl_blocked_list s)"
    "t \<in> runnable s \<Longrightarrow> t \<notin> set (blocked_list s r)"
  using assms by (auto simp: kernel_inv_def kernel_wf_def lists_ok_def runnable_def)

text \<open>Handing over the lock: the longest-waiting thread owns it and can run.\<close>

lemma bkl_handover_ok:
  assumes inv: "kernel_inv s"
  shows "\<exists>s'. bkl_handover s = Some s' \<and> kernel_inv s'
     \<and> bkl_owner s' = hd_opt (bkl_blocked_list s) \<and> bkl_blocked_list s' = tl (bkl_blocked_list s)
     \<and> runnable s' = runnable s \<union> set_option (hd_opt (bkl_blocked_list s))
     \<and> current_thread s' = current_thread s \<and> blocked_list s' = blocked_list s
     \<and> threads_keep s s' \<and> lock_frame s s' \<and> (bitmap_ok s \<longrightarrow> bitmap_ok s')
     \<and> (\<forall>t. t \<in> runnable s \<longrightarrow> threads s' t = threads s t)"
proof (cases "bkl_blocked_list s")
  case Nil
  with inv show ?thesis
    by (auto simp: bkl_handover_def kernel_defs runnable_def queues_rep_def lock_frame_def bitmap_ok_def
        threads_keep_def)
next
  case (Cons t ts)
  let ?s1 = "(set_state t THREAD_STATE_READY (s\<lparr>bkl_blocked_list := ts\<rparr>))\<lparr>bkl_owner := Some t\<rparr>"
  from inv have wf: "kernel_wf s" "queues_rep (runnable s) s" "lists_ok s"
    by (auto simp: kernel_inv_def kernel_wf_def)
  from Cons kernel_inv_lists [OF inv] have st: "t_state (threads s t) = THREAD_STATE_BKL_BLOCKED"
    and nts: "t \<notin> set ts" by (metis list.set_intros(1), metis distinct.simps(2))
  then have tR: "t \<notin> runnable s" by (simp add: runnable_def)
  from wf(3) st have prio: "prio_ok (threads s t)" by (auto simp: lists_ok_def)
  have rep1: "queues_rep (runnable s) ?s1"
    by (rule queues_rep_cong [OF wf(2)]) (use tR in auto)
  have "prio_ok (threads ?s1 t)" using prio by (simp add: prio_ok_def)
  from SchedReady_ok [OF rep1 tR this] obtain s' where
    s': "SchedReady t ?s1 = Some s'" "queues_rep (insert t (runnable s)) s'" "sched_frame ?s1 s'"
      "threads s' = (threads s)(t := (threads s t)\<lparr>t_state := THREAD_STATE_READY, quanta_used := 0\<rparr>)"
      "current_thread s' = current_thread s" "bitmap_ok ?s1 \<longrightarrow> bitmap_ok s'"
      "\<And>q c. hd_opt (sched_queue s q) = Some c \<Longrightarrow> hd_opt (sched_queue s' q) = Some c"
    by auto
  note fr = sched_frameD [OF s'(3)]
  have run: "runnable s' = insert t (runnable s)"
    by (auto simp: runnable_def s'(4))
  have "lists_ok s'"
    using wf(3) st nts Cons by (auto simp: lists_ok_def fr s'(4))
  moreover have "lock_ok s'"
    using kernel_inv_owner [OF inv] Cons by (auto simp: lock_ok_def fr run)
  moreover have "idle_ok s'" "current_ok s'"
    using inv tR s'(7) by (auto simp: kernel_defs fr run s'(4,5))
  moreover have "threads_keep s s'" "bitmap_ok s \<longrightarrow> bitmap_ok s'" "lock_frame s s'"
    using s'(6) by (auto simp: threads_keep_def s'(4) bitmap_ok_def lock_frame_def fr)
  ultimately show ?thesis
    using Cons s' run tR by (auto simp: bkl_handover_def kernel_inv_def kernel_wf_def fr)
qed

text \<open>
  Blocking the running thread: from a state \<open>s1\<close> in which \<open>c\<close> has been put on its
  blocked list, \<open>SchedUnready\<close> and \<open>Reschedule\<close> restore the invariant.
\<close>

lemma block_current_ok:
  assumes inv: "kernel_inv s" and cur: "current_thread s = Some c"
    and idle: "idle_thread s \<noteq> Some c" and own: "bkl_owner s \<noteq> Some c"
    and s1: "threads s1 = (threads s)(c := th)" "sched_queue s1 = sched_queue s"
      "bkl_owner s1 = bkl_owner s" "bkl_locked s1 = bkl_locked s"
      "current_thread s1 = current_thread s" "idle_thread s1 = idle_thread s"
    and th: "sched_policy th = sched_policy (threads s c)" "priority th = priority (threads s c)"
      "desired_priority th = desired_priority (threads s c)"
      "t_state th \<notin> {THREAD_STATE_READY, THREAD_STATE_RUNNING}"
    and lists: "lists_ok s1" and lk: "bkl_blocked_list s1 \<noteq> [] \<Longrightarrow> bkl_locked s"
  shows "\<exists>s2 s'. SchedUnready c s1 = Some s2 \<and> Reschedule s2 = Some s' \<and> kernel_inv s'
     \<and> runnable s' = runnable s - {c} \<and> sched_frame s1 s' \<and> threads_keep s1 s'
     \<and> (\<forall>t. t \<notin> runnable s' \<longrightarrow> t_state (threads s' t) = t_state (threads s1 t))"
proof -
  have cR: "c \<in> runnable s" using inv cur by (auto simp: kernel_inv_def current_ok_def)
  have rep: "queues_rep (runnable s) s" using inv by (simp add: kernel_inv_def kernel_wf_def)
  have run1: "runnable s1 = runnable s - {c}"
    using th(4) by (auto simp: runnable_def s1)
  have "queues_rep (runnable s) s1"
    by (rule queues_rep_cong [OF rep]) (auto simp: s1 th)
  from SchedUnready_ok [OF this cR] obtain s2 where
    s2: "SchedUnready c s1 = Some s2" "queues_rep (runnable s - {c}) s2" "sched_frame s1 s2"
      "threads_keep s1 s2" "\<And>u. t_state (threads s2 u) = t_state (threads s1 u)"
      "prio_ok (threads s2 c)" "current_thread s2 = current_thread s1"
      "sched_policy (threads s1 c) \<noteq> SCHED_IDLE \<longrightarrow> quanta_used (threads s2 c) = 0"
      "\<And>u. u \<noteq> c \<Longrightarrow> threads s2 u = threads s1 u" by blast
  note fr = sched_frameD [OF s2(3)] and kp = threads_keepD [OF s2(4)]
  have run2: "runnable s2 = runnable s - {c}"
    by (simp add: runnable_def s2(5)) (use run1 in \<open>simp add: runnable_def\<close>)
  have prio2: "prio_ok (threads s2 t)" if "prio_ok (threads s1 t)" for t
    using that s2(6,9) by (cases "t = c") auto
  have wf: "kernel_wf s2"
    unfolding kernel_wf_def
  proof (intro conjI)
    show "queues_rep (runnable s2) s2" using s2(2) by (simp add: run2)
    show "lists_ok s2"
      using lists prio2 by (auto simp: lists_ok_def fr kp s2(5))
    show "lock_ok s2"
      using kernel_inv_owner [OF inv] own lk by (auto simp: lock_ok_def fr s1 run2)
    show "idle_ok s2"
      using inv idle by (auto simp: kernel_defs fr s1 run2 kp)
  qed
  have "resched_pre (runnable s2) s2"
    using s2(6,7,8) cur wf by (auto simp: resched_pre_def s1 run2 kp kernel_defs SCHED_QUANTA_JIFFIES_def)
  from Reschedule_inv [OF wf this] obtain s' where
    "Reschedule s2 = Some s'" "kernel_inv s'" "runnable s' = runnable s2"
    "sched_frame s2 s'" "threads_keep s2 s'"
    "\<forall>t. t \<notin> runnable s2 \<longrightarrow> t_state (threads s' t) = t_state (threads s2 t)" by blast
  with s2(1) show ?thesis
    using sched_frame_trans [OF s2(3)] threads_keep_trans [OF s2(4)] run2 s2(5) by auto
qed

lemma kernel_inv_resched_pre: "kernel_inv s \<Longrightarrow> resched_pre (runnable s) s"
  by (auto simp: resched_pre_def kernel_defs queues_rep_def queued_policy_def)

lemma KernelLock_ok:
  assumes inv: "kernel_inv s" and cur: "current_thread s = Some c"
    and idle: "bkl_locked s \<Longrightarrow> idle_thread s \<noteq> Some c" and own: "bkl_owner s \<noteq> Some c"
  shows "\<exists>s'. KernelLock s = Some s' \<and> kernel_inv s' \<and> lock_frame s s' \<and> threads_keep s s'
     \<and> blocked_list s' = blocked_list s
     \<and> (if bkl_locked s
        then bkl_owner s' = bkl_owner s \<and> bkl_blocked_list s' = bkl_blocked_list s @ [c]
          \<and> runnable s' = runnable s - {c}
        else s' = s\<lparr>bkl_locked := True, bkl_owner := Some c\<rparr> \<and> runnable s' = runnable s)"
proof (cases "bkl_locked s")
  case False
  from inv cur have "c \<in> runnable s" by (auto simp: kernel_inv_def current_ok_def)
  with False inv cur show ?thesis
    by (auto simp: KernelLock_def kernel_defs runnable_def queues_rep_def lock_frame_def
        threads_keep_def)
next
  case True
  let ?s1 = "set_state c THREAD_STATE_BKL_BLOCKED (s\<lparr>bkl_blocked_list := bkl_blocked_list s @ [c]\<rparr>)"
  from inv cur have c: "c \<in> runnable s" by (auto simp: kernel_inv_def current_ok_def)
  have "lists_ok ?s1"
    using inv c current_prio_ok [OF inv cur] kernel_inv_lists(5) [OF inv c]
    by (auto simp: lists_ok_def kernel_inv_def kernel_wf_def runnable_def prio_ok_def)
  with block_current_ok [OF inv cur idle own, of ?s1
      "(threads s c)\<lparr>t_state := THREAD_STATE_BKL_BLOCKED\<rparr>"] True obtain s2 s' where
    "SchedUnready c ?s1 = Some s2" "Reschedule s2 = Some s'" "kernel_inv s'"
    "runnable s' = runnable s - {c}" "sched_frame ?s1 s'" "threads_keep ?s1 s'"
    by (auto simp: prio_ok_def)
  moreover have "threads_keep s ?s1" "lock_frame s ?s1"
    by (auto simp: threads_keep_def lock_frame_def)
  ultimately show ?thesis
    using True cur sched_frameD [of ?s1 s'] sched_lock_frame [of ?s1 s']
    by (auto simp: KernelLock_def intro: threads_keep_trans lock_frame_trans)
qed

lemma KernelUnlock_eq:
  "bkl_locked s \<Longrightarrow> KernelUnlock s =
     do { s1 \<leftarrow> bkl_handover s; if bkl_blocked_list s = [] then Some s1 else Reschedule s1 }"
  by (cases s) (simp add: KernelUnlock_def bkl_handover_def upd_thread_def split: list.split)

lemma KernelUnlock_ok:
  assumes inv: "kernel_inv s" and lk: "bkl_locked s"
  shows "\<exists>s'. KernelUnlock s = Some s' \<and> kernel_inv s' \<and> lock_frame s s' \<and> threads_keep s s'
     \<and> blocked_list s' = blocked_list s
     \<and> bkl_owner s' = hd_opt (bkl_blocked_list s) \<and> bkl_blocked_list s' = tl (bkl_blocked_list s)
     \<and> runnable s' = runnable s \<union> set_option (hd_opt (bkl_blocked_list s))"
proof -
  from bkl_handover_ok [OF inv] obtain s1 where
    s1: "bkl_handover s = Some s1" "kernel_inv s1" "bkl_owner s1 = hd_opt (bkl_blocked_list s)"
      "bkl_blocked_list s1 = tl (bkl_blocked_list s)"
      "runnable s1 = runnable s \<union> set_option (hd_opt (bkl_blocked_list s))"
      "blocked_list s1 = blocked_list s" "threads_keep s s1" "lock_frame s s1" by blast
  then have "kernel_wf s1" by (simp add: kernel_inv_def)
  from Reschedule_inv [OF this kernel_inv_resched_pre [OF s1(2)]] obtain s' where
    s': "Reschedule s1 = Some s'" "kernel_inv s'" "runnable s' = runnable s1" "sched_frame s1 s'"
      "threads_keep s1 s'" by blast
  show ?thesis
  proof (cases "bkl_blocked_list s = []")
    case True
    with s1 lk show ?thesis by (simp add: KernelUnlock_eq)
  next
    case False
    with s1 s' lk show ?thesis
      using sched_frameD [OF s'(4)] sched_lock_frame [OF s'(4)]
      by (auto simp: KernelUnlock_eq intro: threads_keep_trans lock_frame_trans)
  qed
qed

text \<open>
  Giving up the processor while holding the lock, after the lock has been handed over:
  shared by \<open>TaskSleep\<close>, \<open>TaskSleepInterruptible\<close> and \<open>thread_stop\<close>.
\<close>

lemma sleep_ok:
  assumes inv: "kernel_inv s" and cur: "current_thread s = Some c"
    and idle: "idle_thread s \<noteq> Some c" and own: "bkl_owner s \<noteq> Some c"
    and f: "\<And>th. f th = th\<lparr>t_state := THREAD_STATE_RENDEZ_BLOCKED, intr_flags := intr_flags (f th),
        blocking_rendez := Some r\<rparr>"
  shows "\<exists>s2 s'. SchedUnready c (upd_thread c f (upd_blocked r (\<lambda>xs. xs @ [c]) s)) = Some s2
     \<and> Reschedule s2 = Some s' \<and> kernel_inv s' \<and> lock_frame s s'
     \<and> bkl_owner s' = bkl_owner s \<and> bkl_blocked_list s' = bkl_blocked_list s
     \<and> blocked_list s' = (blocked_list s)(r := blocked_list s r @ [c])
     \<and> runnable s' = runnable s - {c}"
proof -
  let ?s1 = "upd_thread c f (upd_blocked r (\<lambda>xs. xs @ [c]) s)"
  from inv cur have c: "c \<in> runnable s" by (auto simp: kernel_inv_def current_ok_def)
  have fs [simp]: "t_state (f th) = THREAD_STATE_RENDEZ_BLOCKED"
    "blocking_rendez (f th) = Some r" "sched_policy (f th) = sched_policy th"
    "priority (f th) = priority th" "desired_priority (f th) = desired_priority th" for th
    by (subst f, simp)+
  have "lists_ok ?s1"
    using inv c current_prio_ok [OF inv cur] kernel_inv_lists(5,6) [OF inv c]
    by (auto simp: lists_ok_def kernel_inv_def kernel_wf_def runnable_def prio_ok_def)
  with block_current_ok [OF inv cur idle own, of ?s1 "f (threads s c)"]
    kernel_inv_owner [OF inv] obtain s2 s' where
    "SchedUnready c ?s1 = Some s2" "Reschedule s2 = Some s'" "kernel_inv s'"
    "runnable s' = runnable s - {c}" "sched_frame ?s1 s'" "threads_keep ?s1 s'"
    by auto
  then show ?thesis
    using sched_frameD [of ?s1 s'] sched_lock_frame [of ?s1 s']
    by (auto simp: lock_frame_def)
qed

lemma handover_not_current:
  assumes "kernel_inv s" "current_thread s = Some c"
  shows "hd_opt (bkl_blocked_list s) \<noteq> Some c"
  using assms kernel_inv_lists(5) [OF assms(1), of c]
  by (auto simp: kernel_inv_def current_ok_def hd_opt_Some_iff)

lemma TaskSleep_ok:
  assumes inv: "kernel_inv s" and cur: "current_thread s = Some c"
    and idle: "idle_thread s \<noteq> Some c" and own: "bkl_owner s = Some c"
  shows "\<exists>s'. TaskSleep r s = Some s' \<and> kernel_inv s' \<and> lock_frame s s'
     \<and> bkl_owner s' = hd_opt (bkl_blocked_list s) \<and> bkl_blocked_list s' = tl (bkl_blocked_list s)
     \<and> blocked_list s' = (blocked_list s)(r := blocked_list s r @ [c])
     \<and> runnable s' = runnable s \<union> set_option (hd_opt (bkl_blocked_list s)) - {c}"
proof -
  from bkl_handover_ok [OF inv] obtain s1 where
    s1: "bkl_handover s = Some s1" "kernel_inv s1" "bkl_owner s1 = hd_opt (bkl_blocked_list s)"
      "bkl_blocked_list s1 = tl (bkl_blocked_list s)"
      "runnable s1 = runnable s \<union> set_option (hd_opt (bkl_blocked_list s))"
      "current_thread s1 = current_thread s" "blocked_list s1 = blocked_list s" "lock_frame s s1"
    by blast
  moreover from inv own have "bkl_locked s" by (simp add: kernel_inv_owner)
  moreover have "\<exists>s2 s'. SchedUnready c (upd_thread c (\<lambda>th. th\<lparr>t_state := THREAD_STATE_RENDEZ_BLOCKED,
         blocking_rendez := Some r\<rparr>) (upd_blocked r (\<lambda>xs. xs @ [c]) s1)) = Some s2
     \<and> Reschedule s2 = Some s' \<and> kernel_inv s' \<and> lock_frame s1 s'
     \<and> bkl_owner s' = bkl_owner s1 \<and> bkl_blocked_list s' = bkl_blocked_list s1
     \<and> blocked_list s' = (blocked_list s1)(r := blocked_list s1 r @ [c])
     \<and> runnable s' = runnable s1 - {c}"
    using s1 cur idle handover_not_current [OF inv cur]
    by (intro sleep_ok) (auto simp: lock_frame_def)
  ultimately show ?thesis
    using cur own lock_frame_trans [OF s1(8)] by (auto simp: TaskSleep_def)
qed


lemma thread_stop_ok:
  assumes inv: "kernel_inv s" and cur: "current_thread s = Some c"
    and idle: "idle_thread s \<noteq> Some c"
  shows "\<exists>s'. thread_stop s = Some s' \<and> kernel_inv s' \<and> lock_frame s s'
     \<and> blocked_list s' = blocked_list s
     \<and> bkl_owner s' = hd_opt (bkl_blocked_list s) \<and> bkl_blocked_list s' = tl (bkl_blocked_list s)
     \<and> runnable s' = runnable s \<union> set_option (hd_opt (bkl_blocked_list s)) - {c}
     \<and> t_state (threads s' c) = THREAD_STATE_EXITED"
proof -
  from bkl_handover_ok [OF inv] obtain s1 where
    s1: "bkl_handover s = Some s1" "kernel_inv s1" "bkl_owner s1 = hd_opt (bkl_blocked_list s)"
      "bkl_blocked_list s1 = tl (bkl_blocked_list s)"
      "runnable s1 = runnable s \<union> set_option (hd_opt (bkl_blocked_list s))"
      "current_thread s1 = current_thread s" "lock_frame s s1" "blocked_list s1 = blocked_list s"
    by blast
  let ?s1 = "set_state c THREAD_STATE_EXITED s1"
  from cur s1 have cur1: "current_thread s1 = Some c" by simp
  then have c: "c \<in> runnable s1" using s1(2) by (auto simp: kernel_inv_def current_ok_def)
  have "lists_ok ?s1"
    using s1(2) c by (auto simp: lists_ok_def kernel_inv_def kernel_wf_def runnable_def)
  moreover have "idle_thread s1 \<noteq> Some c" "bkl_owner s1 \<noteq> Some c"
    using idle s1(3,7) handover_not_current [OF inv cur] by (auto simp: lock_frame_def)
  ultimately have "\<exists>s2 s'. SchedUnready c ?s1 = Some s2 \<and> Reschedule s2 = Some s' \<and> kernel_inv s'
     \<and> runnable s' = runnable s1 - {c} \<and> sched_frame ?s1 s' \<and> threads_keep ?s1 s'
     \<and> (\<forall>t. t \<notin> runnable s' \<longrightarrow> t_state (threads s' t) = t_state (threads ?s1 t))"
    using kernel_inv_owner(1,3) [OF s1(2)]
    by (intro block_current_ok [OF s1(2) cur1, where th = "(threads s1 c)\<lparr>t_state := THREAD_STATE_EXITED\<rparr>"])
      simp_all
  then obtain s2 s' where s': "SchedUnready c ?s1 = Some s2" "Reschedule s2 = Some s'" "kernel_inv s'"
    "runnable s' = runnable s1 - {c}" "sched_frame ?s1 s'"
    "t_state (threads s' c) = THREAD_STATE_EXITED" by auto
  then show ?thesis
    using s1 cur sched_frameD [OF s'(5)] sched_lock_frame [OF s'(5)]
    by (auto simp: thread_stop_def lock_frame_def)
qed

text \<open>Every wakeup moves threads to the tail of the lock's list and lets none run.\<close>

definition asleep :: "kstate \<Rightarrow> tid set" where
  "asleep s = set (bkl_blocked_list s) \<union> (\<Union>r. set (blocked_list s r))"

definition wake_frame :: "kstate \<Rightarrow> kstate \<Rightarrow> bool" where
  "wake_frame s s' \<longleftrightarrow> lock_frame s s' \<and> bkl_owner s' = bkl_owner s \<and> bkl_locked s' = bkl_locked s
     \<and> current_thread s' = current_thread s \<and> runnable s' = runnable s
     \<and> asleep s' = asleep s \<and> (\<exists>ts. bkl_blocked_list s' = bkl_blocked_list s @ ts)"

lemma wake_frame_refl [simp]: "wake_frame s s"
  by (simp add: wake_frame_def)

lemma wake_frame_trans: "wake_frame s s1 \<Longrightarrow> wake_frame s1 s2 \<Longrightarrow> wake_frame s s2"
  by (auto simp: wake_frame_def intro: lock_frame_trans)

lemma rendez_to_bkl_ok:
  assumes inv: "kernel_inv s" and lk: "bkl_locked s" and t: "t \<in> set (blocked_list s r)"
    and g: "set (g (blocked_list s r)) = set (blocked_list s r) - {t}" "distinct (g (blocked_list s r))"
  shows "kernel_inv (rendez_to_bkl t (upd_blocked r g s))" (is "kernel_inv ?s'")
    and "wake_frame s (rendez_to_bkl t (upd_blocked r g s))"
proof -
  from t kernel_inv_lists [OF inv] have st: "t_state (threads s t) = THREAD_STATE_RENDEZ_BLOCKED"
    "blocking_rendez (threads s t) = Some r" by auto
  then have run: "runnable ?s' = runnable s" and tR: "t \<notin> runnable s"
    by (auto simp: runnable_def rendez_to_bkl_def)
  from inv have ok: "queues_rep (runnable s) s" "lists_ok s" "lock_ok s" "idle_ok s" "current_ok s"
    by (auto simp: kernel_inv_def kernel_wf_def)
  have th: "threads ?s' u = (if u = t then (threads s t)\<lparr>blocking_rendez := None,
       t_state := THREAD_STATE_BKL_BLOCKED\<rparr> else threads s u)" for u
    by (simp add: rendez_to_bkl_def)
  have fs: "bkl_blocked_list ?s' = bkl_blocked_list s @ [t]" "sched_queue ?s' = sched_queue s"
    "blocked_list ?s' = (blocked_list s)(r := g (blocked_list s r))" "bkl_owner ?s' = bkl_owner s"
    "bkl_locked ?s' = bkl_locked s" "idle_thread ?s' = idle_thread s"
    "current_thread ?s' = current_thread s"
    by (auto simp: rendez_to_bkl_def)
  have "queues_rep (runnable s) ?s'"
    by (rule queues_rep_cong [OF ok(1)]) (use tR in \<open>auto simp: th fs\<close>)
  moreover have "lists_ok ?s'"
    using ok(2) st g unfolding lists_ok_def fs by (auto simp: th prio_ok_def)
  moreover have "lock_ok ?s'"
    using ok(3) lk unfolding lock_ok_def fs run by blast
  moreover have "idle_ok ?s'" "current_ok ?s'"
    using ok(4,5) tR by (auto simp: idle_ok_def current_ok_def fs run th)
  ultimately show "kernel_inv ?s'" by (simp add: kernel_inv_def kernel_wf_def run)
  have "asleep ?s' = asleep s"
    using t g by (auto simp: asleep_def fs split: if_splits)
  with run show "wake_frame s ?s'"
    by (simp add: wake_frame_def lock_frame_def rendez_to_bkl_def)
qed

lemma TaskWakeup_ok:
  assumes inv: "kernel_inv s" and lk: "bkl_locked s"
  shows "\<exists>s'. TaskWakeup r s = Some s' \<and> kernel_inv s' \<and> wake_frame s s'
     \<and> bkl_blocked_list s' = bkl_blocked_list s @ take 1 (blocked_list s r)
     \<and> blocked_list s' = (blocked_list s)(r := tl (blocked_list s r))"
proof (cases "blocked_list s r")
  case Nil
  then have "(blocked_list s)(r := []) = blocked_list s" by (simp add: fun_upd_idem)
  with Nil inv show ?thesis by (simp add: TaskWakeup_def)
next
  case (Cons t ts)
  with kernel_inv_lists(2) [OF inv, of t r] kernel_inv_lists(4) [OF inv, of r] show ?thesis
    using rendez_to_bkl_ok [OF inv lk, of t r tl] by (auto simp: TaskWakeup_def rendez_to_bkl_def)
qed

lemma TaskWakeupSpecific_ok:
  assumes inv: "kernel_inv s" and lk: "bkl_locked s"
  shows "\<exists>s'. TaskWakeupSpecific th reason s = Some s' \<and> kernel_inv s' \<and> wake_frame s s'"
proof (cases "\<exists>t. th = Some t \<and> t_state (threads s t) = THREAD_STATE_RENDEZ_BLOCKED")
  case False
  with inv show ?thesis by (auto simp: TaskWakeupSpecific_def split: option.split)
next
  case True
  then obtain t r where "th = Some t" "t_state (threads s t) = THREAD_STATE_RENDEZ_BLOCKED"
    "blocking_rendez (threads s t) = Some r"
    using inv by (auto simp: kernel_inv_def kernel_wf_def lists_ok_def)
  moreover from this have "t \<in> set (blocked_list s r)" by (simp add: kernel_inv_lists [OF inv])
  ultimately show ?thesis
    using rendez_to_bkl_ok [OF inv lk, of t r "remove1 t"] kernel_inv_lists(4) [OF inv, of r] inv
    by (auto simp: TaskWakeupSpecific_def set_remove1_eq)
qed

lemma TaskWakeupAll_ok:
  assumes "kernel_inv s" and "bkl_locked s"
  shows "\<exists>s'. TaskWakeupAll r s = Some s' \<and> kernel_inv s' \<and> wake_frame s s'
     \<and> bkl_blocked_list s' = bkl_blocked_list s @ blocked_list s r
     \<and> blocked_list s' = (blocked_list s)(r := [])"
  using assms
proof (induction r s rule: TaskWakeupAll.induct)
  case (1 r s)
  show ?case
  proof (cases "blocked_list s r")
    case Nil
    then have "(blocked_list s)(r := []) = blocked_list s" by (simp add: fun_upd_idem)
    with Nil 1 show ?thesis by (simp add: TaskWakeupAll.simps [of r s])
  next
    case (Cons t ts)
    let ?s1 = "rendez_to_bkl t (upd_blocked r tl s)"
    from Cons have ok: "kernel_inv ?s1" "wake_frame s ?s1"
      using rendez_to_bkl_ok [OF 1(2,3), of t r tl] kernel_inv_lists(4) [OF 1(2), of r] by auto
    have "bkl_blocked_list ?s1 = bkl_blocked_list s @ [t]"
      "blocked_list ?s1 = (blocked_list s)(r := ts)" "bkl_locked ?s1"
      using Cons 1(3) by (auto simp: rendez_to_bkl_def)
    with 1(1) [OF Cons 1(3) ok(1)] 1(3) Cons show ?thesis
      using wake_frame_trans [OF ok(2)]
      by (auto simp: TaskWakeupAll.simps [of r s] simp del: fun_upd_apply simp add: fun_upd_same)
  qed
qed

lemma interrupt_handler_ok:
  assumes inv: "kernel_inv s" and cur: "current_thread s = Some c"
    and top: "\<And>s. kernel_inv s \<Longrightarrow> bkl_locked s \<Longrightarrow>
       \<exists>s'. top_half s = Some s' \<and> kernel_inv s' \<and> runnable s' = runnable s
         \<and> bkl_owner s' = bkl_owner s \<and> idle_thread s' = idle_thread s
         \<and> asleep s' = asleep s \<and> (\<exists>ts. bkl_blocked_list s' = bkl_blocked_list s @ ts)"
  shows "\<exists>s'. interrupt_handler top_half s = Some s' \<and> kernel_inv s' \<and> idle_thread s' = idle_thread s
     \<and> asleep s' \<subseteq> asleep s
     \<and> (if bkl_locked s then bkl_owner s' = bkl_owner s \<and> runnable s' = runnable s
          \<and> (\<exists>ts. bkl_blocked_list s' = bkl_blocked_list s @ ts)
        else (\<exists>w. bkl_owner s' = w \<and> runnable s' = runnable s \<union> set_option w
                \<and> set_option w \<subseteq> asleep s))"
proof (cases "bkl_locked s")
  case True
  with top [OF inv] show ?thesis by (auto simp: interrupt_handler_def)
next
  case False
  with inv have "bkl_owner s = None" by (simp add: kernel_inv_owner)
  with KernelLock_ok [OF inv cur] False obtain s1 where
    s1: "KernelLock s = Some s1" "kernel_inv s1" "runnable s1 = runnable s"
      "bkl_locked s1" "idle_thread s1 = idle_thread s" "asleep s1 = asleep s"
    by (auto simp: asleep_def)
  from top [OF s1(2,4)] obtain s2 where
    s2: "top_half s1 = Some s2" "kernel_inv s2" "runnable s2 = runnable s1"
      "bkl_owner s2 = bkl_owner s1" "idle_thread s2 = idle_thread s1"
      "asleep s2 = asleep s1" by blast
  with s1 have "bkl_locked s2" by (simp add: kernel_inv_owner)
  from KernelUnlock_ok [OF s2(2) this] obtain s3 where
    s3: "KernelUnlock s2 = Some s3" "kernel_inv s3" "lock_frame s2 s3"
    "bkl_owner s3 = hd_opt (bkl_blocked_list s2)" "blocked_list s3 = blocked_list s2"
    "bkl_blocked_list s3 = tl (bkl_blocked_list s2)"
    "runnable s3 = runnable s2 \<union> set_option (hd_opt (bkl_blocked_list s2))" by blast
  have "asleep s3 \<subseteq> asleep s2" "set_option (hd_opt (bkl_blocked_list s2)) \<subseteq> asleep s2"
    by (auto simp: asleep_def s3 hd_opt_Some_iff dest: set_tlD)
  moreover have "asleep s2 = asleep s"
    using s1 s2 by (simp add: asleep_def)
  ultimately show ?thesis
    using False s1 s2 s3 by (auto simp: interrupt_handler_def lock_frame_def)
qed

end
