(* ===== verification/Kernel_Lock.thy ===== *)
theory Kernel_Lock
  imports Sleep
begin

text \<open>
  The kernel as a transition system. A state is the kernel's own state together with the set
  of threads that are inside the kernel (between the \<open>KernelLock\<close> and \<open>KernelUnlock\<close> of a
  system call), whether running or asleep there. The steps are the operations of
  \<open>Sched\<close> and \<open>Sleep\<close>; the theorems are mutual exclusion under the big kernel lock, that no
  assertion of these operations fails, and first-come first-served hand-over of the lock.
\<close>

section \<open>The transition system\<close>

type_synonym kconfig = "kstate \<times> tid set"

inductive kstep :: "kconfig \<Rightarrow> kconfig \<Rightarrow> bool" where
  syscall_enter:
    "current_thread s = Some c \<Longrightarrow> c \<notin> K \<Longrightarrow> idle_thread s \<noteq> Some c \<Longrightarrow>
     KernelLock s = Some s' \<Longrightarrow> kstep (s, K) (s', insert c K)"
| syscall_leave:
    "current_thread s = Some c \<Longrightarrow> c \<in> K \<Longrightarrow> KernelUnlock s = Some s' \<Longrightarrow>
     kstep (s, K) (s', K - {c})"
| sleep:
    "current_thread s = Some c \<Longrightarrow> c \<in> K \<Longrightarrow> TaskSleep r s = Some s' \<Longrightarrow> kstep (s, K) (s', K)"
| sleep_interruptible:
    "current_thread s = Some c \<Longrightarrow> c \<in> K \<Longrightarrow>
     TaskSleepInterruptible r ts flags s = Some (out, s') \<Longrightarrow> kstep (s, K) (s', K)"
| wakeup:
    "current_thread s = Some c \<Longrightarrow> c \<in> K \<Longrightarrow> TaskWakeup r s = Some s' \<Longrightarrow> kstep (s, K) (s', K)"
| wakeup_specific:
    "current_thread s = Some c \<Longrightarrow> c \<in> K \<Longrightarrow> TaskWakeupSpecific th reason s = Some s' \<Longrightarrow>
     kstep (s, K) (s', K)"
| wakeup_all:
    "current_thread s = Some c \<Longrightarrow> c \<in> K \<Longrightarrow> TaskWakeupAll r s = Some s' \<Longrightarrow> kstep (s, K) (s', K)"
| exit_thread:
    "current_thread s = Some c \<Longrightarrow> c \<in> K \<Longrightarrow> thread_stop s = Some s' \<Longrightarrow>
     kstep (s, K) (s', K - {c})"
| create_thread:
    "current_thread s = Some c \<Longrightarrow> c \<in> K \<Longrightarrow> t \<notin> K \<Longrightarrow>
     t_state (threads s t) \<in> {THREAD_STATE_FREE, THREAD_STATE_EXITED} \<Longrightarrow>
     blocked_list s (Rendez_thread t) = [] \<Longrightarrow>
     init_schedparams t policy prio (init_thread t p s) = Some s1 \<Longrightarrow>
     thread_start t s1 = Some s' \<Longrightarrow> kstep (s, K) (s', K)"
| interrupt_wakeup:
    "interrupt_handler (TaskWakeup r) s = Some s' \<Longrightarrow> kstep (s, K) (s', K)"
| clock:
    "kstep (s, K) (s\<lparr>monotonic_usec := now\<rparr>, K)"

inductive_cases kstepE: "kstep (s, K) x"

inductive kreach :: "kstate \<Rightarrow> kconfig \<Rightarrow> bool" for s0 where
  kreach_init: "kreach s0 (s0, {})"
| kreach_step: "kreach s0 x \<Longrightarrow> kstep x y \<Longrightarrow> kreach s0 y"

section \<open>Booting\<close>

text \<open>
  The threads \<open>init_processes\<close> creates, in the order of the free list of
  \<open>thread_table\<close>: root, reaper, timer and idle.
\<close>

definition init_processes :: "kstate option" where
  "init_processes = do {
     s1 \<leftarrow> init_schedparams 0 SCHED_RR 16 (init_thread 0 0 init_tables);
     s2 \<leftarrow> thread_start 0 s1;
     s3 \<leftarrow> init_schedparams 1 SCHED_RR 16 (init_thread 1 0 s2);
     s4 \<leftarrow> thread_start 1 s3;
     s5 \<leftarrow> init_schedparams 2 SCHED_RR 31 (init_thread 2 0 s4);
     s6 \<leftarrow> thread_start 2 s5;
     s7 \<leftarrow> init_schedparams 3 SCHED_IDLE 0 (init_thread 3 0 s6);
     Some (set_state 3 THREAD_STATE_READY (s7\<lparr>idle_thread := Some 3\<rparr>)) }"

definition boot_state :: "kstate option" where
  "boot_state = do { s \<leftarrow> init_processes; start_scheduler s }"

section \<open>The invariant\<close>

text \<open>
  Threads inside the kernel that can run own the lock; the owner is inside the kernel; the
  idle thread is never inside.
\<close>

definition kconfig_inv :: "kconfig \<Rightarrow> bool" where
  "kconfig_inv x \<longleftrightarrow> (case x of (s, K) \<Rightarrow>
     kernel_inv s
     \<and> (\<forall>t \<in> K. t \<in> runnable s \<longrightarrow> bkl_owner s = Some t)
     \<and> (\<forall>t. bkl_owner s = Some t \<longrightarrow> t \<in> K)
     \<and> asleep s \<subseteq> K
     \<and> (\<forall>i. idle_thread s = Some i \<longrightarrow> i \<notin> K))"

lemma arm_sleep_timeout_frame:
  assumes "(case ts of None \<Rightarrow> Some s | Some t \<Rightarrow> arm_sleep_timeout c r t s) = Some s'"
  shows "\<exists>w tm. s' = s\<lparr>timing_wheel := w, timers := tm\<rparr>"
proof (cases ts)
  case None
  with assms have "s' = s\<lparr>timing_wheel := timing_wheel s, timers := timers s\<rparr>" by simp
  then show ?thesis by (intro exI)
next
  case (Some t)
  with assms show ?thesis
    by (cases s) (auto simp: arm_sleep_timeout_def wheel_add_def upd_timer_def bind_eq_Some_conv)
qed

lemma TaskSleepInterruptible_ok:
  assumes inv: "kernel_inv s" and cur: "current_thread s = Some c"
    and idle: "idle_thread s \<noteq> Some c" and own: "bkl_owner s = Some c"
    and call: "TaskSleepInterruptible r ts flags s = Some (out, s')"
  shows "s' = s \<and> out = Returned (Inl EINTR) \<or>
     out = Asleep \<and> kernel_inv s' \<and> idle_thread s' = idle_thread s
     \<and> bkl_owner s' = hd_opt (bkl_blocked_list s) \<and> bkl_blocked_list s' = tl (bkl_blocked_list s)
     \<and> blocked_list s' = (blocked_list s)(r := blocked_list s r @ [c])
     \<and> runnable s' = runnable s \<union> set_option (hd_opt (bkl_blocked_list s)) - {c}"
proof (cases "TaskCheckInterruptible c flags s = Inr ()")
  case False
  with call cur show ?thesis by (simp add: TaskSleepInterruptible_def split: if_splits)
next
  case True
  from bkl_handover_ok [OF inv] obtain s1 where
    s1: "bkl_handover s = Some s1" "kernel_inv s1" "bkl_owner s1 = hd_opt (bkl_blocked_list s)"
      "bkl_blocked_list s1 = tl (bkl_blocked_list s)"
      "runnable s1 = runnable s \<union> set_option (hd_opt (bkl_blocked_list s))"
      "current_thread s1 = current_thread s" "blocked_list s1 = blocked_list s" "lock_frame s s1"
    by blast
  let ?arm = "case ts of None \<Rightarrow> Some s1 | Some t \<Rightarrow> arm_sleep_timeout c r t s1"
  from own have lk: "bkl_locked s" by (simp add: kernel_inv_owner(1) [OF inv])
  have "?arm \<noteq> None"
    using call cur True s1(1) own lk by (cases ?arm) (simp_all add: TaskSleepInterruptible_def)
  then obtain s2 where arm: "?arm = Some s2" by blast
  obtain w tm where s2: "s2 = s1\<lparr>timing_wheel := w, timers := tm\<rparr>"
    using arm_sleep_timeout_frame [OF arm] by blast
  have run2: "runnable s2 = runnable s1" by (simp add: runnable_def s2)
  have "kernel_inv s2"
    using s1(2) kernel_inv_cong(1) [of s2 s1] by (simp add: s2)
  moreover have "current_thread s2 = Some c" "idle_thread s2 \<noteq> Some c" "bkl_owner s2 \<noteq> Some c"
    using s1(3,6,8) cur idle handover_not_current [OF inv cur] by (simp_all add: lock_frame_def s2)
  ultimately have "\<exists>s3 s''. SchedUnready c (upd_thread c (\<lambda>th. th\<lparr>t_state := THREAD_STATE_RENDEZ_BLOCKED,
         intr_flags := flags, blocking_rendez := Some r\<rparr>) (upd_blocked r (\<lambda>xs. xs @ [c]) s2)) = Some s3
     \<and> Reschedule s3 = Some s'' \<and> kernel_inv s'' \<and> lock_frame s2 s''
     \<and> bkl_owner s'' = bkl_owner s2 \<and> bkl_blocked_list s'' = bkl_blocked_list s2
     \<and> blocked_list s'' = (blocked_list s2)(r := blocked_list s2 r @ [c])
     \<and> runnable s'' = runnable s2 - {c}"
    by (rule sleep_ok) simp
  then obtain s3 s'' where
    s3: "SchedUnready c (upd_thread c (\<lambda>th. th\<lparr>t_state := THREAD_STATE_RENDEZ_BLOCKED,
         intr_flags := flags, blocking_rendez := Some r\<rparr>) (upd_blocked r (\<lambda>xs. xs @ [c]) s2)) = Some s3"
      "Reschedule s3 = Some s''"
    and s'': "kernel_inv s''" "lock_frame s2 s''" "bkl_owner s'' = bkl_owner s2"
      "bkl_blocked_list s'' = bkl_blocked_list s2" "runnable s'' = runnable s2 - {c}"
      "blocked_list s'' = (blocked_list s2)(r := blocked_list s2 r @ [c])" by blast
  have "out = Asleep \<and> s' = s''"
    using call cur own True s1(1) arm s3 lk
    by (simp add: TaskSleepInterruptible_def)
  with s'' s1(3,4,5,7,8) run2 show ?thesis
    by (simp add: lock_frame_def s2)
qed

text \<open>The lock's list is served in order: a step takes at most its head off, as the new owner.\<close>

definition fifo_step :: "kstate \<Rightarrow> kstate \<Rightarrow> bool" where
  "fifo_step s s' \<longleftrightarrow>
     (\<exists>ts. bkl_blocked_list s' = bkl_blocked_list s @ ts)
     \<or> bkl_owner s' = hd_opt (bkl_blocked_list s) \<and> bkl_blocked_list s' = tl (bkl_blocked_list s)"

lemma wake_fifo_step: "wake_frame s s' \<Longrightarrow> fifo_step s s'"
  unfolding wake_frame_def fifo_step_def by blast

lemma upd_thread_eq: "upd_thread t f s = s\<lparr>threads := (threads s)(t := threads (upd_thread t f s) t)\<rparr>"
  by (simp add: upd_thread_def)

lemma init_schedparams_ok:
  assumes "init_schedparams t policy prio s = Some s1"
  shows "s1 = s\<lparr>threads := (threads s)(t := threads s1 t)\<rparr>" and "prio_ok (threads s1 t)"
proof -
  define p where "p = (if prio < 0 then 0 else if prio > 31 then 31 else prio)"
  have p: "0 \<le> p" "p \<le> 31" by (auto simp: p_def)
  have "\<exists>f. s1 = upd_thread t f s \<and> (\<forall>th. prio_ok (f th))"
    using assms p unfolding init_schedparams_def Let_def
    by (cases policy) (auto simp: p_def [symmetric] prio_ok_def split: if_splits)
  then obtain f where f: "s1 = upd_thread t f s" "prio_ok (f th)" for th by blast
  show "s1 = s\<lparr>threads := (threads s)(t := threads s1 t)\<rparr>"
    unfolding f(1) by (rule upd_thread_eq)
  show "prio_ok (threads s1 t)" by (simp add: f)
qed

lemma create_thread_ok:
  assumes inv: "kernel_inv s" and lk: "bkl_locked s"
    and t: "t_state (threads s t) \<in> {THREAD_STATE_FREE, THREAD_STATE_EXITED}"
    and r: "blocked_list s (Rendez_thread t) = []"
    and init: "init_schedparams t policy prio (init_thread t p s) = Some s1"
  shows "\<exists>s'. thread_start t s1 = Some s' \<and> kernel_inv s' \<and> runnable s' = insert t (runnable s)
     \<and> lock_frame s s' \<and> bkl_owner s' = bkl_owner s \<and> bkl_locked s' = bkl_locked s
     \<and> bkl_blocked_list s' = bkl_blocked_list s \<and> blocked_list s' = blocked_list s
     \<and> current_thread s' = current_thread s"
proof -
  from inv have ok: "queues_rep (runnable s) s" "lists_ok s" "lock_ok s" "idle_ok s" "current_ok s"
    by (auto simp: kernel_inv_def kernel_wf_def)
  have bl: "upd_blocked (Rendez_thread t) (\<lambda>_. []) s = s"
    using r by (cases s) (simp add: upd_blocked_def fun_upd_idem)
  define th where "th = threads s1 t"
  have th: "prio_ok th" unfolding th_def by (rule init_schedparams_ok(2) [OF init])
  have "s1 = (init_thread t p s)\<lparr>threads := (threads (init_thread t p s))(t := th)\<rparr>"
    unfolding th_def by (rule init_schedparams_ok(1) [OF init])
  also have "\<dots> = s\<lparr>threads := (threads s)(t := th)\<rparr>"
    by (simp add: init_thread_def bl upd_thread_def)
  finally have s1: "s1 = s\<lparr>threads := (threads s)(t := th)\<rparr>" .
  let ?th = "th\<lparr>usage_usec := 0, last_resched_time_usec := monotonic_usec s,
    creation_usec := monotonic_usec s, t_state := THREAD_STATE_READY\<rparr>"
  let ?s2 = "s\<lparr>threads := (threads s)(t := ?th)\<rparr>"
  have eq: "thread_start t s1 = SchedReady t ?s2"
    by (simp add: thread_start_def s1 upd_thread_def)
  from t have tR: "t \<notin> runnable s" by (auto simp: runnable_def)
  have "queues_rep (runnable s) ?s2"
    using ok(1) tR by (auto simp: queues_rep_def)
  moreover have "prio_ok (threads ?s2 t)" using th by (simp add: prio_ok_def)
  ultimately obtain s' where s': "SchedReady t ?s2 = Some s'" "queues_rep (insert t (runnable s)) s'"
      "sched_frame ?s2 s'" "threads s' = (threads s)(t := ?th\<lparr>quanta_used := 0\<rparr>)"
      "current_thread s' = current_thread s"
      "\<And>q c. hd_opt (sched_queue s q) = Some c \<Longrightarrow> hd_opt (sched_queue s' q) = Some c"
    using SchedReady_ok [OF _ tR, of ?s2] by auto
  note fr = sched_frameD [OF s'(3)]
  have run: "runnable s' = insert t (runnable s)" by (auto simp: runnable_def s'(4))
  have "lists_ok s'"
    using ok(2) t unfolding lists_ok_def by (auto simp: fr s'(4))
  moreover have "lock_ok s'"
    using ok(3) unfolding lock_ok_def run by (auto simp: fr)
  moreover have "idle_ok s'" "current_ok s'"
    using ok(4,5) tR s'(6) by (auto simp: idle_ok_def current_ok_def fr run s'(4,5))
  ultimately show ?thesis
    using s' run eq by (auto simp: kernel_inv_def kernel_wf_def fr lock_frame_def)
qed

lemma kconfig_invD:
  assumes "kconfig_inv (s, K)"
  shows "kernel_inv s" "t \<in> K \<Longrightarrow> t \<in> runnable s \<Longrightarrow> bkl_owner s = Some t"
    "bkl_owner s = Some t \<Longrightarrow> t \<in> K" "asleep s \<subseteq> K" "idle_thread s = Some t \<Longrightarrow> t \<notin> K"
  using assms unfolding kconfig_inv_def by blast+

lemma kconfig_invI:
  assumes "kernel_inv s" "\<And>t. t \<in> K \<Longrightarrow> t \<in> runnable s \<Longrightarrow> bkl_owner s = Some t"
    "\<And>t. bkl_owner s = Some t \<Longrightarrow> t \<in> K" "asleep s \<subseteq> K" "\<And>t. idle_thread s = Some t \<Longrightarrow> t \<notin> K"
  shows "kconfig_inv (s, K)"
  unfolding kconfig_inv_def using assms by blast

text \<open>A thread inside the kernel that is running owns the lock.\<close>

lemma running_owner:
  assumes "kconfig_inv (s, K)" "current_thread s = Some c" "c \<in> K"
  shows "bkl_owner s = Some c" "bkl_locked s" "idle_thread s \<noteq> Some c" "c \<in> runnable s"
proof -
  note inv = kconfig_invD [OF assms(1)]
  show "c \<in> runnable s" using inv(1) assms(2) by (auto simp: kernel_inv_def current_ok_def)
  then show "bkl_owner s = Some c" using inv(2) assms(3) by blast
  then show "bkl_locked s" by (simp add: kernel_inv_owner(1) [OF inv(1)])
  show "idle_thread s \<noteq> Some c" using inv(5) assms(3) by blast
qed

lemma head_asleep: "set_option (hd_opt (bkl_blocked_list s)) \<subseteq> asleep s"
  by (auto simp: asleep_def hd_opt_Some_iff)

text \<open>The steps in which the running thread gives up the lock.\<close>

lemma handover_step:
  assumes inv: "kconfig_inv (s, K)" and cur: "current_thread s = Some c" and c: "c \<in> K"
    and s': "kernel_inv s'" "idle_thread s' = idle_thread s"
      "bkl_owner s' = hd_opt (bkl_blocked_list s)" "bkl_blocked_list s' = tl (bkl_blocked_list s)"
      "runnable s' - {c} = runnable s \<union> set_option (hd_opt (bkl_blocked_list s)) - {c}"
      "asleep s' \<subseteq> K'"
    and K': "K - {c} \<subseteq> K'" "K' \<subseteq> K" "c \<in> K' \<Longrightarrow> c \<notin> runnable s'"
  shows "kconfig_inv (s', K') \<and> fifo_step s s'"
proof
  note i = kconfig_invD [OF inv] and o = running_owner [OF inv cur c]
  have hd: "t \<in> K'" if "hd_opt (bkl_blocked_list s) = Some t" for t
    using that head_asleep [of s] i(4) K'(1) handover_not_current [OF i(1) cur] by auto
  show "kconfig_inv (s', K')"
  proof (rule kconfig_invI)
    fix t
    assume t: "t \<in> K'" "t \<in> runnable s'"
    with K'(3) have "t \<noteq> c" by blast
    with t s'(5) have "t \<in> runnable s \<or> hd_opt (bkl_blocked_list s) = Some t" by auto
    moreover have "t \<notin> runnable s"
      using i(2) [of t] o(1) t K'(2) \<open>t \<noteq> c\<close> by auto
    ultimately show "bkl_owner s' = Some t" by (simp add: s')
  qed (use s' hd i(5) K'(2) in \<open>auto intro: s'(1)\<close>)
  show "fifo_step s s'" by (simp add: fifo_step_def s')
qed

lemma wake_step:
  assumes inv: "kconfig_inv (s, K)" and s': "kernel_inv s'" "wake_frame s s'"
  shows "kconfig_inv (s', K) \<and> fifo_step s s'"
proof
  note i = kconfig_invD [OF inv]
  have f: "bkl_owner s' = bkl_owner s" "runnable s' = runnable s" "asleep s' = asleep s"
    "idle_thread s' = idle_thread s"
    using s'(2) by (simp_all add: wake_frame_def lock_frame_def)
  show "kconfig_inv (s', K)"
    unfolding kconfig_inv_def prod.case f using i s'(1) by blast
  show "fifo_step s s'" using s'(2) by (rule wake_fifo_step)
qed

lemma enter_step:
  assumes inv: "kconfig_inv (s, K)" and cur: "current_thread s = Some c" and c: "c \<notin> K"
    and idle: "idle_thread s \<noteq> Some c"
  shows "\<exists>s'. KernelLock s = Some s' \<and> kconfig_inv (s', insert c K) \<and> fifo_step s s'"
proof -
  note i = kconfig_invD [OF inv]
  from i(3) c have own: "bkl_owner s \<noteq> Some c" by blast
  from KernelLock_ok [OF i(1) cur idle own] obtain s' where
    s': "KernelLock s = Some s'" "kernel_inv s'" "lock_frame s s'" "blocked_list s' = blocked_list s"
    and R: "if bkl_locked s
        then bkl_owner s' = bkl_owner s \<and> bkl_blocked_list s' = bkl_blocked_list s @ [c]
          \<and> runnable s' = runnable s - {c}
        else s' = s\<lparr>bkl_locked := True, bkl_owner := Some c\<rparr> \<and> runnable s' = runnable s" by blast
  have "kconfig_inv (s', insert c K)"
  proof (cases "bkl_locked s")
    case True
    with R s'(3,4) have f: "bkl_owner s' = bkl_owner s" "runnable s' = runnable s - {c}"
      "asleep s' = insert c (asleep s)" "idle_thread s' = idle_thread s"
      by (auto simp: asleep_def lock_frame_def)
    show ?thesis unfolding kconfig_inv_def prod.case f using i s'(2) idle by blast
  next
    case False
    then have no: "bkl_owner s = None" using kernel_inv_owner(1) [OF i(1)] by simp
    with False R s'(3) have f: "bkl_owner s' = Some c" "runnable s' = runnable s"
      "asleep s' = asleep s" "idle_thread s' = idle_thread s"
      by (auto simp: asleep_def lock_frame_def)
    have "t \<notin> runnable s" if "t \<in> K" for t using i(2) [OF that] no by auto
    then show ?thesis unfolding kconfig_inv_def prod.case f using i(4,5) s'(2) idle by blast
  qed
  moreover have "fifo_step s s'" using R by (auto simp: fifo_step_def split: if_splits)
  ultimately show ?thesis using s'(1) by blast
qed

lemma create_step:
  assumes inv: "kconfig_inv (s, K)" and lk: "bkl_locked s" and tK: "t \<notin> K"
    and t: "t_state (threads s t) \<in> {THREAD_STATE_FREE, THREAD_STATE_EXITED}"
    and r: "blocked_list s (Rendez_thread t) = []"
    and init: "init_schedparams t policy prio (init_thread t p s) = Some s1"
    and start: "thread_start t s1 = Some s'"
  shows "kconfig_inv (s', K) \<and> fifo_step s s'"
proof
  note i = kconfig_invD [OF inv]
  from create_thread_ok [OF i(1) lk t r init] start have
    f: "kernel_inv s'" "runnable s' = insert t (runnable s)" "bkl_owner s' = bkl_owner s"
      "bkl_blocked_list s' = bkl_blocked_list s" "blocked_list s' = blocked_list s" "lock_frame s s'"
    by auto
  then have g: "asleep s' = asleep s" "idle_thread s' = idle_thread s"
    by (simp_all add: asleep_def lock_frame_def)
  show "kconfig_inv (s', K)"
    unfolding kconfig_inv_def prod.case f(2,3) g using i f(1) tK by blast
  show "fifo_step s s'" by (simp add: fifo_step_def f)
qed

lemma interrupt_step:
  assumes inv: "kconfig_inv (s, K)" and irq: "interrupt_handler (TaskWakeup r) s = Some s'"
  shows "kconfig_inv (s', K) \<and> fifo_step s s'"
proof -
  note i = kconfig_invD [OF inv]
  from i(1) obtain c where cur: "current_thread s = Some c" by (auto simp: kernel_inv_def current_ok_def)
  have top: "\<exists>s'. TaskWakeup r s = Some s' \<and> kernel_inv s' \<and> runnable s' = runnable s
         \<and> bkl_owner s' = bkl_owner s \<and> idle_thread s' = idle_thread s
         \<and> asleep s' = asleep s \<and> (\<exists>ts. bkl_blocked_list s' = bkl_blocked_list s @ ts)"
    if "kernel_inv s" "bkl_locked s" for s
    using TaskWakeup_ok [OF that, of r] by (auto simp: wake_frame_def lock_frame_def)
  from interrupt_handler_ok [OF i(1) cur top] irq have s': "kernel_inv s'"
      "idle_thread s' = idle_thread s" "asleep s' \<subseteq> asleep s"
    and cases: "if bkl_locked s then bkl_owner s' = bkl_owner s \<and> runnable s' = runnable s
          \<and> (\<exists>ts. bkl_blocked_list s' = bkl_blocked_list s @ ts)
        else (\<exists>w. bkl_owner s' = w \<and> runnable s' = runnable s \<union> set_option w \<and> set_option w \<subseteq> asleep s)"
    by auto
  show ?thesis
  proof (cases "bkl_locked s")
    case True
    with cases have f: "bkl_owner s' = bkl_owner s" "runnable s' = runnable s" "fifo_step s s'"
      by (auto simp: fifo_step_def)
    have "kconfig_inv (s', K)"
      unfolding kconfig_inv_def prod.case f s'(2) using i s'(1,3) by blast
    with f show ?thesis by simp
  next
    case False
    with kernel_inv_owner [OF i(1)] have no: "bkl_owner s = None" "bkl_blocked_list s = []" by auto
    from False cases have f: "runnable s' = runnable s \<union> set_option (bkl_owner s')"
      "set_option (bkl_owner s') \<subseteq> asleep s" by auto
    have "t \<notin> runnable s" if "t \<in> K" for t using i(2) [OF that] no by auto
    then have "kconfig_inv (s', K)"
      unfolding kconfig_inv_def prod.case f(1) s'(2) using i(4,5) s'(1,3) f(2) by fastforce
    with no show ?thesis by (simp add: fifo_step_def)
  qed
qed

lemma interrupt_wakeup_returns:
  assumes "kernel_inv s"
  shows "\<exists>s'. interrupt_handler (TaskWakeup r) s = Some s'"
proof -
  from assms obtain c where cur: "current_thread s = Some c" by (auto simp: kernel_inv_def current_ok_def)
  have top: "\<exists>s'. TaskWakeup r s = Some s' \<and> kernel_inv s' \<and> runnable s' = runnable s
         \<and> bkl_owner s' = bkl_owner s \<and> idle_thread s' = idle_thread s
         \<and> asleep s' = asleep s \<and> (\<exists>ts. bkl_blocked_list s' = bkl_blocked_list s @ ts)"
    if "kernel_inv s" "bkl_locked s" for s
    using TaskWakeup_ok [OF that, of r] by (auto simp: wake_frame_def lock_frame_def)
  from interrupt_handler_ok [OF assms cur top] show ?thesis by blast
qed

lemma leave_step:
  assumes inv: "kconfig_inv (s, K)" and cur: "current_thread s = Some c" and c: "c \<in> K"
    and s': "kernel_inv s'" "lock_frame s s'" "blocked_list s' = blocked_list s"
      "bkl_owner s' = hd_opt (bkl_blocked_list s)" "bkl_blocked_list s' = tl (bkl_blocked_list s)"
      "runnable s' - {c} = runnable s \<union> set_option (hd_opt (bkl_blocked_list s)) - {c}"
  shows "kconfig_inv (s', K - {c}) \<and> fifo_step s s'"
proof -
  note o = running_owner [OF inv cur c] and i = kconfig_invD [OF inv]
  have "c \<notin> asleep s" using kernel_inv_lists(5,6) [OF i(1) o(4)] by (auto simp: asleep_def)
  then have "asleep s' \<subseteq> K - {c}"
    using i(4) by (auto simp: asleep_def s' dest: set_tlD)
  with s' show ?thesis
    by (intro handover_step [OF inv cur c]) (auto simp: lock_frame_def)
qed

lemma sleep_step:
  assumes inv: "kconfig_inv (s, K)" and cur: "current_thread s = Some c" and c: "c \<in> K"
    and s': "kernel_inv s'" "idle_thread s' = idle_thread s"
      "blocked_list s' = (blocked_list s)(r := blocked_list s r @ [c])"
      "bkl_owner s' = hd_opt (bkl_blocked_list s)" "bkl_blocked_list s' = tl (bkl_blocked_list s)"
      "runnable s' = runnable s \<union> set_option (hd_opt (bkl_blocked_list s)) - {c}"
  shows "kconfig_inv (s', K) \<and> fifo_step s s'"
proof -
  have "asleep s' \<subseteq> insert c (asleep s)"
    by (auto simp: asleep_def s' split: if_splits dest: set_tlD)
  then have "asleep s' \<subseteq> K" using kconfig_invD(4) [OF inv] c by blast
  with s' show ?thesis by (intro handover_step [OF inv cur c]) auto
qed

lemma clock_step:
  assumes inv: "kconfig_inv (s, K)"
  shows "kconfig_inv (s\<lparr>monotonic_usec := now\<rparr>, K) \<and> fifo_step s (s\<lparr>monotonic_usec := now\<rparr>)"
proof -
  let ?s = "s\<lparr>monotonic_usec := now\<rparr>"
  have f: "kernel_inv ?s = kernel_inv s" "runnable ?s = runnable s" by (rule kernel_inv_cong; simp)+
  have g: "bkl_owner ?s = bkl_owner s" "asleep ?s = asleep s" "idle_thread ?s = idle_thread s"
    by (simp_all add: asleep_def)
  have "kconfig_inv (?s, K)" using inv unfolding kconfig_inv_def prod.case f g .
  then show ?thesis by (simp add: fifo_step_def)
qed

lemma kstep_inv:
  assumes "kstep (s, K) (s', K')" and inv: "kconfig_inv (s, K)"
  shows "kconfig_inv (s', K') \<and> fifo_step s s'"
proof -
  note i = kconfig_invD [OF inv] and o = running_owner [OF inv]
  show ?thesis using assms(1)
  proof cases
    case (syscall_enter c)
    with enter_step [OF inv, of c] show ?thesis by auto
  next
    case (syscall_leave c)
    with KernelUnlock_ok [OF i(1) o(2)] leave_step [OF inv, of c s'] show ?thesis by auto
  next
    case (sleep c r)
    with TaskSleep_ok [OF i(1) _ o(3,1), of c r] sleep_step [OF inv, of c s' r] show ?thesis
      by (auto simp: lock_frame_def)
  next
    case (sleep_interruptible c r ts flags out)
    with TaskSleepInterruptible_ok [OF i(1) _ o(3,1), of c r ts flags out s']
      sleep_step [OF inv, of c s' r] inv show ?thesis by (auto simp: fifo_step_def)
  next
    case (wakeup c r)
    with o(2) i(1) TaskWakeup_ok [of s r] wake_step [OF inv, of s'] show ?thesis by auto
  next
    case (wakeup_specific c th reason)
    with o(2) i(1) TaskWakeupSpecific_ok [of s th reason] wake_step [OF inv, of s'] show ?thesis
      by auto
  next
    case (wakeup_all c r)
    with o(2) i(1) TaskWakeupAll_ok [of s r] wake_step [OF inv, of s'] show ?thesis by auto
  next
    case (exit_thread c)
    with thread_stop_ok [OF i(1) _ o(3), of c] leave_step [OF inv, of c s'] show ?thesis by auto
  next
    case (create_thread c t policy prio p s1)
    with o(2) create_step [OF inv, of t policy prio p s1 s'] show ?thesis by auto
  next
    case (interrupt_wakeup r)
    with interrupt_step [OF inv] show ?thesis by auto
  next
    case (clock now)
    with clock_step [OF inv] show ?thesis by simp
  qed
qed

lemma kreach_inv:
  assumes "kreach s0 x" and "kernel_inv s0" "bkl_owner s0 = None" "asleep s0 = {}"
  shows "kconfig_inv x"
  using assms
proof (induction rule: kreach.induct)
  case kreach_init
  then show ?case by (simp add: kconfig_inv_def)
next
  case (kreach_step x y)
  then show ?case by (cases x; cases y) (auto dest: kstep_inv)
qed

section \<open>The booted kernel\<close>

definition booted_thread :: "thread_state \<Rightarrow> sched_policy \<Rightarrow> nat \<Rightarrow> thread" where
  "booted_thread st pol p = free_thread\<lparr>t_state := st, sched_policy := pol, priority := p,
     desired_priority := p\<rparr>"

definition booted :: kstate where
  "booted = init_tables\<lparr>
     threads := (threads init_tables)(
       0 := booted_thread THREAD_STATE_READY SCHED_RR 16,
       1 := booted_thread THREAD_STATE_READY SCHED_RR 16,
       2 := booted_thread THREAD_STATE_RUNNING SCHED_RR 31,
       3 := booted_thread THREAD_STATE_READY SCHED_IDLE 0),
     sched_queue := (sched_queue init_tables)(16 := [0, 1], 31 := [2]),
     sched_queue_bitmap := 0x80010000,
     current_thread := Some 2, current_process := Some 0, idle_thread := Some 3\<rparr>"

lemma booted_queue: "highest_queue 0x80010000 32 = Some 31"
  using highest_queue.simps(2) [of "0x80010000" 31] by simp

lemma boot_state_eq: "boot_state = Some booted"
  by (simp add: boot_state_def init_processes_def init_schedparams_def init_thread_def thread_start_def
      SchedReady_def set_queue_bit_def upd_queue_def upd_thread_def upd_blocked_def start_scheduler_def
      booted_queue init_tables_def booted_def booted_thread_def free_thread_def)
    (auto simp: fun_eq_iff)

lemma booted_inv: "kernel_inv booted" "bkl_owner booted = None" "asleep booted = {}"
proof -
  have run: "runnable booted = {0, 1, 2, 3}"
    by (auto simp: runnable_def booted_def init_tables_def booted_thread_def free_thread_def
        split: if_splits)
  have "queues_rep {0, 1, 2, 3} booted"
    by (auto simp: queues_rep_def booted_def init_tables_def booted_thread_def free_thread_def
        queued_policy_def prio_ok_def split: if_splits)
  then show "kernel_inv booted"
    unfolding kernel_defs run
    by (auto simp: booted_def init_tables_def booted_thread_def free_thread_def hd_opt_def
        split: if_splits)
  show "bkl_owner booted = None" "asleep booted = {}"
    by (simp_all add: booted_def init_tables_def asleep_def)
qed

lemma kreach_booted:
  assumes "boot_state = Some s0" "kreach s0 x"
  shows "kconfig_inv x"
proof -
  from assms(1) have "s0 = booted" by (simp add: boot_state_eq)
  with kreach_inv [OF assms(2)] booted_inv show ?thesis by simp
qed

lemma booted_enter: "kreach booted (booted\<lparr>bkl_locked := True, bkl_owner := Some 2\<rparr>, {2})"
proof -
  have "kstep (booted, {}) (booted\<lparr>bkl_locked := True, bkl_owner := Some 2\<rparr>, insert 2 {})"
    by (rule syscall_enter) (simp_all add: booted_def init_tables_def KernelLock_def)
  with kreach_step [OF kreach_init] show ?thesis by blast
qed

text \<open>A thread of the booted kernel asleep on a condition variable while another is in the kernel.\<close>

lemma asleep_on:
  "\<exists>k. kernel_inv k \<and> bkl_locked k \<and> blocked_list k r = [2] \<and> (\<forall>r'. r' \<noteq> r \<longrightarrow> blocked_list k r' = []) \<and> bkl_blocked_list k = []"
proof -
  let ?s = "booted\<lparr>bkl_locked := True, bkl_owner := Some 2\<rparr>"
  have inv: "kernel_inv ?s" using kconfig_invD(1) [OF kreach_booted [OF boot_state_eq booted_enter]] .
  have "\<exists>s'. kernel_inv s' \<and> bkl_owner s' = None \<and> blocked_list s' = (\<lambda>_. [])(r := [2]) \<and> bkl_blocked_list s' = []"
    using TaskSleep_ok [OF inv, of 2 r] by (auto simp: booted_def init_tables_def)
  then obtain s' where s': "kernel_inv s'" "bkl_owner s' = None" "blocked_list s' = (\<lambda>_. [])(r := [2])" "bkl_blocked_list s' = []" by blast
  then obtain c where c: "current_thread s' = Some c" "\<not> bkl_locked s'"
    by (auto simp: kernel_inv_def kernel_wf_def current_ok_def lock_ok_def split: option.splits)
  then show ?thesis using KernelLock_ok [OF s'(1) c(1)] s' by auto
qed







section \<open>Changing the scheduling policy\<close>

lemma sched_change_ok:
  assumes inv: "kernel_inv s" and cur: "current_thread s = Some c"
    and idle: "idle_thread s \<noteq> Some c"
    and prio: "policy \<in> {SCHED_RR, SCHED_FIFO} \<and> 16 \<le> p \<and> p < 32 \<or> policy = SCHED_OTHER \<and> p < 16"
  shows "\<exists>s'. sched_change c policy p s = Some s' \<and> kernel_inv s' \<and> runnable s' = runnable s
     \<and> sched_policy (threads s' c) = policy \<and> desired_priority (threads s' c) = p
     \<and> (\<forall>t. t \<noteq> c \<longrightarrow> sched_policy (threads s' t) = sched_policy (threads s t))
     \<and> bkl_owner s' = bkl_owner s \<and> bkl_blocked_list s' = bkl_blocked_list s
     \<and> blocked_list s' = blocked_list s"
proof -
  from inv have ok: "queues_rep (runnable s) s" "lists_ok s" "lock_ok s" "idle_ok s" "current_ok s"
    by (auto simp: kernel_inv_def kernel_wf_def)
  from ok(5) cur have cR: "c \<in> runnable s" by (auto simp: current_ok_def)
  from SchedUnready_ok [OF ok(1) cR] obtain s1 where
    s1: "SchedUnready c s = Some s1" "queues_rep (runnable s - {c}) s1" "sched_frame s s1"
      "threads_keep s s1" "\<And>u. t_state (threads s1 u) = t_state (threads s u)"
      "\<And>u. u \<noteq> c \<Longrightarrow> threads s1 u = threads s u" "current_thread s1 = current_thread s" by blast
  let ?s2 = "upd_thread c (\<lambda>th. th\<lparr>sched_policy := policy, desired_priority := p, priority := p\<rparr>) s1"
  have "queues_rep (runnable s - {c}) ?s2"
    using s1(2) by (auto simp: queues_rep_def)
  moreover have "prio_ok (threads ?s2 c)" using prio by (auto simp: prio_ok_def)
  ultimately obtain s3 where
    s3: "SchedReady c ?s2 = Some s3" "queues_rep (insert c (runnable s - {c})) s3"
      "sched_frame ?s2 s3" "threads s3 = (threads ?s2)(c := (threads ?s2 c)\<lparr>quanta_used := 0\<rparr>)"
      "current_thread s3 = current_thread ?s2"
    using SchedReady_ok [of "runnable s - {c}" ?s2 c] by auto
  note fr = sched_frameD [OF s3(3)] and fr1 = sched_frameD [OF s1(3)]
  have run: "runnable s3 = runnable s" by (auto simp: runnable_def s3(4) s1(5))
  have th: "t \<noteq> c \<Longrightarrow> threads s3 t = threads s t" for t by (simp add: s3(4) s1(6))
  have c3: "t_state (threads s3 c) = t_state (threads s c)" "sched_policy (threads s3 c) = policy"
    "blocking_rendez (threads s3 c) = blocking_rendez (threads s c)"
    "desired_priority (threads s3 c) = p" "quanta_used (threads s3 c) = 0" "priority (threads s3 c) = p"
    by (simp_all add: s3(4) s1(5) threads_keepD [OF s1(4)])
  have "kernel_wf s3"
    unfolding kernel_wf_def
  proof (intro conjI)
    show "queues_rep (runnable s3) s3" using s3(2) cR by (simp add: run insert_absorb)
    have "t_state (threads s3 t) = t_state (threads s t)
        \<and> blocking_rendez (threads s3 t) = blocking_rendez (threads s t)" for t
      using th [of t] c3 by (cases "t = c") auto
    moreover have "prio_ok (threads s3 t)" if "t_state (threads s t) \<in> {THREAD_STATE_BKL_BLOCKED, THREAD_STATE_RENDEZ_BLOCKED}" for t
      using that th [of t] cR ok(2) by (cases "t = c") (auto simp: runnable_def lists_ok_def)
    ultimately show "lists_ok s3" using ok(2) unfolding lists_ok_def fr by (simp add: fr1)
    show "lock_ok s3" using ok(3) unfolding lock_ok_def run fr by (auto simp: fr1)
    show "idle_ok s3" using ok(4) idle th unfolding idle_ok_def run by (auto simp: fr fr1)
  qed
  moreover have "resched_pre (runnable s3) s3"
    using cur c3 prio ok(4) by (auto simp: resched_pre_def s3(5) s1(7) fr fr1 prio_ok_def
        SCHED_QUANTA_JIFFIES_def idle_ok_def)
  ultimately obtain s' where
    s': "Reschedule s3 = Some s'" "kernel_inv s'" "runnable s' = runnable s3" "sched_frame s3 s'"
      "threads_keep s3 s'" using Reschedule_inv by blast
  note fr' = sched_frameD [OF s'(4)] and kp = threads_keepD [OF s'(5)]
  have "sched_change c policy p s = Some s'" by (simp add: sched_change_def s1(1) s3(1) s'(1))
  with s' show ?thesis using th by (auto simp: run kp c3 fr' fr fr1)
qed

text \<open>
  C5. \<open>sys_thread_setschedparams\<close> never panics and keeps the invariant of the kernel. A
  real-time policy needs the privilege and a priority of 16 to 31, \<open>SCHED_OTHER\<close> a priority
  of 0 to 15; then the caller gets the policy and priority asked for, and otherwise it gets
  \<open>EPERM\<close> or \<open>EINVAL\<close> and nothing changes.
\<close>

theorem sys_thread_setschedparams_correct:
  assumes inv: "kernel_inv s" and cur: "current_thread s = Some c"
    and idle: "idle_thread s \<noteq> Some c"
  shows "\<exists>res s'. sys_thread_setschedparams privileged policy prio s = Some (res, s') \<and> kernel_inv s'
     \<and> (if policy \<in> {SCHED_RR, SCHED_FIFO} \<and> \<not> privileged then res = Inl EPERM \<and> s' = s
        else if policy \<in> {SCHED_RR, SCHED_FIFO} \<and> 16 \<le> prio \<and> prio \<le> 31
             \<or> policy = SCHED_OTHER \<and> 0 \<le> prio \<and> prio \<le> 15
        then res = Inr () \<and> sched_policy (threads s' c) = policy
             \<and> desired_priority (threads s' c) = nat prio \<and> bkl_owner s' = bkl_owner s
             \<and> (\<forall>t. t \<noteq> c \<longrightarrow> sched_policy (threads s' t) = sched_policy (threads s t))
        else res = Inl EINVAL \<and> s' = s)"
  using inv cur sched_change_ok [OF inv cur idle, of policy "nat prio"]
  by (cases policy) (auto simp: sys_thread_setschedparams_def nat_less_iff le_nat_iff)

theorem sys_thread_setschedparams_correct_witness:
  "kernel_inv booted \<and> current_thread booted = Some 2 \<and> idle_thread booted \<noteq> Some 2
   \<and> (\<exists>s'. sys_thread_setschedparams True SCHED_FIFO 20 booted = Some (Inr (), s')
        \<and> sched_policy (threads s' 2) = SCHED_FIFO \<and> desired_priority (threads s' 2) = 20)"
proof -
  have b: "current_thread booted = Some 2" "idle_thread booted \<noteq> Some 2" by (simp_all add: booted_def)
  from sys_thread_setschedparams_correct [OF booted_inv(1) b, of True SCHED_FIFO 20] b booted_inv(1)
  show ?thesis by auto
qed

end
