(* ===== verification/Cred.thy ===== *)
theory Cred
  imports Prelude
begin

text \<open>
  User, group and privilege state of a process (\<open>proc/id.c\<close>, \<open>proc/privileges.c\<close>).
  The identifiers are \<open>int\<close>s, as the fields of \<open>struct Process\<close> are. \<open>UID_MAX\<close>,
  \<open>GID_MAX\<close>, \<open>NGROUPS_MAX\<close> and the values of the privilege requests come from headers of the
  C library and are arguments. What \<open>copyin\<close> reads is an argument too: the data, or the part
  that was copied before it failed.
\<close>

unbundle bit_operations_syntax

section \<open>State\<close>

definition SUPERUSER :: int where "SUPERUSER = 0"

definition NGROUPS :: nat where "NGROUPS = 8"

record cred =
  uid :: int
  gid :: int
  euid :: int
  egid :: int
  suid :: int
  sgid :: int
  ngroups :: int
  groups :: "int list"
  privileges :: u64
  privileges_after_exec :: u64

section \<open>User and group identifiers\<close>

definition sys_getuid :: "cred \<Rightarrow> int" where "sys_getuid p = uid p"

definition sys_getgid :: "cred \<Rightarrow> int" where "sys_getgid p = gid p"

definition sys_geteuid :: "cred \<Rightarrow> int" where "sys_geteuid p = euid p"

definition sys_getegid :: "cred \<Rightarrow> int" where "sys_getegid p = egid p"

definition sys_setuid :: "int \<Rightarrow> int \<Rightarrow> cred \<Rightarrow> unit result \<times> cred" where
  "sys_setuid UID_MAX u p =
     (if u < 0 \<or> u > UID_MAX then (Inl EINVAL, p)
      else if uid p \<noteq> u \<or> euid p \<noteq> SUPERUSER then (Inl EPERM, p)
      else (Inr (), p\<lparr>uid := u, euid := u, suid := u\<rparr>))"

definition sys_setgid :: "int \<Rightarrow> int \<Rightarrow> cred \<Rightarrow> unit result \<times> cred" where
  "sys_setgid GID_MAX g p =
     (if g < 0 \<or> g > GID_MAX then (Inl EINVAL, p)
      else if gid p \<noteq> g \<or> euid p \<noteq> SUPERUSER then (Inl EPERM, p)
      else (Inr (), p\<lparr>gid := g, egid := g, sgid := g\<rparr>))"

definition sys_seteuid :: "int \<Rightarrow> int \<Rightarrow> cred \<Rightarrow> unit result \<times> cred" where
  "sys_seteuid UID_MAX u p =
     (if u < 0 \<or> u > UID_MAX then (Inl EINVAL, p)
      else if (uid p \<noteq> u \<and> suid p \<noteq> u) \<or> euid p \<noteq> SUPERUSER then (Inl EPERM, p)
      else (Inr (), p\<lparr>euid := u\<rparr>))"

definition sys_setegid :: "int \<Rightarrow> int \<Rightarrow> cred \<Rightarrow> unit result \<times> cred" where
  "sys_setegid GID_MAX g p =
     (if g < 0 \<or> g > GID_MAX then (Inl EINVAL, p)
      else if (gid p \<noteq> g \<and> sgid p \<noteq> g) \<or> euid p \<noteq> SUPERUSER then (Inl EPERM, p)
      else (Inr (), p\<lparr>egid := g\<rparr>))"

definition sys_issetugid :: "cred \<Rightarrow> int" where "sys_issetugid p = 0"

definition setreuid :: "int \<Rightarrow> int \<Rightarrow> cred \<Rightarrow> unit result \<times> cred" where
  "setreuid ruid' euid' p =
     (if ruid' < 0 \<or> euid' < 0 then (Inl EINVAL, p)
      else if euid p = SUPERUSER
           \<or> (ruid' = uid p \<or> ruid' = euid p) \<and> (euid' = uid p \<or> euid' = euid p)
      then (let p1 = (if ruid' \<noteq> -1 then p\<lparr>uid := ruid'\<rparr> else p)
            in (Inr (), if euid' \<noteq> -1 then p1\<lparr>euid := euid'\<rparr> else p1))
      else (Inl EPERM, p))"

definition setregid :: "int \<Rightarrow> int \<Rightarrow> cred \<Rightarrow> unit result \<times> cred" where
  "setregid rgid' egid' p =
     (if euid p = SUPERUSER
         \<or> (rgid' = gid p \<or> rgid' = egid p) \<and> (egid' = gid p \<or> egid' = egid p)
      then (let p1 = (if rgid' \<noteq> -1 then p\<lparr>gid := rgid'\<rparr> else p)
            in (Inr (), if egid' \<noteq> -1 then p1\<lparr>egid := egid'\<rparr> else p1))
      else (Inl EPERM, p))"

definition setresuid :: "int \<Rightarrow> int \<Rightarrow> int \<Rightarrow> cred \<Rightarrow> unit result \<times> cred" where
  "setresuid ruid' euid' suid' p =
     (if euid p = SUPERUSER
         \<or> (ruid' = uid p \<or> ruid' = euid p \<or> ruid' = suid p)
           \<and> (euid' = uid p \<or> euid' = euid p \<or> euid' = suid p)
           \<and> (suid' = uid p \<or> suid' = euid p \<or> suid' = suid p)
      then (let p1 = (if ruid' \<noteq> -1 then p\<lparr>uid := ruid'\<rparr> else p);
                p2 = (if euid' \<noteq> -1 then p1\<lparr>euid := euid'\<rparr> else p1)
            in (Inr (), if suid' \<noteq> -1 then p2\<lparr>suid := suid'\<rparr> else p2))
      else (Inl EPERM, p))"

definition setresgid :: "int \<Rightarrow> int \<Rightarrow> int \<Rightarrow> cred \<Rightarrow> unit result \<times> cred" where
  "setresgid rgid' egid' sgid' p =
     (if euid p = SUPERUSER
         \<or> (rgid' = gid p \<or> rgid' = egid p \<or> rgid' = sgid p)
           \<and> (egid' = gid p \<or> egid' = egid p \<or> egid' = sgid p)
           \<and> (sgid' = gid p \<or> sgid' = egid p \<or> sgid' = sgid p)
      then (let p1 = (if rgid' \<noteq> -1 then p\<lparr>gid := rgid'\<rparr> else p);
                p2 = (if egid' \<noteq> -1 then p1\<lparr>egid := egid'\<rparr> else p1)
            in (Inr (), if sgid' \<noteq> -1 then p2\<lparr>sgid := sgid'\<rparr> else p2))
      else (Inl EPERM, p))"

text \<open>
  What \<open>getresuid\<close> and \<open>getresgid\<close> copy out: one value for each pointer that is not null. The
  result of \<open>copyout\<close> is ignored.
\<close>

definition getresuid :: "bool \<Rightarrow> bool \<Rightarrow> bool \<Rightarrow> cred \<Rightarrow> int option \<times> int option \<times> int option" where
  "getresuid r e s p =
     (if r then Some (uid p) else None, if e then Some (euid p) else None,
      if s then Some (suid p) else None)"

definition getresgid :: "bool \<Rightarrow> bool \<Rightarrow> bool \<Rightarrow> cred \<Rightarrow> int option \<times> int option \<times> int option" where
  "getresgid r e s p =
     (if r then Some (gid p) else None, if e then Some (egid p) else None,
      if s then Some (sgid p) else None)"

section \<open>Supplementary groups\<close>

text \<open>Store a run of values at the front of \<open>groups\<close>; past its end memory is corrupted.\<close>

definition write_groups :: "int list \<Rightarrow> cred \<Rightarrow> cred option" where
  "write_groups xs p =
     (if length xs \<le> length (groups p)
      then Some (p\<lparr>groups := xs @ drop (length xs) (groups p)\<rparr>) else None)"

text \<open>The argument \<open>grouplist\<close> is \<open>None\<close> for a null pointer.\<close>

definition sys_setgroups ::
    "nat \<Rightarrow> int \<Rightarrow> int \<Rightarrow> (int list + int list) option \<Rightarrow> cred \<Rightarrow> (unit result \<times> cred) option" where
  "sys_setgroups NGROUPS_MAX GID_MAX n grouplist p =
     (if n < 0 \<or> n > int NGROUPS_MAX then Some (Inl EINVAL, p)
      else if n > 0 \<and> grouplist = None then Some (Inl EFAULT, p)
      else
        (let p0 = p\<lparr>ngroups := 0\<rparr>;
             zero_rest = (\<lambda>p1.
               (if \<exists>i < nat n. groups p1 ! i < 0 \<or> groups p1 ! i > GID_MAX
                then Some (Inl EINVAL, p1)
                else do {
                  p2 \<leftarrow> write_groups (take (nat n) (groups p1) @ replicate (NGROUPS_MAX - nat n) 0) p1;
                  Some (Inr (), p2\<lparr>ngroups := n\<rparr>) }))
         in if n > 0
            then (case grouplist of
                    Some (Inl part) \<Rightarrow> do { p1 \<leftarrow> write_groups part p0; Some (Inl EFAULT, p1) }
                  | Some (Inr xs) \<Rightarrow> do { p1 \<leftarrow> write_groups xs p0; zero_rest p1 }
                  | None \<Rightarrow> None)
            else zero_rest p0))"

text \<open>
  \<open>copyout_ok\<close> says whether the user buffer could be written; the values written are
  returned with the result. Reading past the end of \<open>groups\<close> is \<open>None\<close>.
\<close>

definition sys_getgroups ::
    "nat \<Rightarrow> int \<Rightarrow> bool \<Rightarrow> cred \<Rightarrow> (int result \<times> int list) option" where
  "sys_getgroups NGROUPS_MAX gidsetsize copyout_ok p =
     (if gidsetsize < 0 \<or> gidsetsize > int NGROUPS_MAX then Some (Inl EINVAL, [])
      else if gidsetsize = 0 then Some (Inr (ngroups p), [])
      else if gidsetsize < ngroups p then Some (Inl EINVAL, [])
      else if nat gidsetsize > length (groups p) then None
      else if \<not> copyout_ok then Some (Inl EFAULT, [])
      else Some (Inr (ngroups p), take (nat gidsetsize) (groups p)))"

definition init_ids :: "cred \<Rightarrow> cred" where
  "init_ids p = p\<lparr>ngroups := 0, groups := replicate NGROUPS 0, uid := 0, gid := 0, euid := 0,
     egid := 0, suid := 0, sgid := 0\<rparr>"

definition fork_ids :: "cred \<Rightarrow> cred \<Rightarrow> cred" where
  "fork_ids new old = new\<lparr>ngroups := ngroups old, groups := groups old, uid := uid old,
     gid := gid old, euid := euid old, egid := egid old, suid := suid old, sgid := sgid old\<rparr>"

definition is_superuser :: "cred \<Rightarrow> bool" where
  "is_superuser p \<longleftrightarrow> uid p = SUPERUSER"

section \<open>Privileges\<close>

text \<open>
  \<open>set_ptr\<close> is \<open>None\<close> for a null pointer, \<open>Some None\<close> when \<open>copyin\<close> fails. The last component
  of the result is what is copied out.
\<close>

definition sys_set_privileges ::
    "int \<Rightarrow> int \<Rightarrow> int \<Rightarrow> u64 option option \<Rightarrow> bool \<Rightarrow> cred \<Rightarrow> unit result \<times> cred \<times> u64 option" where
  "sys_set_privileges PRIV_NOW PRIV_AFTER_EXEC when_arg set_ptr result_ptr p =
     (case set_ptr of
        None \<Rightarrow> (Inl EINVAL, p, None)
      | Some None \<Rightarrow> (Inl EFAULT, p, None)
      | Some (Some allowed) \<Rightarrow>
          if when_arg = PRIV_NOW then
            (let p1 = p\<lparr>privileges := privileges p AND allowed\<rparr>
             in (Inr (), p1, if result_ptr then Some (privileges p1) else None))
          else if when_arg = PRIV_AFTER_EXEC then
            (let p1 = p\<lparr>privileges_after_exec := privileges_after_exec p AND allowed\<rparr>
             in (Inr (), p1, if result_ptr then Some (privileges_after_exec p1) else None))
          else (Inl EINVAL, p, None))"

text \<open>The test of the privilege bits is compiled out.\<close>

definition check_privileges :: "cred \<Rightarrow> u64 \<Rightarrow> unit result" where
  "check_privileges p bits = Inr ()"

definition fork_privileges :: "cred \<Rightarrow> cred \<Rightarrow> cred" where
  "fork_privileges new parent = new\<lparr>privileges := privileges parent,
     privileges_after_exec := privileges parent\<rparr>"

definition init_privileges :: "u64 \<Rightarrow> cred \<Rightarrow> cred" where
  "init_privileges PRIV_PERMIT_ALL p = p\<lparr>privileges := PRIV_PERMIT_ALL,
     privileges_after_exec := PRIV_PERMIT_ALL\<rparr>"

definition exec_privileges :: "cred \<Rightarrow> cred" where
  "exec_privileges p =
     (let p1 = p\<lparr>privileges := privileges p AND privileges_after_exec p\<rparr>
      in p1\<lparr>privileges_after_exec := privileges p1\<rparr>)"

section \<open>Sequences of calls\<close>

text \<open>The calls that change the identifiers and privileges of the calling process.\<close>

datatype cred_call =
    Setuid int | Setgid int | Seteuid int | Setegid int
  | Setreuid int int | Setregid int int
  | Setresuid int int int | Setresgid int int int
  | Setgroups int "(int list + int list) option"
  | Set_privileges int "u64 option option"
  | Exec

fun cred_call_step :: "int \<Rightarrow> int \<Rightarrow> nat \<Rightarrow> int \<Rightarrow> int \<Rightarrow> cred_call \<Rightarrow> cred \<Rightarrow> cred option" where
  "cred_call_step umax gmax nmax now after (Setuid u) p = Some (snd (sys_setuid umax u p))"
| "cred_call_step umax gmax nmax now after (Setgid g) p = Some (snd (sys_setgid gmax g p))"
| "cred_call_step umax gmax nmax now after (Seteuid u) p = Some (snd (sys_seteuid umax u p))"
| "cred_call_step umax gmax nmax now after (Setegid g) p = Some (snd (sys_setegid gmax g p))"
| "cred_call_step umax gmax nmax now after (Setreuid r e) p = Some (snd (setreuid r e p))"
| "cred_call_step umax gmax nmax now after (Setregid r e) p = Some (snd (setregid r e p))"
| "cred_call_step umax gmax nmax now after (Setresuid r e s) p = Some (snd (setresuid r e s p))"
| "cred_call_step umax gmax nmax now after (Setresgid r e s) p = Some (snd (setresgid r e s p))"
| "cred_call_step umax gmax nmax now after (Setgroups n g) p =
     map_option snd (sys_setgroups nmax gmax n g p)"
| "cred_call_step umax gmax nmax now after (Set_privileges w allowed) p =
     Some (fst (snd (sys_set_privileges now after w allowed True p)))"
| "cred_call_step umax gmax nmax now after Exec p = Some (exec_privileges p)"

fun cred_calls :: "int \<Rightarrow> int \<Rightarrow> nat \<Rightarrow> int \<Rightarrow> int \<Rightarrow> cred_call list \<Rightarrow> cred \<Rightarrow> cred option" where
  "cred_calls umax gmax nmax now after [] p = Some p"
| "cred_calls umax gmax nmax now after (c # cs) p =
     Option.bind (cred_call_step umax gmax nmax now after c p)
       (cred_calls umax gmax nmax now after cs)"

lemmas cred_id_defs = sys_setuid_def sys_setgid_def sys_seteuid_def sys_setegid_def setreuid_def
  setregid_def setresuid_def setresgid_def

definition uids :: "cred \<Rightarrow> int set" where "uids p = {uid p, euid p, suid p}"

lemma write_groups_frame:
  "write_groups xs p = Some p' \<Longrightarrow> p' = p\<lparr>groups := groups p'\<rparr> \<and> length (groups p') = length (groups p)"
  by (auto simp: write_groups_def split: if_splits)

lemma write_groups_ids:
  "write_groups xs p = Some p' \<Longrightarrow> uid p' = uid p \<and> euid p' = euid p \<and> suid p' = suid p
     \<and> privileges p' = privileges p \<and> privileges_after_exec p' = privileges_after_exec p"
  by (auto simp: write_groups_def split: if_splits)

lemma sys_setgroups_ids:
  "sys_setgroups nmax gmax n g p = Some (r, p') \<Longrightarrow>
     uid p' = uid p \<and> euid p' = euid p \<and> suid p' = suid p
     \<and> privileges p' = privileges p \<and> privileges_after_exec p' = privileges_after_exec p"
  by (auto simp: sys_setgroups_def Let_def bind_eq_Some_conv
      dest!: write_groups_ids split: if_splits option.splits sum.splits)

text \<open>What each call does to the user ids of a process that is not the superuser.\<close>

lemma id_call_uids:
  assumes "euid p \<noteq> SUPERUSER"
  shows "uids (snd (sys_setuid m u p)) \<subseteq> uids p" "uids (snd (sys_seteuid m u p)) \<subseteq> uids p"
    "uids (snd (setreuid r e p)) \<subseteq> uids p" "uids (snd (setresuid r e u p)) \<subseteq> uids p"
    "uids (snd (sys_setgid m u p)) \<subseteq> uids p" "uids (snd (sys_setegid m u p)) \<subseteq> uids p"
    "uids (snd (setregid r e p)) \<subseteq> uids p" "uids (snd (setresgid r e u p)) \<subseteq> uids p"
  using assms by (simp_all add: cred_id_defs uids_def Let_def, blast+)

lemmas id_call_uidsD = id_call_uids [THEN subsetD]

lemma id_call_privileges:
  "privileges (snd (sys_setuid m u p)) = privileges p"
  "privileges (snd (sys_seteuid m u p)) = privileges p"
  "privileges (snd (setreuid r e p)) = privileges p"
  "privileges (snd (setresuid r e u p)) = privileges p"
  "privileges (snd (sys_setgid m u p)) = privileges p"
  "privileges (snd (sys_setegid m u p)) = privileges p"
  "privileges (snd (setregid r e p)) = privileges p"
  "privileges (snd (setresgid r e u p)) = privileges p"
  by (simp_all add: cred_id_defs Let_def)

lemma privilege_call_frame:
  "uids (fst (snd (sys_set_privileges now after w ptr res p))) = uids p"
  "uids (exec_privileges p) = uids p"
  "bit (privileges (fst (snd (sys_set_privileges now after w ptr res p)))) n \<Longrightarrow> bit (privileges p) n"
  "bit (privileges (exec_privileges p)) n \<Longrightarrow> bit (privileges p) n"
  by (auto simp: uids_def sys_set_privileges_def exec_privileges_def Let_def bit_and_iff
      split: option.splits if_splits)

lemma cred_call_step_uids:
  assumes "cred_call_step umax gmax nmax now after c p = Some p'" and "euid p \<noteq> SUPERUSER"
  shows "uids p' \<subseteq> uids p"
proof (cases c)
  case (Setgroups n g)
  with assms(1) show ?thesis by (auto simp: uids_def dest: sys_setgroups_ids)
qed (use assms in \<open>auto simp: privilege_call_frame(1,2) dest: id_call_uidsD\<close>)

lemma cred_call_step_privileges:
  assumes "cred_call_step umax gmax nmax now after c p = Some p'" and "bit (privileges p') n"
  shows "bit (privileges p) n"
proof (cases c)
  case (Setgroups n g)
  with assms show ?thesis by (auto dest: sys_setgroups_ids)
qed (use assms in \<open>auto simp: id_call_privileges dest: privilege_call_frame(3,4)\<close>)

lemma cred_calls_uids:
  assumes "cred_calls umax gmax nmax now after cs p = Some p'" and "SUPERUSER \<notin> uids p"
  shows "uids p' \<subseteq> uids p"
  using assms
proof (induction cs arbitrary: p)
  case (Cons c cs)
  then obtain p1 where p1: "cred_call_step umax gmax nmax now after c p = Some p1"
      "cred_calls umax gmax nmax now after cs p1 = Some p'" by (auto simp: bind_eq_Some_conv)
  from Cons.prems(2) have "euid p \<noteq> SUPERUSER" by (auto simp: uids_def)
  with p1(1) have sub: "uids p1 \<subseteq> uids p" by (rule cred_call_step_uids)
  with Cons.prems(2) have "SUPERUSER \<notin> uids p1" by blast
  with Cons.IH [OF p1(2)] sub show ?case by blast
qed simp

section \<open>Properties\<close>

text \<open>
  C6. No call sequence makes a process the superuser. A process none of whose real, effective
  and saved user ids is the superuser's keeps ids from that set, whatever sequence of the
  identifier, group and privilege calls it makes.
\<close>

theorem no_uid_escalation:
  assumes "cred_calls umax gmax nmax now after cs p = Some p'"
    and "SUPERUSER \<notin> {uid p, euid p, suid p}"
  shows "{uid p', euid p', suid p'} \<subseteq> {uid p, euid p, suid p} \<and> euid p' \<noteq> SUPERUSER
     \<and> \<not> is_superuser p'"
  using cred_calls_uids [OF assms(1)] assms(2) by (auto simp: uids_def is_superuser_def)

definition plain_user :: cred where
  "plain_user = \<lparr>uid = 100, gid = 10, euid = 101, egid = 10, suid = 102, sgid = 10, ngroups = 0,
     groups = replicate 8 0, privileges = 15, privileges_after_exec = 15\<rparr>"

theorem no_uid_escalation_witness:
  "\<exists>p'. cred_calls 60000 60000 8 1 2 [Setresuid 101 102 100, Seteuid 0, Setuid 0] plain_user = Some p'
     \<and> uid p' = 101 \<and> \<not> is_superuser p'"
proof -
  have "cred_calls 60000 60000 8 1 2 [Setresuid 101 102 100, Seteuid 0, Setuid 0] plain_user
      = Some (plain_user\<lparr>uid := 101, euid := 102, suid := 100\<rparr>)"
    by (simp add: cred_id_defs plain_user_def SUPERUSER_def)
  moreover from no_uid_escalation [OF this] have "\<not> is_superuser (plain_user\<lparr>uid := 101, euid := 102, suid := 100\<rparr>)"
    by (simp add: plain_user_def SUPERUSER_def)
  ultimately show ?thesis by simp
qed

text \<open>
  C7. Privileges only shrink. Whatever sequence of calls and executions of new programs a
  process makes, every privilege it ends with is one it had.
\<close>

theorem privileges_only_shrink:
  assumes "cred_calls umax gmax nmax now after cs p = Some p'"
  shows "privileges p' AND privileges p = privileges p'"
proof -
  have "bit (privileges p) n" if "bit (privileges p') n" for n
    using assms that
  proof (induction cs arbitrary: p)
    case (Cons c cs)
    then show ?case by (auto simp: bind_eq_Some_conv dest: cred_call_step_privileges)
  qed simp
  then show ?thesis by (auto intro!: bit_eqI simp: bit_and_iff)
qed

theorem privileges_only_shrink_witness:
  "cred_calls 60000 60000 8 1 2 [Set_privileges 2 (Some (Some 6)), Exec] plain_user
     = Some (plain_user\<lparr>privileges := 6, privileges_after_exec := 6\<rparr>) \<and> (6 AND 15 :: u64) = 6"
proof -
  have *: "cred_calls 60000 60000 8 1 2 [Set_privileges 2 (Some (Some 6)), Exec] plain_user
     = Some (plain_user\<lparr>privileges := 6, privileges_after_exec := 6\<rparr>)"
    by (simp add: sys_set_privileges_def exec_privileges_def plain_user_def)
  with privileges_only_shrink [OF *] show ?thesis by (simp add: plain_user_def)
qed

text \<open>
  A program can leave the privilege set it was confined to for its next execution by
  forking first: \<open>fork_privileges\<close> copies \<open>privileges\<close>, not \<open>privileges_after_exec\<close>, into the
  child's \<open>privileges_after_exec\<close>, so the confinement of the parent is gone in the child.
\<close>

theorem fork_drops_exec_confinement:
  "let p1 = fst (snd (sys_set_privileges 1 2 2 (Some (Some 0)) False plain_user));
       child = fork_privileges p1 p1
   in privileges (exec_privileges p1) = 0 \<and> privileges (exec_privileges child) = 15"
  by (simp add: sys_set_privileges_def exec_privileges_def fork_privileges_def plain_user_def)

lemma sys_setgroups_valid:
  assumes "nmax \<le> length (groups p)" and "length xs \<le> nmax"
    and "\<forall>g \<in> set xs. 0 \<le> g \<and> g \<le> gmax"
  shows "sys_setgroups nmax gmax (int (length xs)) (Some (Inr xs)) p
     = Some (Inr (), p\<lparr>groups := xs @ replicate (nmax - length xs) 0 @ drop nmax (groups p),
                       ngroups := int (length xs)\<rparr>)"
proof -
  have ok: "\<not> (\<exists>i < length xs. (xs @ ys) ! i < 0 \<or> gmax < (xs @ ys) ! i)" for ys
    using assms(3) by (auto simp: nth_append dest: bspec [OF _ nth_mem])
  have "xs \<noteq> [] \<Longrightarrow> ?thesis"
    using assms(1,2) ok [of "drop (length xs) (groups p)"]
    by (auto simp: sys_setgroups_def write_groups_def Let_def)
  moreover have "xs = [] \<Longrightarrow> ?thesis"
    using assms(1) by (auto simp: sys_setgroups_def write_groups_def Let_def)
  ultimately show ?thesis by blast
qed

text \<open>
  Supplementary groups round trip: after \<open>sys_setgroups\<close> stored a list of valid groups,
  \<open>sys_getgroups\<close> with room for all of them returns their number and the list, provided
  \<open>NGROUPS_MAX\<close> is not larger than the array of the process.
\<close>

theorem groups_roundtrip:
  assumes "nmax \<le> length (groups p)" and "length xs \<le> nmax" and "xs \<noteq> []"
    and "\<forall>g \<in> set xs. 0 \<le> g \<and> g \<le> gmax"
  shows "\<exists>p'. sys_setgroups nmax gmax (int (length xs)) (Some (Inr xs)) p = Some (Inr (), p')
     \<and> sys_getgroups nmax (int (length xs)) True p' = Some (Inr (int (length xs)), xs)"
  using sys_setgroups_valid [OF assms(1,2,4)] assms(1-3) by (simp add: sys_getgroups_def)

theorem groups_roundtrip_witness:
  "(8 :: nat) \<le> length (groups plain_user)
   \<and> (\<exists>p'. sys_setgroups 8 60000 3 (Some (Inr [5, 6, 7])) plain_user = Some (Inr (), p')
        \<and> sys_getgroups 8 3 True p' = Some (Inr 3, [5, 6, 7]))"
  using groups_roundtrip [of 8 plain_user "[5, 6, 7]" 60000] by (simp add: plain_user_def)

end
