(* ===== verification/Fs_State.thy ===== *)
theory Fs_State
  imports Sleep Cred
begin

text \<open>
  The tables of the file system layer (\<open>include/kernel/filesystem.h\<close>, \<open>fs/globals.c\<close>). A pointer
  to a table entry is the entry's index, a null pointer is \<open>None\<close>; the lists through the entries
  are lists of indices. The state of the scheduler is the component \<open>ks\<close>, so that an operation
  that wakes threads changes both. Process state is kept per process index.
\<close>

section \<open>Objects\<close>

text \<open>\<open>PAGE_SIZE / sizeof(struct FileDesc)\<close> with 4096 byte pages and 8 byte entries.\<close>

definition FILEDESC_MAX :: nat where "FILEDESC_MAX = 512"

definition FDF_CLOSE_ON_EXEC :: u32 where "FDF_CLOSE_ON_EXEC = 1"
definition FDF_ALLOCED :: u32 where "FDF_ALLOCED = 2"
definition FDF_VALID :: u32 where "FDF_VALID = 4"
definition FDF_ALL :: u32 where "FDF_ALL = 7"

datatype filp_type = FILP_TYPE_FREE | FILP_TYPE_VNODE | FILP_TYPE_SUPERBLOCK | FILP_TYPE_PIPE
  | FILP_TYPE_SOCKET | FILP_TYPE_SOCKETPAIR | FILP_TYPE_UNDEF

text \<open>The union \<open>u\<close> of a file pointer is the index of a vnode or of a superblock, by its type.\<close>

record filp =
  f_offset :: int
  f_flags :: u32
  f_reference_cnt :: int
  f_type :: filp_type
  f_u :: "nat option"

record filedesc =
  fd_filp :: "nat option"
  fd_flags :: u32

record fproc =
  fp_umask :: u32
  current_dir :: "nat option"
  root_dir :: "nat option"
  fd_table :: "filedesc list"

record vnode =
  v_superblock :: nat
  v_flags :: u32
  v_reference_cnt :: int
  vnode_covered :: "nat option"
  vnode_mounted_here :: "nat option"
  v_pipe :: "nat option"
  tty_sid :: int
  char_read_busy :: bool
  char_write_busy :: bool
  inode_nr :: int
  v_mode :: u32
  v_uid :: int
  v_gid :: int
  v_size :: int

record superblock =
  sb_reference_cnt :: int
  sb_dev :: nat
  sb_root :: "nat option"
  sb_flags :: u32
  vnode_list :: "nat list"

record pipe =
  pipe_data :: "u8 list"
  w_pos :: int
  r_pos :: int
  free_sz :: int
  data_sz :: int
  reader_cnt :: int
  writer_cnt :: int

section \<open>The tables\<close>

record fs =
  ks :: kstate
  creds :: "nat \<Rightarrow> cred"
  fprocs :: "nat \<Rightarrow> fproc"
  filps :: "nat \<Rightarrow> filp"
  filp_free_list :: "nat list"
  vnodes :: "nat \<Rightarrow> vnode"
  vnode_free_list :: "nat list"
  vnode_hash :: "nat \<Rightarrow> nat list"
  superblocks :: "nat \<Rightarrow> superblock"
  free_superblock_list :: "nat list"
  mounted_superblock_list :: "nat list"
  pipes :: "nat \<Rightarrow> pipe"
  free_pipe_list :: "nat list"

text \<open>The condition variables of vnodes, superblocks and pipes.\<close>

definition vnode_rendez :: "nat \<Rightarrow> rendez" where "vnode_rendez v = Rendez_obj (4 * v)"
definition superblock_rendez :: "nat \<Rightarrow> rendez" where "superblock_rendez b = Rendez_obj (4 * b + 1)"
definition pipe_rendez :: "nat \<Rightarrow> rendez" where "pipe_rendez i = Rendez_obj (4 * i + 2)"

definition upd_filp :: "nat \<Rightarrow> (filp \<Rightarrow> filp) \<Rightarrow> fs \<Rightarrow> fs" where
  "upd_filp i f s = s\<lparr>filps := (filps s)(i := f (filps s i))\<rparr>"

definition upd_fproc :: "nat \<Rightarrow> (fproc \<Rightarrow> fproc) \<Rightarrow> fs \<Rightarrow> fs" where
  "upd_fproc p f s = s\<lparr>fprocs := (fprocs s)(p := f (fprocs s p))\<rparr>"

definition upd_vnode :: "nat \<Rightarrow> (vnode \<Rightarrow> vnode) \<Rightarrow> fs \<Rightarrow> fs" where
  "upd_vnode v f s = s\<lparr>vnodes := (vnodes s)(v := f (vnodes s v))\<rparr>"

definition upd_superblock :: "nat \<Rightarrow> (superblock \<Rightarrow> superblock) \<Rightarrow> fs \<Rightarrow> fs" where
  "upd_superblock b f s = s\<lparr>superblocks := (superblocks s)(b := f (superblocks s b))\<rparr>"

definition upd_pipe :: "nat \<Rightarrow> (pipe \<Rightarrow> pipe) \<Rightarrow> fs \<Rightarrow> fs" where
  "upd_pipe i f s = s\<lparr>pipes := (pipes s)(i := f (pipes s i))\<rparr>"

definition wakeup_all :: "rendez \<Rightarrow> fs \<Rightarrow> fs option" where
  "wakeup_all r s = map_option (\<lambda>k. s\<lparr>ks := k\<rparr>) (TaskWakeupAll r (ks s))"

lemmas fs_upd_defs [kstate_simps] = upd_filp_def upd_fproc_def upd_vnode_def upd_superblock_def upd_pipe_def

lemma upd_filp_simps [simp]:
  "ks (upd_filp i f s) = ks s" "creds (upd_filp i f s) = creds s" "fprocs (upd_filp i f s) = fprocs s"
  "filps (upd_filp i f s) = (filps s)(i := f (filps s i))"
  "filp_free_list (upd_filp i f s) = filp_free_list s" "vnodes (upd_filp i f s) = vnodes s"
  "superblocks (upd_filp i f s) = superblocks s" "pipes (upd_filp i f s) = pipes s"
  "free_pipe_list (upd_filp i f s) = free_pipe_list s" "vnode_free_list (upd_filp i f s) = vnode_free_list s"
  "vnode_hash (upd_filp i f s) = vnode_hash s"
  by (simp_all add: upd_filp_def)

lemma upd_fproc_simps [simp]:
  "ks (upd_fproc i f s) = ks s" "creds (upd_fproc i f s) = creds s"
  "fprocs (upd_fproc i f s) = (fprocs s)(i := f (fprocs s i))"
  "filps (upd_fproc i f s) = filps s"
  "filp_free_list (upd_fproc i f s) = filp_free_list s" "vnodes (upd_fproc i f s) = vnodes s"
  "superblocks (upd_fproc i f s) = superblocks s" "pipes (upd_fproc i f s) = pipes s"
  "free_pipe_list (upd_fproc i f s) = free_pipe_list s" "vnode_free_list (upd_fproc i f s) = vnode_free_list s"
  "vnode_hash (upd_fproc i f s) = vnode_hash s"
  by (simp_all add: upd_fproc_def)

lemma upd_vnode_simps [simp]:
  "ks (upd_vnode i f s) = ks s" "creds (upd_vnode i f s) = creds s" "fprocs (upd_vnode i f s) = fprocs s"
  "filps (upd_vnode i f s) = filps s" "filp_free_list (upd_vnode i f s) = filp_free_list s"
  "vnodes (upd_vnode i f s) = (vnodes s)(i := f (vnodes s i))"
  "superblocks (upd_vnode i f s) = superblocks s" "pipes (upd_vnode i f s) = pipes s"
  "free_pipe_list (upd_vnode i f s) = free_pipe_list s" "vnode_free_list (upd_vnode i f s) = vnode_free_list s"
  "vnode_hash (upd_vnode i f s) = vnode_hash s"
  by (simp_all add: upd_vnode_def)

lemma upd_superblock_simps [simp]:
  "ks (upd_superblock i f s) = ks s" "creds (upd_superblock i f s) = creds s"
  "fprocs (upd_superblock i f s) = fprocs s" "filps (upd_superblock i f s) = filps s"
  "filp_free_list (upd_superblock i f s) = filp_free_list s" "vnodes (upd_superblock i f s) = vnodes s"
  "superblocks (upd_superblock i f s) = (superblocks s)(i := f (superblocks s i))"
  "pipes (upd_superblock i f s) = pipes s" "free_pipe_list (upd_superblock i f s) = free_pipe_list s"
  "vnode_free_list (upd_superblock i f s) = vnode_free_list s" "vnode_hash (upd_superblock i f s) = vnode_hash s"
  by (simp_all add: upd_superblock_def)

lemma upd_pipe_simps [simp]:
  "ks (upd_pipe i f s) = ks s" "creds (upd_pipe i f s) = creds s" "fprocs (upd_pipe i f s) = fprocs s"
  "filps (upd_pipe i f s) = filps s" "filp_free_list (upd_pipe i f s) = filp_free_list s"
  "vnodes (upd_pipe i f s) = vnodes s" "superblocks (upd_pipe i f s) = superblocks s"
  "pipes (upd_pipe i f s) = (pipes s)(i := f (pipes s i))"
  "free_pipe_list (upd_pipe i f s) = free_pipe_list s" "vnode_free_list (upd_pipe i f s) = vnode_free_list s"
  "vnode_hash (upd_pipe i f s) = vnode_hash s"
  by (simp_all add: upd_pipe_def)

end
