(* ===== verification/File_Desc.thy ===== *)
theory File_Desc
  imports Fs_State
begin

text \<open>
  File descriptors and file pointers: \<open>fs/filedesc.c\<close>, \<open>fs/filp.c\<close>, \<open>fs/fproc.c\<close>, \<open>fs/close.c\<close>,
  the parts of \<open>fs/vnode.c\<close>, \<open>fs/superblock.c\<close> and \<open>fs/pipe.c\<close> that closing runs, and
  \<open>fs/seek.c\<close>. An access beyond the descriptor table is \<open>None\<close>, as a failed assertion is.
\<close>

unbundle bit_operations_syntax

section \<open>Modes\<close>

text \<open>File types and open flags of the C library's \<open>sys/stat.h\<close> and \<open>fcntl.h\<close>.\<close>

definition S_IFMT :: u32 where "S_IFMT = 0xF000"
definition S_IFDIR :: u32 where "S_IFDIR = 0x4000"
definition S_IFCHR :: u32 where "S_IFCHR = 0x2000"
definition S_IFBLK :: u32 where "S_IFBLK = 0x6000"
definition S_IFREG :: u32 where "S_IFREG = 0x8000"
definition S_IFIFO :: u32 where "S_IFIFO = 0x1000"
definition S_IFSOCK :: u32 where "S_IFSOCK = 0xC000"

definition S_ISREG :: "u32 \<Rightarrow> bool" where "S_ISREG m \<longleftrightarrow> m AND S_IFMT = S_IFREG"
definition S_ISDIR :: "u32 \<Rightarrow> bool" where "S_ISDIR m \<longleftrightarrow> m AND S_IFMT = S_IFDIR"
definition S_ISCHR :: "u32 \<Rightarrow> bool" where "S_ISCHR m \<longleftrightarrow> m AND S_IFMT = S_IFCHR"
definition S_ISBLK :: "u32 \<Rightarrow> bool" where "S_ISBLK m \<longleftrightarrow> m AND S_IFMT = S_IFBLK"
definition S_ISFIFO :: "u32 \<Rightarrow> bool" where "S_ISFIFO m \<longleftrightarrow> m AND S_IFMT = S_IFIFO"

definition O_RDONLY :: u32 where "O_RDONLY = 0"
definition O_WRONLY :: u32 where "O_WRONLY = 1"
definition O_ACCMODE :: u32 where "O_ACCMODE = 3"

section \<open>File pointers\<close>

text \<open>The entry of a descriptor, when it is in the table.\<close>

definition fd_entry :: "nat \<Rightarrow> int \<Rightarrow> fs \<Rightarrow> filedesc option" where
  "fd_entry p fd s =
     (if 0 \<le> fd \<and> nat fd < length (fd_table (fprocs s p))
      then Some (fd_table (fprocs s p) ! nat fd) else None)"

definition set_fd :: "nat \<Rightarrow> int \<Rightarrow> filedesc \<Rightarrow> fs \<Rightarrow> fs" where
  "set_fd p fd e s = upd_fproc p (\<lambda>fp. fp\<lparr>fd_table := (fd_table fp)[nat fd := e]\<rparr>) s"

definition filp_get :: "nat \<Rightarrow> int \<Rightarrow> fs \<Rightarrow> nat option option" where
  "filp_get p fd s =
     (if fd < 0 \<or> fd \<ge> int FILEDESC_MAX then Some None
      else do {
        e \<leftarrow> fd_entry p fd s;
        Some (if fd_flags e AND FDF_VALID = 0 then None else fd_filp e) })"

definition filp_get_new :: "fs \<Rightarrow> (nat option \<times> fs) option" where
  "filp_get_new s =
     (case filp_free_list s of
        [] \<Rightarrow> Some (None, s)
      | i # is \<Rightarrow> do {
          kassert (f_type (filps s i) = FILP_TYPE_FREE);
          Some (Some i, upd_filp i (\<lambda>f. f\<lparr>f_reference_cnt := 1, f_type := FILP_TYPE_UNDEF,
                   f_u := None, f_flags := 0\<rparr>) (s\<lparr>filp_free_list := is\<rparr>)) })"

definition filp_ref :: "nat \<Rightarrow> fs \<Rightarrow> fs" where
  "filp_ref i s = upd_filp i (\<lambda>f. f\<lparr>f_reference_cnt := f_reference_cnt f + 1\<rparr>) s"

definition filp_release :: "nat \<Rightarrow> fs \<Rightarrow> int \<times> fs" where
  "filp_release i s =
     (let s1 = upd_filp i (\<lambda>f. f\<lparr>f_reference_cnt := f_reference_cnt f - 1\<rparr>) s;
          n = f_reference_cnt (filps s1 i)
      in (n, if n = 0
             then (upd_filp i (\<lambda>f. f\<lparr>f_type := FILP_TYPE_FREE, f_u := None\<rparr>) s1)
                    \<lparr>filp_free_list := i # filp_free_list s1\<rparr>
             else s1))"

section \<open>Descriptor table\<close>

text \<open>
  The search of \<open>fd_alloc\<close>: the first free entry from \<open>fd\<close> on, \<open>n\<close> entries at most. \<open>None\<close> is a
  read past the table or a failed assertion.
\<close>

fun fd_search :: "filedesc list \<Rightarrow> nat \<Rightarrow> nat \<Rightarrow> nat option option" where
  "fd_search tab fd 0 = Some None"
| "fd_search tab fd (Suc n) =
     (if fd < length tab then
        if fd_flags (tab ! fd) AND FDF_ALLOCED = 0 then
          if fd_flags (tab ! fd) AND NOT FDF_ALL = 0 then Some (Some fd) else None
        else fd_search tab (Suc fd) n
      else None)"

definition fd_alloc :: "nat \<Rightarrow> int \<Rightarrow> int \<Rightarrow> fs \<Rightarrow> (nat result \<times> fs) option" where
  "fd_alloc p min_fd max_fd s =
     (if min_fd < 0 then None
      else do {
        r \<leftarrow> fd_search (fd_table (fprocs s p)) (nat min_fd) (nat (max_fd - min_fd + 1));
        Some (case r of
                None \<Rightarrow> (Inl EMFILE, s)
              | Some fd \<Rightarrow> (Inr fd, set_fd p (int fd) \<lparr>fd_filp = None, fd_flags = FDF_ALLOCED\<rparr> s)) })"

definition fd_free :: "nat \<Rightarrow> int \<Rightarrow> fs \<Rightarrow> (unit result \<times> fs) option" where
  "fd_free p fd s =
     (if fd < 0 \<or> fd \<ge> int FILEDESC_MAX then Some (Inl EINVAL, s)
      else do {
        e \<leftarrow> fd_entry p fd s;
        kassert (fd_flags e AND NOT FDF_ALL = 0);
        kassert (fd_flags e AND FDF_ALLOCED \<noteq> 0);
        Some (Inr (), set_fd p fd \<lparr>fd_filp = None, fd_flags = 0\<rparr> s) })"

definition fd_invalidate :: "nat \<Rightarrow> int \<Rightarrow> fs \<Rightarrow> (unit result \<times> fs) option" where
  "fd_invalidate p fd s =
     (if fd < 0 \<or> fd \<ge> int FILEDESC_MAX then Some (Inl EINVAL, s)
      else do {
        e \<leftarrow> fd_entry p fd s;
        kassert (fd_flags e AND NOT FDF_ALL = 0);
        kassert (fd_flags e AND FDF_ALLOCED \<noteq> 0);
        Some (Inr (), set_fd p fd (e\<lparr>fd_flags := fd_flags e AND NOT FDF_VALID\<rparr>) s) })"

definition dup_fd :: "nat \<Rightarrow> int \<Rightarrow> int \<Rightarrow> int \<Rightarrow> u32 \<Rightarrow> fs \<Rightarrow> (nat result \<times> fs) option" where
  "dup_fd p fd min_fd max_fd flags s = do {
     f \<leftarrow> filp_get p fd s;
     (case f of
        None \<Rightarrow> Some (Inl EINVAL, s)
      | Some i \<Rightarrow> do {
          (r, s1) \<leftarrow> fd_alloc p min_fd max_fd s;
          (case r of
             Inl _ \<Rightarrow> Some (Inl EMFILE, s1)
           | Inr new_fd \<Rightarrow> do {
               e \<leftarrow> fd_entry p (int new_fd) s1;
               Some (Inr new_fd,
                 set_fd p (int new_fd) \<lparr>fd_filp = Some i, fd_flags = fd_flags e OR (FDF_VALID OR flags)\<rparr>
                   (filp_ref i s1)) }) }) }"

section \<open>Closing\<close>

text \<open>\<open>vnode_put\<close> and \<open>do_vnode_discard\<close> return at once; the code after their \<open>return\<close> is dead.\<close>

definition vnode_put :: "nat \<Rightarrow> fs \<Rightarrow> fs" where "vnode_put v s = s"

definition do_vnode_discard :: "nat \<Rightarrow> fs \<Rightarrow> fs" where "do_vnode_discard v s = s"

definition vnode_ref :: "nat \<Rightarrow> fs \<Rightarrow> fs" where
  "vnode_ref v s = upd_vnode v (\<lambda>n. n\<lparr>v_reference_cnt := v_reference_cnt n + 1\<rparr>) s"

definition SBF_ABORT :: u32 where "SBF_ABORT = 1"
definition V_VALID :: u32 where "V_VALID = 4"

definition vnode_get_new :: "nat \<Rightarrow> fs \<Rightarrow> (nat option \<times> fs) option" where
  "vnode_get_new sb s =
     (if sb_flags (superblocks s sb) AND SBF_ABORT \<noteq> 0 then Some (None, s)
      else (case vnode_free_list s of
              [] \<Rightarrow> Some (None, s)
            | v # vs \<Rightarrow> do {
                kassert (v_flags (vnodes s v) AND V_VALID \<noteq> 0 \<longrightarrow> v_reference_cnt (vnodes s v) = 0);
                Some (Some v,
                  upd_vnode v (\<lambda>_. \<lparr>v_superblock = sb, v_flags = 0, v_reference_cnt = 1,
                     vnode_covered = None, vnode_mounted_here = None, v_pipe = None, tty_sid = -1,
                     char_read_busy = False, char_write_busy = False, inode_nr = -1, v_mode = 0,
                     v_uid = 9999, v_gid = 9999, v_size = 0\<rparr>)
                   (upd_superblock sb (\<lambda>b. b\<lparr>sb_reference_cnt := sb_reference_cnt b + 1\<rparr>)
                     (s\<lparr>vnode_free_list := vs\<rparr>))) }))"

definition vnode_get_from_filp :: "nat option \<Rightarrow> fs \<Rightarrow> nat option" where
  "vnode_get_from_filp f s =
     (case f of
        None \<Rightarrow> None
      | Some i \<Rightarrow> if f_type (filps s i) \<noteq> FILP_TYPE_VNODE then None else f_u (filps s i))"

definition vnode_put_fifo_reader :: "nat \<Rightarrow> fs \<Rightarrow> fs option" where
  "vnode_put_fifo_reader v s = do {
     kassert (S_ISFIFO (v_mode (vnodes s v)));
     i \<leftarrow> v_pipe (vnodes s v);
     let s1 = upd_pipe i (\<lambda>q. q\<lparr>reader_cnt := reader_cnt q - 1\<rparr>) s;
     s2 \<leftarrow> (if reader_cnt (pipes s1 i) = 0 then wakeup_all (pipe_rendez i) s1 else Some s1);
     kassert (reader_cnt (pipes s2 i) = 0 \<and> writer_cnt (pipes s2 i) = 0
              \<longrightarrow> v_reference_cnt (vnodes s2 v) = 0);
     Some s2 }"

definition vnode_put_fifo_writer :: "nat \<Rightarrow> fs \<Rightarrow> fs option" where
  "vnode_put_fifo_writer v s = do {
     kassert (S_ISFIFO (v_mode (vnodes s v)));
     i \<leftarrow> v_pipe (vnodes s v);
     let s1 = upd_pipe i (\<lambda>q. q\<lparr>writer_cnt := writer_cnt q - 1\<rparr>) s;
     s2 \<leftarrow> (if writer_cnt (pipes s1 i) = 0 then wakeup_all (pipe_rendez i) s1 else Some s1);
     if reader_cnt (pipes s2 i) = 0 \<and> writer_cnt (pipes s2 i) = 0 then do {
       kassert (v_reference_cnt (vnodes s2 v) = 0);
       Some (do_vnode_discard v s2) }
     else Some s2 }"

definition do_close_pipe :: "nat \<Rightarrow> bool \<Rightarrow> fs \<Rightarrow> fs option" where
  "do_close_pipe v is_writer s =
     (if is_writer then vnode_put_fifo_writer v s else vnode_put_fifo_reader v s)"

definition do_close_superblock :: "nat \<Rightarrow> fs \<Rightarrow> fs" where "do_close_superblock b s = s"

text \<open>What the last close of a vnode does, by the type of the file.\<close>

definition close_vnode :: "nat \<Rightarrow> u32 \<Rightarrow> fs \<Rightarrow> fs option" where
  "close_vnode v flags s =
     (let mode = v_mode (vnodes s v)
      in if S_ISREG mode \<or> S_ISDIR mode \<or> S_ISCHR mode \<or> S_ISBLK mode then Some (vnode_put v s)
         else if S_ISFIFO mode then do_close_pipe v (flags AND O_WRONLY \<noteq> 0) s
         else Some s)"

definition do_close :: "nat \<Rightarrow> int \<Rightarrow> fs \<Rightarrow> (unit result \<times> fs) option" where
  "do_close p fd s =
     (if fd < 0 \<or> fd \<ge> int FILEDESC_MAX then Some (Inl EINVAL, s)
      else do {
        f \<leftarrow> filp_get p fd s;
        (case f of
           None \<Rightarrow> Some (Inl EBADF, s)
         | Some i \<Rightarrow> do {
             (_, s1) \<leftarrow> fd_invalidate p fd s;
             (case f_type (filps s1 i) of
                FILP_TYPE_VNODE \<Rightarrow> do {
                  let v = vnode_get_from_filp (Some i) s1;
                  (_, s2) \<leftarrow> fd_free p fd s1;
                  let (n, s3) = filp_release i s2;
                  s4 \<leftarrow> (if n = 0 then do { w \<leftarrow> v; close_vnode w (f_flags (filps s3 i)) s3 }
                         else Some s3);
                  Some (Inr (), s4) }
              | FILP_TYPE_SUPERBLOCK \<Rightarrow> do {
                  let b = f_u (filps s1 i);
                  (_, s2) \<leftarrow> fd_free p fd s1;
                  let (n, s3) = filp_release i s2;
                  s4 \<leftarrow> (if n = 0 then do { c \<leftarrow> b; Some (do_close_superblock c s3) } else Some s3);
                  Some (Inr (), s4) }
              | _ \<Rightarrow> None) }) })"

definition sys_close :: "nat \<Rightarrow> int \<Rightarrow> fs \<Rightarrow> (unit result \<times> fs) option" where
  "sys_close current fd s = do_close current fd s"

section \<open>Duplicating\<close>

definition sys_dup :: "nat \<Rightarrow> int \<Rightarrow> fs \<Rightarrow> (nat result \<times> fs) option" where
  "sys_dup current fd s = dup_fd current fd 0 (int FILEDESC_MAX) 0 s"

definition sys_dup2 :: "nat \<Rightarrow> int \<Rightarrow> int \<Rightarrow> fs \<Rightarrow> (nat result \<times> fs) option" where
  "sys_dup2 current fd new_fd s =
     (if fd < 0 \<or> fd \<ge> int FILEDESC_MAX \<or> new_fd < 0 \<or> new_fd \<ge> int FILEDESC_MAX
      then Some (Inl EINVAL, s)
      else do {
        e \<leftarrow> fd_entry current new_fd s;
        s1 \<leftarrow> (if fd_flags e AND FDF_VALID \<noteq> 0
               then do { kassert (fd_filp e \<noteq> None); (_, s1) \<leftarrow> do_close current new_fd s; Some s1 }
               else Some s);
        dup_fd current fd new_fd new_fd 0 s1 })"

text \<open>The commands of \<open>fcntl\<close>; any other command is \<open>F_OTHER\<close>.\<close>

datatype fcntl_cmd = F_DUPFD | F_DUPFD_CLOEXEC | F_GETFD | F_SETFD | F_GETFL | F_SETFL | F_OTHER

definition FD_CLOEXEC :: int where "FD_CLOEXEC = 1"

definition sys_fcntl :: "nat \<Rightarrow> int \<Rightarrow> fcntl_cmd \<Rightarrow> int \<Rightarrow> fs \<Rightarrow> (int result \<times> fs) option" where
  "sys_fcntl current fd cmd arg s =
     (if fd < 0 \<or> fd \<ge> int FILEDESC_MAX then Some (Inl EINVAL, s)
      else do {
        e \<leftarrow> fd_entry current fd s;
        (if fd_flags e AND FDF_VALID = 0 then Some (Inl EBADF, s)
         else do {
           f \<leftarrow> filp_get current fd s;
           (if f = None then Some (Inl EINVAL, s)
            else (case cmd of
              F_DUPFD \<Rightarrow>
                if arg < 0 \<or> arg \<ge> int FILEDESC_MAX then Some (Inl EBADF, s)
                else map_option (\<lambda>(r, s'). (map_sum id int r, s'))
                       (dup_fd current fd arg (int FILEDESC_MAX) 0 s)
            | F_DUPFD_CLOEXEC \<Rightarrow>
                if arg < 0 \<or> arg \<ge> int FILEDESC_MAX then Some (Inl EBADF, s)
                else map_option (\<lambda>(r, s'). (map_sum id int r, s'))
                       (dup_fd current fd arg (int FILEDESC_MAX) FDF_CLOSE_ON_EXEC s)
            | F_GETFD \<Rightarrow> Some (Inr (if fd_flags e AND FDF_CLOSE_ON_EXEC \<noteq> 0 then FD_CLOEXEC else 0), s)
            | F_SETFD \<Rightarrow>
                Some (Inr 0, set_fd current fd (e\<lparr>fd_flags :=
                  (if arg AND FD_CLOEXEC \<noteq> 0 then fd_flags e OR FDF_CLOSE_ON_EXEC
                   else fd_flags e AND NOT FDF_CLOSE_ON_EXEC)\<rparr>) s)
            | F_GETFL \<Rightarrow> Some (Inl EINVAL, s)
            | F_SETFL \<Rightarrow> Some (Inl EINVAL, s)
            | F_OTHER \<Rightarrow> Some (Inl ENOSYS, s))) }) })"

section \<open>Process life cycle\<close>

text \<open>\<open>page_free\<close> says whether \<open>kmalloc_page\<close> finds a page for the table.\<close>

definition init_fproc :: "bool \<Rightarrow> nat \<Rightarrow> fs \<Rightarrow> unit result \<times> fs" where
  "init_fproc page_free p s =
     (if \<not> page_free then (Inl ENOMEM, s)
      else (Inr (), upd_fproc p (\<lambda>_. \<lparr>fp_umask = 0, current_dir = None, root_dir = None,
              fd_table = replicate FILEDESC_MAX \<lparr>fd_filp = None, fd_flags = 0\<rparr>\<rparr>) s))"

text \<open>One iteration of the loop of \<open>fork_fds\<close> over the descriptors.\<close>

definition fork_fd :: "nat \<Rightarrow> nat \<Rightarrow> nat \<Rightarrow> fs \<Rightarrow> fs option" where
  "fork_fd newp oldp fd s = do {
     e \<leftarrow> fd_entry oldp (int fd) s;
     _ \<leftarrow> fd_entry newp (int fd) s;
     if fd_flags e AND FDF_VALID \<noteq> 0 then do {
       i \<leftarrow> fd_filp e;
       kassert (fd_flags e AND NOT FDF_ALL = 0);
       Some (filp_ref i (set_fd newp (int fd) \<lparr>fd_filp = Some i, fd_flags = fd_flags e\<rparr> s)) }
     else Some (set_fd newp (int fd) \<lparr>fd_filp = None, fd_flags = 0\<rparr> s) }"

text \<open>A loop of the descriptor table that may stop the kernel.\<close>

fun for_fds :: "(nat \<Rightarrow> fs \<Rightarrow> fs option) \<Rightarrow> nat list \<Rightarrow> fs \<Rightarrow> fs option" where
  "for_fds body [] s = Some s"
| "for_fds body (fd # fds) s = do { s1 \<leftarrow> body fd s; for_fds body fds s1 }"

definition fork_fds :: "bool \<Rightarrow> nat \<Rightarrow> nat \<Rightarrow> fs \<Rightarrow> (unit result \<times> fs) option" where
  "fork_fds page_free newp oldp s =
     (case init_fproc page_free newp s of
        (Inl e, s1) \<Rightarrow> Some (Inl e, s1)
      | (Inr _, s1) \<Rightarrow> do {
          let old = fprocs s1 oldp;
          let s2 = upd_fproc newp (\<lambda>fp. fp\<lparr>fp_umask := fp_umask old, current_dir := current_dir old\<rparr>) s1;
          let s3 = (case current_dir old of Some v \<Rightarrow> vnode_ref v s2 | None \<Rightarrow> s2);
          let s4 = upd_fproc newp (\<lambda>fp. fp\<lparr>root_dir := root_dir old\<rparr>) s3;
          let s5 = (case root_dir old of Some v \<Rightarrow> vnode_ref v s4 | None \<Rightarrow> s4);
          s6 \<leftarrow> for_fds (fork_fd newp oldp) [0..<FILEDESC_MAX] s5;
          Some (Inr (), s6) })"

definition exec_fd :: "nat \<Rightarrow> nat \<Rightarrow> fs \<Rightarrow> fs option" where
  "exec_fd p fd s = do {
     e \<leftarrow> fd_entry p (int fd) s;
     if fd_flags e AND FDF_CLOSE_ON_EXEC \<noteq> 0 then do {
       (_, s2) \<leftarrow> do_close p (int fd)
                   (set_fd p (int fd) (e\<lparr>fd_flags := fd_flags e AND NOT FDF_CLOSE_ON_EXEC\<rparr>) s);
       Some s2 }
     else Some s }"

definition exec_fds :: "nat \<Rightarrow> fs \<Rightarrow> fs option" where
  "exec_fds p s = for_fds (exec_fd p) [0..<FILEDESC_MAX] s"

definition fini_fproc :: "nat \<Rightarrow> fs \<Rightarrow> fs option" where
  "fini_fproc p s = do {
     s1 \<leftarrow> for_fds (\<lambda>fd s. do { (_, s') \<leftarrow> do_close p (int fd) s; Some s' }) [0..<FILEDESC_MAX] s;
     let s2 = (case current_dir (fprocs s1 p) of Some v \<Rightarrow> vnode_put v s1 | None \<Rightarrow> s1);
     let s3 = (case root_dir (fprocs s2 p) of Some v \<Rightarrow> vnode_put v s2 | None \<Rightarrow> s2);
     Some (upd_fproc p (\<lambda>fp. fp\<lparr>current_dir := None, root_dir := None, fd_table := []\<rparr>) s3) }"

section \<open>Seeking\<close>

datatype whence = SEEK_SET | SEEK_CUR | SEEK_END | SEEK_OTHER

text \<open>
  The common part of \<open>sys_lseek\<close> and \<open>sys_lseek64\<close>: offsets are 64 bit signed integers, and the
  sum of a seek wraps around.
\<close>

definition off64 :: "int \<Rightarrow> int" where
  "off64 x = (x + 2 ^ 63) mod 2 ^ 64 - 2 ^ 63"

definition seek_filp :: "nat \<Rightarrow> int \<Rightarrow> int \<Rightarrow> whence \<Rightarrow> fs \<Rightarrow> (int result \<times> fs) option" where
  "seek_filp current fd pos wh s = do {
     f \<leftarrow> filp_get current fd s;
     (case f of
        None \<Rightarrow> Some (Inl EBADF, s)
      | Some i \<Rightarrow>
          (case vnode_get_from_filp (Some i) s of
             None \<Rightarrow> Some (Inl EINVAL, s)
           | Some v \<Rightarrow>
               (let set_off = (\<lambda>x. Some (Inr (off64 x), upd_filp i (\<lambda>g. g\<lparr>f_offset := off64 x\<rparr>) s))
                in if \<not> S_ISREG (v_mode (vnodes s v)) \<and> \<not> S_ISBLK (v_mode (vnodes s v))
                   then Some (Inl EINVAL, s)
                   else (case wh of
                           SEEK_SET \<Rightarrow> set_off pos
                         | SEEK_CUR \<Rightarrow> set_off (f_offset (filps s i) + pos)
                         | SEEK_END \<Rightarrow> set_off (v_size (vnodes s v) + pos)
                         | SEEK_OTHER \<Rightarrow> Some (Inl EINVAL, s))))) }"

text \<open>\<open>sys_lseek\<close> returns the low 32 bits of the offset as an \<open>off_t\<close>.\<close>

definition off32 :: "int \<Rightarrow> int" where
  "off32 x = (x + 2 ^ 31) mod 2 ^ 32 - 2 ^ 31"

definition sys_lseek :: "nat \<Rightarrow> int \<Rightarrow> int \<Rightarrow> whence \<Rightarrow> fs \<Rightarrow> (int result \<times> fs) option" where
  "sys_lseek current fd pos wh s =
     map_option (\<lambda>(r, s'). (map_sum id off32 r, s')) (seek_filp current fd pos wh s)"

text \<open>\<open>pos\<close> is what \<open>copyin\<close> read; the offset copied out is the second result.\<close>

definition sys_lseek64 ::
    "nat \<Rightarrow> int \<Rightarrow> int option \<Rightarrow> whence \<Rightarrow> fs \<Rightarrow> (int result \<times> int option \<times> fs) option" where
  "sys_lseek64 current fd pos wh s =
     (case pos of
        None \<Rightarrow> Some (Inl EFAULT, None, s)
      | Some x \<Rightarrow> map_option (\<lambda>(r, s'). (map_sum id off32 r, case r of Inr y \<Rightarrow> Some y | Inl _ \<Rightarrow> None, s'))
                    (seek_filp current fd x wh s))"

end
