(* ===== verification/File_Desc_Inv.thy ===== *)
theory File_Desc_Inv
  imports File_Desc
begin

text \<open>
  Reference counting of file pointers. A file pointer in use is referenced exactly as often as
  descriptors of the processes name it, and the free list holds exactly the others; duplicating
  and closing descriptors keep this.
\<close>

unbundle bit_operations_syntax

section \<open>Flags\<close>

lemmas fdf_defs = FDF_CLOSE_ON_EXEC_def FDF_ALLOCED_def FDF_VALID_def FDF_ALL_def

definition fd_valid :: "filedesc \<Rightarrow> bool" where
  "fd_valid e \<longleftrightarrow> fd_flags e AND FDF_VALID \<noteq> 0"

text \<open>A table entry: only known flags, and a valid descriptor is allocated and has a file pointer.\<close>

definition fd_ok :: "filedesc \<Rightarrow> bool" where
  "fd_ok e \<longleftrightarrow> fd_flags e AND NOT FDF_ALL = 0
     \<and> (fd_valid e \<longrightarrow> fd_flags e AND FDF_ALLOCED \<noteq> 0 \<and> fd_filp e \<noteq> None)"

lemma fd_ok_consts [simp]:
  "fd_ok \<lparr>fd_filp = f, fd_flags = 0\<rparr>" "fd_ok \<lparr>fd_filp = f, fd_flags = FDF_ALLOCED\<rparr>"
  "\<not> fd_valid \<lparr>fd_filp = f, fd_flags = 0\<rparr>" "\<not> fd_valid \<lparr>fd_filp = f, fd_flags = FDF_ALLOCED\<rparr>"
  by (simp_all add: fd_ok_def fd_valid_def fdf_defs)

text \<open>How often the descriptors of the processes \<open>P\<close> name the file pointer \<open>i\<close>.\<close>

definition tab_refs :: "nat \<Rightarrow> filedesc list \<Rightarrow> nat" where
  "tab_refs i tab = length (filter (\<lambda>e. fd_valid e \<and> fd_filp e = Some i) tab)"

definition refs :: "nat set \<Rightarrow> nat \<Rightarrow> fs \<Rightarrow> nat" where
  "refs P i s = (\<Sum>p \<in> P. tab_refs i (fd_table (fprocs s p)))"

definition tables_ok :: "nat set \<Rightarrow> fs \<Rightarrow> bool" where
  "tables_ok P s \<longleftrightarrow> finite P \<and> (\<forall>p \<in> P. length (fd_table (fprocs s p)) = FILEDESC_MAX
     \<and> (\<forall>e \<in> set (fd_table (fprocs s p)). fd_ok e))"

definition counts_ok :: "nat set \<Rightarrow> fs \<Rightarrow> bool" where
  "counts_ok P s \<longleftrightarrow> distinct (filp_free_list s)
     \<and> (\<forall>i. i \<in> set (filp_free_list s) \<longrightarrow> f_type (filps s i) = FILP_TYPE_FREE \<and> refs P i s = 0)
     \<and> (\<forall>i. refs P i s > 0 \<longrightarrow> f_reference_cnt (filps s i) = int (refs P i s)
          \<and> f_type (filps s i) \<noteq> FILP_TYPE_FREE)"

definition fd_inv :: "nat set \<Rightarrow> fs \<Rightarrow> bool" where
  "fd_inv P s \<longleftrightarrow> tables_ok P s \<and> counts_ok P s"

section \<open>Updates of the table\<close>

lemma fd_entry_Some:
  "fd_entry p fd s = Some e \<longleftrightarrow>
     0 \<le> fd \<and> nat fd < length (fd_table (fprocs s p)) \<and> e = fd_table (fprocs s p) ! nat fd"
  by (auto simp: fd_entry_def)

lemma set_fd_simps [simp]:
  "filps (set_fd p fd e s) = filps s" "filp_free_list (set_fd p fd e s) = filp_free_list s"
  "vnodes (set_fd p fd e s) = vnodes s" "ks (set_fd p fd e s) = ks s" "pipes (set_fd p fd e s) = pipes s"
  "vnode_free_list (set_fd p fd e s) = vnode_free_list s" "superblocks (set_fd p fd e s) = superblocks s"
  "fd_table (fprocs (set_fd p fd e s) q) =
     (if q = p then (fd_table (fprocs s p))[nat fd := e] else fd_table (fprocs s q))"
  by (simp_all add: set_fd_def)

lemma tables_ok_set_fd:
  "tables_ok P s \<Longrightarrow> fd_ok e \<Longrightarrow> tables_ok P (set_fd p fd e s)"
  by (auto simp: tables_ok_def dest: set_update_subset_insert [THEN subsetD])

lemma tables_okD:
  "tables_ok P s \<Longrightarrow> p \<in> P \<Longrightarrow> 0 \<le> fd \<Longrightarrow> fd < int FILEDESC_MAX \<Longrightarrow>
     \<exists>e. fd_entry p fd s = Some e \<and> fd_ok e"
  by (auto simp: tables_ok_def fd_entry_def nat_less_iff)

lemma tab_refs_update:
  "n < length tab \<Longrightarrow>
     tab_refs i (tab[n := e]) + (if fd_valid (tab ! n) \<and> fd_filp (tab ! n) = Some i then 1 else 0)
     = tab_refs i tab + (if fd_valid e \<and> fd_filp e = Some i then 1 else 0)"
  unfolding tab_refs_def by (rule length_filter_update)

lemma refs_set_fd:
  assumes "tables_ok P s" "p \<in> P" "fd_entry p fd s = Some e"
  shows "refs P i (set_fd p fd e' s) + (if fd_valid e \<and> fd_filp e = Some i then 1 else 0)
     = refs P i s + (if fd_valid e' \<and> fd_filp e' = Some i then 1 else 0)"
proof -
  from assms(1) have fin: "finite P" by (simp add: tables_ok_def)
  let ?t = "\<lambda>s q. tab_refs i (fd_table (fprocs s q))"
  have "refs P i (set_fd p fd e' s) = ?t (set_fd p fd e' s) p + (\<Sum>q \<in> P - {p}. ?t (set_fd p fd e' s) q)"
    unfolding refs_def by (rule sum.remove [OF fin assms(2)])
  also have "(\<Sum>q \<in> P - {p}. ?t (set_fd p fd e' s) q) = (\<Sum>q \<in> P - {p}. ?t s q)"
    by (intro sum.cong) auto
  finally have new: "refs P i (set_fd p fd e' s) = ?t (set_fd p fd e' s) p + (\<Sum>q \<in> P - {p}. ?t s q)" .
  have old: "refs P i s = ?t s p + (\<Sum>q \<in> P - {p}. ?t s q)"
    unfolding refs_def by (rule sum.remove [OF fin assms(2)])
  from assms(3) tab_refs_update [of "nat fd" "fd_table (fprocs s p)" i e']
  show ?thesis unfolding new old by (auto simp: fd_entry_Some)
qed

lemma refs_cong: "(\<And>p. p \<in> P \<Longrightarrow> fd_table (fprocs s' p) = fd_table (fprocs s p)) \<Longrightarrow> refs P i s' = refs P i s"
  by (simp add: refs_def)

lemma tables_ok_cong:
  "tables_ok P s \<Longrightarrow> (\<And>p. p \<in> P \<Longrightarrow> fd_table (fprocs s' p) = fd_table (fprocs s p)) \<Longrightarrow> tables_ok P s'"
  by (simp add: tables_ok_def)

section \<open>Allocation\<close>

lemma fd_search_Some:
  "fd_search tab fd n = Some (Some k) \<Longrightarrow>
     fd \<le> k \<and> k < fd + n \<and> k < length tab \<and> fd_flags (tab ! k) AND FDF_ALLOCED = 0
     \<and> (\<forall>j. fd \<le> j \<longrightarrow> j < k \<longrightarrow> fd_flags (tab ! j) AND FDF_ALLOCED \<noteq> 0)"
proof (induction tab fd n rule: fd_search.induct)
  case (2 tab fd n)
  show ?case
  proof (cases "fd_flags (tab ! fd) AND FDF_ALLOCED = 0")
    case True
    with 2 show ?thesis by (auto split: if_splits)
  next
    case False
    with 2 have "Suc fd \<le> k \<and> k < Suc fd + n \<and> k < length tab \<and> fd_flags (tab ! k) AND FDF_ALLOCED = 0
       \<and> (\<forall>j. Suc fd \<le> j \<longrightarrow> j < k \<longrightarrow> fd_flags (tab ! j) AND FDF_ALLOCED \<noteq> 0)"
      by (auto split: if_splits)
    with False show ?thesis by (metis Suc_le_eq add_Suc_right add_Suc le_neq_implies_less less_imp_le_nat)
  qed
qed simp

lemma fd_search_total:
  assumes "\<forall>e \<in> set tab. fd_ok e" and "fd + n \<le> length tab"
  shows "\<exists>r. fd_search tab fd n = Some r"
  using assms
proof (induction tab fd n rule: fd_search.induct)
  case (2 tab fd n)
  then have "fd_ok (tab ! fd)" by simp
  with 2 show ?case by (auto simp: fd_ok_def)
qed simp

text \<open>With every entry taken, the search runs past the end of the table.\<close>

lemma fd_search_overrun:
  assumes "\<forall>e \<in> set tab. fd_flags e AND FDF_ALLOCED \<noteq> 0" and "fd + n > length tab" and "fd \<le> length tab"
  shows "fd_search tab fd n = None"
  using assms by (induction tab fd n rule: fd_search.induct) auto

lemma fd_alloc_ok:
  assumes tab: "tables_ok P s" and p: "p \<in> P" and call: "fd_alloc p lo hi s = Some (r, s')"
  shows "case r of
      Inl e \<Rightarrow> e = EMFILE \<and> s' = s
    | Inr k \<Rightarrow> lo \<le> int k \<and> int k \<le> hi \<and> k < FILEDESC_MAX
        \<and> s' = set_fd p (int k) \<lparr>fd_filp = None, fd_flags = FDF_ALLOCED\<rparr> s
        \<and> fd_flags (fd_table (fprocs s p) ! k) AND FDF_ALLOCED = 0
        \<and> (\<forall>j. lo \<le> int j \<longrightarrow> j < k \<longrightarrow> fd_flags (fd_table (fprocs s p) ! j) AND FDF_ALLOCED \<noteq> 0)
        \<and> tables_ok P s' \<and> (\<forall>i. refs P i s' = refs P i s)"
proof -
  from call obtain q where q: "0 \<le> lo" "fd_search (fd_table (fprocs s p)) (nat lo) (nat (hi - lo + 1)) = Some q"
    by (auto simp: fd_alloc_def bind_eq_Some_conv split: if_splits)
  show ?thesis
  proof (cases q)
    case None
    with q call show ?thesis by (auto simp: fd_alloc_def)
  next
    case (Some k)
    let ?e = "\<lparr>fd_filp = None, fd_flags = FDF_ALLOCED\<rparr>"
    from fd_search_Some q(2) Some have k: "nat lo \<le> k" "k < nat lo + nat (hi - lo + 1)"
      "k < length (fd_table (fprocs s p))" "fd_flags (fd_table (fprocs s p) ! k) AND FDF_ALLOCED = 0"
      "\<forall>j. nat lo \<le> j \<longrightarrow> j < k \<longrightarrow> fd_flags (fd_table (fprocs s p) ! j) AND FDF_ALLOCED \<noteq> 0"
      by blast+
    then have e: "fd_entry p (int k) s = Some (fd_table (fprocs s p) ! k)" by (simp add: fd_entry_def)
    from tab p k(3) have "fd_ok (fd_table (fprocs s p) ! k)" by (auto simp: tables_ok_def)
    with k(4) have nv: "\<not> fd_valid (fd_table (fprocs s p) ! k)" by (auto simp: fd_ok_def)
    from refs_set_fd [OF tab p e, of _ ?e] nv have "refs P i (set_fd p (int k) ?e s) = refs P i s" for i
      by simp
    with q call Some k tab p show ?thesis
      by (auto simp: fd_alloc_def tables_ok_set_fd tables_ok_def [of P s] nat_le_iff)
  qed
qed

lemma filp_get_Some:
  "filp_get p fd s = Some (Some i) \<longleftrightarrow>
     0 \<le> fd \<and> fd < int FILEDESC_MAX \<and> (\<exists>e. fd_entry p fd s = Some e \<and> fd_valid e \<and> fd_filp e = Some i)"
  by (auto simp: filp_get_def fd_valid_def bind_eq_Some_conv split: if_splits)

lemma fd_entry_set_fd:
  "fd_entry p fd s = Some e0 \<Longrightarrow>
     fd_entry q x (set_fd p fd e s) = (if q = p \<and> x = fd then Some e else fd_entry q x s)"
  by (auto simp: fd_entry_def nth_list_update eq_nat_nat_iff)

lemma refs_pos:
  assumes "tables_ok P s" "p \<in> P" "fd_entry p fd s = Some e" "fd_valid e" "fd_filp e = Some i"
  shows "refs P i s > 0"
  using refs_set_fd [OF assms(1-3), of i "\<lparr>fd_filp = None, fd_flags = 0\<rparr>"] assms(4,5) by simp

lemma filp_ref_simps [simp]:
  "fprocs (filp_ref i s) = fprocs s" "filp_free_list (filp_ref i s) = filp_free_list s"
  "vnodes (filp_ref i s) = vnodes s"
  "filps (filp_ref i s) = (filps s)(i := (filps s i)\<lparr>f_reference_cnt := f_reference_cnt (filps s i) + 1\<rparr>)"
  "fd_entry p fd (filp_ref i s) = fd_entry p fd s"
  "refs P j (filp_ref i s) = refs P j s" "tables_ok P (filp_ref i s) = tables_ok P s"
  by (simp_all add: filp_ref_def fd_entry_def refs_def tables_ok_def)

text \<open>Making one more descriptor name a file pointer that is in use.\<close>

lemma counts_ok_add_ref:
  assumes cnt: "counts_ok P s" and tab: "tables_ok P s" and p: "p \<in> P"
    and e0: "fd_entry p fd s = Some e0" "\<not> fd_valid e0"
    and e: "fd_valid e" "fd_filp e = Some i" and pos: "refs P i s > 0"
  shows "counts_ok P (set_fd p fd e (filp_ref i s))"
proof -
  have r: "refs P j (set_fd p fd e (filp_ref i s)) = refs P j s + (if j = i then 1 else 0)" for j
    using refs_set_fd [of P "filp_ref i s" p fd e0 j e] tab p e0 e by auto
  show ?thesis
    using cnt pos unfolding counts_ok_def r by auto
qed

lemma dup_fd_ok:
  assumes inv: "fd_inv P s" and p: "p \<in> P" and fl: "flags \<in> {0, FDF_CLOSE_ON_EXEC}"
    and call: "dup_fd p fd lo hi flags s = Some (r, s')"
  shows "case r of
      Inl e \<Rightarrow> s' = s
    | Inr k \<Rightarrow> fd_inv P s' \<and> lo \<le> int k \<and> int k \<le> hi
        \<and> fd_flags (fd_table (fprocs s p) ! k) AND FDF_ALLOCED = 0
        \<and> (\<forall>j. lo \<le> int j \<longrightarrow> j < k \<longrightarrow> fd_flags (fd_table (fprocs s p) ! j) AND FDF_ALLOCED \<noteq> 0)
        \<and> (\<exists>i. filp_get p fd s = Some (Some i) \<and> filp_get p (int k) s' = Some (Some i)
             \<and> f_reference_cnt (filps s' i) = f_reference_cnt (filps s i) + 1)
        \<and> (\<forall>q x. (q, x) \<noteq> (p, int k) \<longrightarrow> fd_entry q x s' = fd_entry q x s)"
proof -
  from inv have tab: "tables_ok P s" and cnt: "counts_ok P s" by (auto simp: fd_inv_def)
  from call obtain f where f: "filp_get p fd s = Some f" by (auto simp: dup_fd_def bind_eq_Some_conv)
  show ?thesis
  proof (cases f)
    case None
    with f call show ?thesis by (auto simp: dup_fd_def)
  next
    case (Some i)
    with f call obtain r1 s1 where a: "fd_alloc p lo hi s = Some (r1, s1)"
      by (auto simp: dup_fd_def bind_eq_Some_conv)
    note A = fd_alloc_ok [OF tab p a]
    show ?thesis
    proof (cases r1)
      case (Inl e)
      with A a f Some call show ?thesis by (auto simp: dup_fd_def)
    next
      case (Inr k)
      let ?AL = "\<lparr>fd_filp = None, fd_flags = FDF_ALLOCED\<rparr>"
      let ?e = "\<lparr>fd_filp = Some i, fd_flags = FDF_ALLOCED OR (FDF_VALID OR flags)\<rparr>"
      from A Inr have s1: "s1 = set_fd p (int k) ?AL s" "tables_ok P s1" "\<And>j. refs P j s1 = refs P j s"
        "k < FILEDESC_MAX" by auto
      have k: "fd_entry p (int k) s = Some (fd_table (fprocs s p) ! k)"
        using tab p s1(4) by (simp add: fd_entry_def tables_ok_def)
      then have k1: "fd_entry p (int k) s1 = Some ?AL" unfolding s1(1) by (simp add: fd_entry_set_fd)
      from a f Some Inr call k1 have s': "r = Inr k" "s' = set_fd p (int k) ?e (filp_ref i s1)"
        by (auto simp: dup_fd_def)
      have e: "fd_valid ?e" "fd_ok ?e"
        using fl by (auto simp: fd_ok_def fd_valid_def fdf_defs)
      from f Some obtain e1 where e1: "fd_entry p fd s = Some e1" "fd_valid e1" "fd_filp e1 = Some i"
        by (auto simp: filp_get_Some)
      then have pos: "refs P i s > 0" by (rule refs_pos [OF tab p])
      have "counts_ok P s1" using cnt unfolding counts_ok_def s1(3) by (simp add: s1(1))
      then have "counts_ok P s'" unfolding s'(2)
        using s1(2,3) p k1 e pos by (intro counts_ok_add_ref) auto
      moreover have "tables_ok P s'" unfolding s'(2) using s1(2) e(2) by (simp add: tables_ok_set_fd)
      moreover have "filp_get p (int k) s' = Some (Some i)"
        using k1 e s1(4) unfolding s'(2) filp_get_Some by (simp add: fd_entry_set_fd [where ?e0.0 = ?AL])
      moreover have "fd_entry q x s' = fd_entry q x s" if "(q, x) \<noteq> (p, int k)" for q x
        using that k k1 unfolding s'(2) s1(1) by (auto simp: fd_entry_set_fd [where ?e0.0 = ?AL] fd_entry_set_fd)
      ultimately show ?thesis using A Inr s' f Some
        by (auto simp: fd_inv_def s1(1))
    qed
  qed
qed

section \<open>Closing\<close>

text \<open>Waking threads and the last close of a vnode leave descriptors and file pointers alone.\<close>

lemma wakeup_all_frame:
  "wakeup_all r s = Some s' \<Longrightarrow> s' = s\<lparr>ks := ks s'\<rparr>"
  by (auto simp: wakeup_all_def)

definition close_frame :: "fs \<Rightarrow> fs \<Rightarrow> bool" where
  "close_frame s s' \<longleftrightarrow> fprocs s' = fprocs s \<and> filps s' = filps s \<and> filp_free_list s' = filp_free_list s
     \<and> vnodes s' = vnodes s"

lemma wakeup_all_close_frame: "wakeup_all r s = Some s' \<Longrightarrow> close_frame s s'"
  by (auto simp: close_frame_def wakeup_all_def)

lemma close_frame_upd_pipe [simp]:
  "close_frame (upd_pipe i f s) s' = close_frame s s'" "close_frame s (upd_pipe i f s') = close_frame s s'"
  by (simp_all add: close_frame_def)

lemma close_frame_refl [simp]: "close_frame s s"
  by (simp add: close_frame_def)

lemma close_vnode_frame: "close_vnode v flags s = Some s' \<Longrightarrow> close_frame s s'"
  by (auto simp: close_vnode_def do_close_pipe_def vnode_put_fifo_writer_def vnode_put_fifo_reader_def
      vnode_put_def do_vnode_discard_def Let_def bind_eq_Some_conv kassert_def
      dest!: wakeup_all_close_frame split: if_splits)

lemma fd_inv_close_frame: "close_frame s s' \<Longrightarrow> fd_inv P s' = fd_inv P s"
  by (simp add: close_frame_def fd_inv_def tables_ok_def counts_ok_def refs_def)

text \<open>Taking one reference away: the descriptor is cleared and the count drops.\<close>

lemma counts_ok_drop_ref:
  assumes cnt: "counts_ok P s" and tab: "tables_ok P s" and p: "p \<in> P"
    and e: "fd_entry p fd s = Some e" "fd_valid e" "fd_filp e = Some i"
  shows "counts_ok P (snd (filp_release i (set_fd p fd \<lparr>fd_filp = None, fd_flags = 0\<rparr> s)))"
proof -
  let ?s1 = "set_fd p fd \<lparr>fd_filp = None, fd_flags = 0\<rparr> s"
  let ?s2 = "snd (filp_release i ?s1)"
  have r1: "refs P j s = refs P j ?s1 + (if j = i then 1 else 0)" for j
    using refs_set_fd [OF tab p e(1), of j "\<lparr>fd_filp = None, fd_flags = 0\<rparr>"] e(2,3)
    by (auto split: if_splits)
  have r2: "refs P j ?s2 = refs P j ?s1" for j
    by (rule refs_cong) (simp add: filp_release_def Let_def)
  have i: "f_reference_cnt (filps s i) = int (refs P i s)" "f_type (filps s i) \<noteq> FILP_TYPE_FREE"
    using cnt refs_pos [OF tab p e] by (auto simp: counts_ok_def)
  then have nfree: "i \<notin> set (filp_free_list s)" using cnt by (auto simp: counts_ok_def)
  show ?thesis
  proof (cases "refs P i ?s1 = 0")
    case True
    then have "f_reference_cnt (filps s i) = 1" using i(1) r1 [of i] by simp
    then have "filps ?s2 = (filps s)(i := (filps s i)\<lparr>f_reference_cnt := 0, f_type := FILP_TYPE_FREE, f_u := None\<rparr>)"
      "filp_free_list ?s2 = i # filp_free_list s" by (auto simp: filp_release_def)
    then show ?thesis
      using cnt nfree True unfolding counts_ok_def r2 by (auto simp: r1)
  next
    case False
    then have "f_reference_cnt (filps s i) \<noteq> 1" using i(1) r1 [of i] by simp
    then have f: "filps ?s2 = (filps s)(i := (filps s i)\<lparr>f_reference_cnt := f_reference_cnt (filps s i) - 1\<rparr>)"
      "filp_free_list ?s2 = filp_free_list s" by (auto simp: filp_release_def Let_def)
    show ?thesis
      using cnt nfree False i unfolding counts_ok_def r2 f by (auto simp: r1)
  qed
qed

lemma fd_flags_clear:
  assumes "fd_ok e" "fd_valid e"
  shows "(fd_flags e AND NOT FDF_VALID) AND NOT FDF_ALL = 0"
    and "(fd_flags e AND NOT FDF_VALID) AND FDF_ALLOCED \<noteq> 0"
proof -
  have "(fd_flags e AND NOT FDF_VALID) AND NOT FDF_ALL = NOT FDF_VALID AND (fd_flags e AND NOT FDF_ALL)"
    by (simp only: and.assoc and.left_commute)
  with assms show "(fd_flags e AND NOT FDF_VALID) AND NOT FDF_ALL = 0" by (simp add: fd_ok_def)
  have "NOT FDF_VALID AND FDF_ALLOCED = FDF_ALLOCED" by (simp add: fdf_defs)
  then have "(fd_flags e AND NOT FDF_VALID) AND FDF_ALLOCED = fd_flags e AND FDF_ALLOCED"
    by (simp only: and.assoc)
  with assms show "(fd_flags e AND NOT FDF_VALID) AND FDF_ALLOCED \<noteq> 0" by (simp add: fd_ok_def)
qed

lemma set_fd_set_fd [simp]: "set_fd p fd e (set_fd p fd e' s) = set_fd p fd e s"
  by (simp add: set_fd_def upd_fproc_def)

text \<open>The two statements that clear a descriptor, and the release of its file pointer.\<close>

lemma close_fd_ok:
  assumes tab: "tables_ok P s" and p: "p \<in> P" and range: "0 \<le> fd" "fd < int FILEDESC_MAX"
    and e: "fd_entry p fd s = Some e" "fd_valid e"
  shows "\<exists>s1. fd_invalidate p fd s = Some (Inr (), s1) \<and> filps s1 = filps s
     \<and> fd_free p fd s1 = Some (Inr (), set_fd p fd \<lparr>fd_filp = None, fd_flags = 0\<rparr> s)"
proof -
  let ?e = "e\<lparr>fd_flags := fd_flags e AND NOT FDF_VALID\<rparr>"
  from tab p e have ok: "fd_ok e" by (auto simp: tables_ok_def fd_entry_Some)
  with e have "fd_invalidate p fd s = Some (Inr (), set_fd p fd ?e s)"
    using range by (simp add: fd_invalidate_def fd_ok_def)
  moreover have "fd_entry p fd (set_fd p fd ?e s) = Some ?e" using e(1) by (simp add: fd_entry_set_fd)
  then have "fd_free p fd (set_fd p fd ?e s) = Some (Inr (), set_fd p fd \<lparr>fd_filp = None, fd_flags = 0\<rparr> s)"
    using range fd_flags_clear [OF ok e(2)] by (simp add: fd_free_def)
  ultimately show ?thesis by simp
qed

lemma do_close_valid:
  assumes inv: "fd_inv P s" and p: "p \<in> P" and f: "filp_get p fd s = Some (Some i)"
    and call: "do_close p fd s = Some (r, s')"
  shows "r = Inr () \<and> close_frame (snd (filp_release i (set_fd p fd \<lparr>fd_filp = None, fd_flags = 0\<rparr> s))) s'"
proof -
  from f obtain e where e: "0 \<le> fd" "fd < int FILEDESC_MAX" "fd_entry p fd s = Some e" "fd_valid e"
    by (auto simp: filp_get_Some)
  from inv have "tables_ok P s" by (simp add: fd_inv_def)
  from close_fd_ok [OF this p e] obtain s1 where
    s1: "fd_invalidate p fd s = Some (Inr (), s1)" "filps s1 = filps s"
      "fd_free p fd s1 = Some (Inr (), set_fd p fd \<lparr>fd_filp = None, fd_flags = 0\<rparr> s)" by blast
  show ?thesis
    using call f e(1,2) s1
    by (cases "filp_release i (set_fd p fd \<lparr>fd_filp = None, fd_flags = 0\<rparr> s)")
      (auto simp: do_close_def do_close_superblock_def bind_eq_Some_conv
        dest: close_vnode_frame split: filp_type.splits if_splits)
qed

text \<open>Closing does not stop the kernel unless it closes an end of a pipe for the last time.\<close>

lemma do_close_returns:
  assumes inv: "fd_inv P s" and p: "p \<in> P" and f: "filp_get p fd s = Some (Some i)"
    and obj: "f_type (filps s i) = FILP_TYPE_SUPERBLOCK \<or> f_type (filps s i) = FILP_TYPE_VNODE"
    and u: "f_u (filps s i) = Some u"
    and fifo: "f_type (filps s i) = FILP_TYPE_VNODE \<Longrightarrow> \<not> S_ISFIFO (v_mode (vnodes s u))"
  shows "\<exists>s'. do_close p fd s = Some (Inr (), s')"
proof -
  from f obtain e where e: "0 \<le> fd" "fd < int FILEDESC_MAX" "fd_entry p fd s = Some e" "fd_valid e"
    by (auto simp: filp_get_Some)
  from inv have "tables_ok P s" by (simp add: fd_inv_def)
  from close_fd_ok [OF this p e] obtain s1 where
    s1: "fd_invalidate p fd s = Some (Inr (), s1)" "filps s1 = filps s"
      "fd_free p fd s1 = Some (Inr (), set_fd p fd \<lparr>fd_filp = None, fd_flags = 0\<rparr> s)" by blast
  show ?thesis
    using f e(1,2) s1 obj u fifo
    by (auto simp: do_close_def do_close_superblock_def vnode_get_from_filp_def close_vnode_def
        filp_release_def Let_def)
qed

section \<open>A process with one open file\<close>

text \<open>Process 0 has descriptor 0 open on file pointer 0, a file of the given mode.\<close>

definition one_file :: "u32 \<Rightarrow> fs" where
  "one_file mode = \<lparr>ks = init_tables, creds = (\<lambda>_. plain_user),
     fprocs = (\<lambda>_. \<lparr>fp_umask = 0, current_dir = None, root_dir = None,
        fd_table = (replicate FILEDESC_MAX \<lparr>fd_filp = None, fd_flags = 0\<rparr>)
          [0 := \<lparr>fd_filp = Some 0, fd_flags = 6\<rparr>]\<rparr>),
     filps = (\<lambda>i. \<lparr>f_offset = 0, f_flags = 0, f_reference_cnt = (if i = 0 then 1 else 0),
        f_type = (if i = 0 then FILP_TYPE_VNODE else FILP_TYPE_FREE),
        f_u = (if i = 0 then Some 0 else None)\<rparr>),
     filp_free_list = [1, 2],
     vnodes = (\<lambda>_. \<lparr>v_superblock = 0, v_flags = 4, v_reference_cnt = 1, vnode_covered = None,
        vnode_mounted_here = None, v_pipe = None, tty_sid = -1, char_read_busy = False,
        char_write_busy = False, inode_nr = 7, v_mode = mode, v_uid = 100, v_gid = 10, v_size = 50\<rparr>),
     vnode_free_list = [], vnode_hash = (\<lambda>_. []),
     superblocks = (\<lambda>_. \<lparr>sb_reference_cnt = 1, sb_dev = 0, sb_root = None, sb_flags = 0, vnode_list = []\<rparr>),
     free_superblock_list = [], mounted_superblock_list = [],
     pipes = (\<lambda>_. \<lparr>pipe_data = [], w_pos = 0, r_pos = 0, free_sz = 0, data_sz = 0, reader_cnt = 0,
        writer_cnt = 0\<rparr>), free_pipe_list = []\<rparr>"

lemma one_file_entry:
  "fd_entry p fd (one_file mode) =
     (if fd = 0 then Some \<lparr>fd_filp = Some 0, fd_flags = 6\<rparr>
      else if 0 < fd \<and> fd < 512 then Some \<lparr>fd_filp = None, fd_flags = 0\<rparr> else None)"
  by (auto simp: fd_entry_def one_file_def FILEDESC_MAX_def nth_list_update)

lemma one_file_table: "fd_table (fprocs (one_file mode) p) = \<lparr>fd_filp = Some 0, fd_flags = 6\<rparr> # replicate 511 \<lparr>fd_filp = None, fd_flags = 0\<rparr>"
  by (simp add: one_file_def FILEDESC_MAX_def numeral_eq_Suc)

lemma one_file_inv: "fd_inv {0} (one_file mode)"
proof -
  have ok: "fd_ok \<lparr>fd_filp = Some 0, fd_flags = 6\<rparr>" "fd_valid \<lparr>fd_filp = Some 0, fd_flags = 6\<rparr>"
    by (simp_all add: fd_ok_def fd_valid_def fdf_defs)
  have "tables_ok {0} (one_file mode)"
    using ok by (simp add: tables_ok_def one_file_table FILEDESC_MAX_def)
  moreover have r: "refs {0} i (one_file mode) = (if i = 0 then 1 else 0)" for i
    using ok by (simp add: refs_def tab_refs_def one_file_table)
  have "counts_ok {0} (one_file mode)"
    unfolding counts_ok_def r by (auto simp: one_file_def)
  ultimately show ?thesis by (simp add: fd_inv_def)
qed

section \<open>Properties\<close>

text \<open>
  C8. Duplicating a descriptor. A successful duplication takes the lowest descriptor that is
  not in use from \<open>min\<close> on, makes it name the same file pointer, adds one reference, changes no
  other descriptor of any process and keeps the reference counts exact; an unsuccessful one
  changes nothing.
\<close>

theorem dup_fd_correct:
  assumes "fd_inv P s" and "p \<in> P" and "flags \<in> {0, FDF_CLOSE_ON_EXEC}"
    and "dup_fd p fd lo hi flags s = Some (r, s')"
  shows "case r of
      Inl e \<Rightarrow> s' = s
    | Inr k \<Rightarrow> fd_inv P s' \<and> lo \<le> int k \<and> int k \<le> hi
        \<and> fd_flags (fd_table (fprocs s p) ! k) AND FDF_ALLOCED = 0
        \<and> (\<forall>j. lo \<le> int j \<longrightarrow> j < k \<longrightarrow> fd_flags (fd_table (fprocs s p) ! j) AND FDF_ALLOCED \<noteq> 0)
        \<and> (\<exists>i. filp_get p fd s = Some (Some i) \<and> filp_get p (int k) s' = Some (Some i)
             \<and> f_reference_cnt (filps s' i) = f_reference_cnt (filps s i) + 1)
        \<and> (\<forall>q x. (q, x) \<noteq> (p, int k) \<longrightarrow> fd_entry q x s' = fd_entry q x s)"
  using assms by (rule dup_fd_ok)

theorem dup_fd_correct_witness:
  "fd_inv {0} (one_file 0x8000) \<and> (\<exists>s'. dup_fd 0 0 0 5 0 (one_file 0x8000) = Some (Inr 1, s')
     \<and> fd_inv {0} s' \<and> filp_get 0 1 s' = Some (Some 0))"
proof -
  have f: "filp_get 0 0 (one_file 0x8000) = Some (Some 0)"
    by (simp add: filp_get_Some one_file_entry fd_valid_def fdf_defs FILEDESC_MAX_def)
  have "fd_search (fd_table (fprocs (one_file 0x8000) 0)) 0 6 = Some (Some 1)"
    by (simp add: one_file_table numeral_eq_Suc fdf_defs)
  then have "fd_alloc 0 0 5 (one_file 0x8000)
      = Some (Inr 1, set_fd 0 1 \<lparr>fd_filp = None, fd_flags = FDF_ALLOCED\<rparr> (one_file 0x8000))"
    by (simp add: fd_alloc_def)
  moreover have "fd_entry 0 1 (set_fd 0 1 \<lparr>fd_filp = None, fd_flags = FDF_ALLOCED\<rparr> (one_file 0x8000))
      = Some \<lparr>fd_filp = None, fd_flags = FDF_ALLOCED\<rparr>"
    by (subst fd_entry_set_fd) (simp_all add: one_file_entry)
  ultimately obtain s' where d: "dup_fd 0 0 0 5 0 (one_file 0x8000) = Some (Inr 1, s')"
    using f by (simp add: dup_fd_def)
  from dup_fd_correct [OF one_file_inv _ _ d] f d one_file_inv show ?thesis by simp
qed

text \<open>
  C9. A full descriptor table. Every caller of \<open>fd_alloc\<close> passes \<open>FILEDESC_MAX\<close> as the last
  descriptor and its loop includes that bound, so when all descriptors are taken \<open>sys_dup\<close>
  reads the entry after the end of the table instead of returning \<open>EMFILE\<close>.
\<close>

theorem sys_dup_overruns_full_table:
  assumes "length (fd_table (fprocs s p)) = FILEDESC_MAX"
    and "\<forall>e \<in> set (fd_table (fprocs s p)). fd_flags e AND FDF_ALLOCED \<noteq> 0"
    and "filp_get p fd s = Some (Some i)"
  shows "sys_dup p fd s = None"
proof -
  have "fd_search (fd_table (fprocs s p)) 0 (Suc FILEDESC_MAX) = None"
    by (rule fd_search_overrun) (use assms in auto)
  then have "fd_alloc p 0 (int FILEDESC_MAX) s = None"
    by (simp add: fd_alloc_def nat_add_distrib)
  with assms(3) show ?thesis by (simp add: sys_dup_def dup_fd_def)
qed

definition full_table :: fs where
  "full_table = upd_fproc 0 (\<lambda>fp. fp\<lparr>fd_table := replicate FILEDESC_MAX \<lparr>fd_filp = Some 0, fd_flags = 6\<rparr>\<rparr>)
     (one_file 0x8000)"

theorem sys_dup_overruns_full_table_witness: "sys_dup 0 3 full_table = None"
proof (rule sys_dup_overruns_full_table)
  show "length (fd_table (fprocs full_table 0)) = FILEDESC_MAX" by (simp add: full_table_def)
  show "\<forall>e \<in> set (fd_table (fprocs full_table 0)). fd_flags e AND FDF_ALLOCED \<noteq> 0"
    by (simp add: full_table_def fdf_defs)
  show "filp_get 0 3 full_table = Some (Some 0)"
    by (simp add: filp_get_Some fd_entry_def full_table_def fd_valid_def fdf_defs FILEDESC_MAX_def)
qed

text \<open>
  C10. Closing a descriptor. Of a descriptor that is open, \<open>do_close\<close> (when it does not stop the
  kernel) clears exactly that descriptor, drops one reference and keeps the counts exact: the
  file pointer goes to the free list with its last reference and stays in use otherwise. A
  descriptor that is not open gives \<open>EBADF\<close>, one outside the table \<open>EINVAL\<close>, and nothing changes.
\<close>

theorem do_close_correct:
  assumes inv: "fd_inv P s" and p: "p \<in> P" and call: "do_close p fd s = Some (r, s')"
  shows "if fd < 0 \<or> int FILEDESC_MAX \<le> fd then r = Inl EINVAL \<and> s' = s
     else (case filp_get p fd s of
        Some (Some i) \<Rightarrow> r = Inr () \<and> fd_inv P s' \<and> filp_get p fd s' = Some None
          \<and> f_reference_cnt (filps s' i) = f_reference_cnt (filps s i) - 1
          \<and> (i \<in> set (filp_free_list s') \<longleftrightarrow> f_reference_cnt (filps s i) = 1)
          \<and> (\<forall>q x. (q, x) \<noteq> (p, fd) \<longrightarrow> fd_entry q x s' = fd_entry q x s)
      | _ \<Rightarrow> r = Inl EBADF \<and> s' = s)"
proof (cases "fd < 0 \<or> int FILEDESC_MAX \<le> fd")
  case True
  with call show ?thesis by (auto simp: do_close_def)
next
  case range: False
  from inv have tab: "tables_ok P s" and cnt: "counts_ok P s" by (auto simp: fd_inv_def)
  from range tables_okD [OF tab p, of fd] obtain e where e: "fd_entry p fd s = Some e" by auto
  let ?s1 = "set_fd p fd \<lparr>fd_filp = None, fd_flags = 0\<rparr> s"
  show ?thesis
  proof (cases "filp_get p fd s")
    case None
    with range e show ?thesis by (auto simp: filp_get_def)
  next
    case (Some f)
    show ?thesis
    proof (cases f)
      case None
      with Some call range show ?thesis by (auto simp: do_close_def)
    next
      case f: (Some i)
      let ?s2 = "snd (filp_release i ?s1)"
      from Some f have g: "filp_get p fd s = Some (Some i)" by simp
      with e have ev: "fd_valid e" "fd_filp e = Some i" by (auto simp: filp_get_Some)
      note pos = refs_pos [OF tab p e ev] and fin = do_close_valid [OF inv p g call]
      from pos cnt have i: "f_type (filps s i) \<noteq> FILP_TYPE_FREE" by (auto simp: counts_ok_def)
      then have nfree: "i \<notin> set (filp_free_list s)" using cnt by (auto simp: counts_ok_def)
      have "tables_ok P ?s2"
        by (rule tables_ok_cong [OF tables_ok_set_fd [OF tab, of _ p fd]]) (auto simp: filp_release_def Let_def)
      then have "fd_inv P s'"
        using counts_ok_drop_ref [OF cnt tab p e ev] fd_inv_close_frame [OF conjunct2 [OF fin], of P]
        by (simp add: fd_inv_def)
      moreover have ent: "fd_entry q x s' = fd_entry q x ?s1" for q x
        using fin by (simp add: close_frame_def fd_entry_def filp_release_def Let_def)
      then have "filp_get p fd s' = Some None"
        using range e by (simp add: filp_get_def fd_entry_set_fd)
      ultimately show ?thesis
        using fin range g nfree e ent
        by (auto simp: close_frame_def filp_release_def Let_def fd_entry_set_fd split: if_splits)
    qed
  qed
qed

theorem do_close_correct_witness:
  "\<exists>s'. do_close 0 0 (one_file 0x8000) = Some (Inr (), s') \<and> fd_inv {0} s'
     \<and> 0 \<in> set (filp_free_list s') \<and> filp_get 0 0 s' = Some None"
proof -
  have f: "filp_get 0 0 (one_file 0x8000) = Some (Some 0)"
    by (simp add: filp_get_Some one_file_entry fd_valid_def fdf_defs FILEDESC_MAX_def)
  have "\<exists>s'. do_close 0 0 (one_file 0x8000) = Some (Inr (), s')"
    by (rule do_close_returns [OF one_file_inv _ f])
      (auto simp: one_file_def S_ISFIFO_def S_IFMT_def S_IFIFO_def)
  then obtain s' where "do_close 0 0 (one_file 0x8000) = Some (Inr (), s')" ..
  moreover have "f_reference_cnt (filps (one_file 0x8000) 0) = 1" by (simp add: one_file_def)
  ultimately show ?thesis
    using do_close_correct [OF one_file_inv, of 0 0 "0x8000" "Inr ()" s'] f
    by (auto simp: FILEDESC_MAX_def)
qed

lemma off64_id: "- (2 ^ 63) \<le> x \<Longrightarrow> x < 2 ^ 63 \<Longrightarrow> off64 x = x"
  by (simp add: off64_def)

lemma filp_get_upd_filp [simp]: "filp_get p fd (upd_filp i g s) = filp_get p fd s"
  by (simp add: filp_get_def fd_entry_def)

text \<open>
  Seeking: after setting the position of a regular file or block device, reading it back
  with an offset of zero from the current position returns the position that was set, for
  every 64 bit offset (negative ones included, which are accepted).
\<close>

theorem seek_roundtrip:
  assumes "filp_get p fd s = Some (Some i)" and "vnode_get_from_filp (Some i) s = Some v"
    and "S_ISREG (v_mode (vnodes s v)) \<or> S_ISBLK (v_mode (vnodes s v))"
    and "- (2 ^ 63) \<le> pos" "pos < 2 ^ 63"
  shows "\<exists>s'. sys_lseek64 p fd (Some pos) SEEK_SET s = Some (Inr (off32 pos), Some pos, s')
     \<and> sys_lseek64 p fd (Some 0) SEEK_CUR s' = Some (Inr (off32 pos), Some pos, s')"
  using assms
  by (auto simp: sys_lseek64_def seek_filp_def Let_def off64_id vnode_get_from_filp_def upd_filp_def
      filp_get_def fd_entry_def bind_eq_Some_conv split: if_splits)

theorem seek_roundtrip_witness:
  "\<exists>s'. sys_lseek64 0 0 (Some 1234) SEEK_SET (one_file 0x8000) = Some (Inr 1234, Some 1234, s')
     \<and> sys_lseek64 0 0 (Some 0) SEEK_CUR s' = Some (Inr 1234, Some 1234, s')"
proof -
  have f: "filp_get 0 0 (one_file 0x8000) = Some (Some 0)"
    by (simp add: filp_get_Some one_file_entry fd_valid_def fdf_defs FILEDESC_MAX_def)
  moreover have "vnode_get_from_filp (Some 0) (one_file 0x8000) = Some 0"
    "S_ISREG (v_mode (vnodes (one_file 0x8000) 0))"
    by (simp_all add: vnode_get_from_filp_def one_file_def S_ISREG_def S_IFMT_def S_IFREG_def)
  ultimately show ?thesis
    using seek_roundtrip [of 0 0 "one_file 0x8000" 0 0 1234] by (simp add: off32_def)
qed

end
