(* ===== verification/Pipe.thy ===== *)
theory Pipe
  imports File_Desc_Inv Kernel_Lock
begin

text \<open>
  Pipes (\<open>fs/pipe.c\<close>). Reading and writing
  loop and may sleep; a definition here is one pass of the loop, from its condition to the point
  where it returns, sleeps or goes round again. The user's buffer is a list of bytes; what is
  copied out is the list of writes into it, each at an offset.
\<close>

unbundle bit_operations_syntax

section \<open>Allocation\<close>

definition PIPE_BUF_SZ :: nat where "PIPE_BUF_SZ = 4096"

text \<open>\<open>page\<close> is the content of the page \<open>kmalloc_page\<close> returns.\<close>

definition alloc_pipe :: "u8 list option \<Rightarrow> fs \<Rightarrow> nat option \<times> fs" where
  "alloc_pipe page s =
     (case free_pipe_list s of
        [] \<Rightarrow> (None, s)
      | i # is \<Rightarrow>
          (let s1 = upd_pipe i (\<lambda>q. q\<lparr>w_pos := 0, r_pos := 0, data_sz := 0, free_sz := int PIPE_BUF_SZ,
                      reader_cnt := 0, writer_cnt := 0\<rparr>) (s\<lparr>free_pipe_list := is\<rparr>)
           in case page of
                None \<Rightarrow> (None, s1\<lparr>free_pipe_list := i # free_pipe_list s1\<rparr>)
              | Some d \<Rightarrow> (Some i, (upd_pipe i (\<lambda>q. q\<lparr>pipe_data := d\<rparr>) s1)
                            \<lparr>ks := InitRendez (pipe_rendez i) (ks s1)\<rparr>)))"

definition free_pipe :: "nat \<Rightarrow> fs \<Rightarrow> fs" where
  "free_pipe i s = s\<lparr>free_pipe_list := i # free_pipe_list s\<rparr>"

text \<open>
  \<open>sys_pipe\<close>: \<open>sb\<close> is \<open>pipe_sb\<close>, \<open>copyout_ok\<close> the outcome of copying the two descriptors to the
  caller, which returns -1 (\<open>EPERM\<close>) when it fails. The result is the pair of descriptors.
\<close>

definition set_filedesc :: "nat \<Rightarrow> nat \<Rightarrow> (filedesc \<Rightarrow> filedesc) \<Rightarrow> fs \<Rightarrow> fs" where
  "set_filedesc p fd f s = set_fd p (int fd) (f (fd_table (fprocs s p) ! fd)) s"

definition pipe_fill :: "nat \<Rightarrow> nat \<Rightarrow> nat \<Rightarrow> nat \<Rightarrow> nat \<Rightarrow> nat \<Rightarrow> nat \<Rightarrow> fs \<Rightarrow> fs" where
  "pipe_fill p i v fd0 fd1 f0 f1 s =
     (let s1 = upd_vnode v (\<lambda>n. n\<lparr>v_pipe := Some i, v_mode := v_mode n OR (S_IFIFO OR 0x180),
                 v_uid := uid (creds s p), v_gid := gid (creds s p)\<rparr>) s;
          s2 = upd_filp f0 (\<lambda>f. f\<lparr>f_type := FILP_TYPE_VNODE, f_u := Some v, f_offset := 0,
                 f_flags := O_RDONLY\<rparr>) s1;
          s3 = upd_filp f1 (\<lambda>f. f\<lparr>f_type := FILP_TYPE_VNODE, f_u := Some v, f_offset := 0,
                 f_flags := O_WRONLY\<rparr>) s2;
          s4 = upd_pipe i (\<lambda>q. q\<lparr>reader_cnt := 1, writer_cnt := 1\<rparr>) s3;
          s5 = set_filedesc p fd0 (\<lambda>e. e\<lparr>fd_filp := Some f0\<rparr>) s4;
          s6 = set_filedesc p fd1 (\<lambda>e. e\<lparr>fd_filp := Some f1\<rparr>) s5
      in vnode_ref v s6)"

definition sys_pipe :: "nat \<Rightarrow> u8 list option \<Rightarrow> bool \<Rightarrow> nat \<Rightarrow> fs \<Rightarrow> ((nat \<times> nat) result \<times> fs) option" where
  "sys_pipe sb page copyout_ok current s =
     (let (pi, s1) = alloc_pipe page s
      in case pi of
           None \<Rightarrow> Some (Inl ENOMEM, s1)
         | Some i \<Rightarrow> do {
             (r0, s2) \<leftarrow> fd_alloc current 0 (int FILEDESC_MAX) s1;
             (case r0 of
                Inl _ \<Rightarrow> Some (Inl ENOMEM, free_pipe i s2)
              | Inr fd0 \<Rightarrow> do {
                  (fo0, s3) \<leftarrow> filp_get_new s2;
                  (case fo0 of
                     None \<Rightarrow> do { (_, t1) \<leftarrow> fd_free current (int fd0) s3; Some (Inl ENOMEM, free_pipe i t1) }
                   | Some f0 \<Rightarrow> do {
                       (r1, s4) \<leftarrow> fd_alloc current 0 (int FILEDESC_MAX) s3;
                       (case r1 of
                          Inl _ \<Rightarrow> do {
                            (_, t2) \<leftarrow> fd_free current (int fd0) (snd (filp_release f0 s4));
                            Some (Inl ENOMEM, free_pipe i t2) }
                        | Inr fd1 \<Rightarrow> do {
                            (fo1, s5) \<leftarrow> filp_get_new s4;
                            (case fo1 of
                               None \<Rightarrow> do {
                                 (_, t1) \<leftarrow> fd_free current (int fd1) s5;
                                 (_, t2) \<leftarrow> fd_free current (int fd0) (snd (filp_release f0 t1));
                                 Some (Inl ENOMEM, free_pipe i t2) }
                             | Some f1 \<Rightarrow> do {
                                 (vo, s6) \<leftarrow> vnode_get_new sb s5;
                                 (rc, s7) \<leftarrow> (case vo of
                                    None \<Rightarrow> Some (Some ENOMEM, s6)
                                  | Some v \<Rightarrow>
                                      (let t = pipe_fill current i v fd0 fd1 f0 f1 s6
                                       in if copyout_ok then
                                            Some (None, set_filedesc current fd1 (\<lambda>e. e\<lparr>fd_flags := fd_flags e OR FDF_VALID\<rparr>)
                                              (set_filedesc current fd0 (\<lambda>e. e\<lparr>fd_flags := fd_flags e OR FDF_VALID\<rparr>) t))
                                          else do {
                                            t1 \<leftarrow> vnode_put_fifo_writer v t;
                                            t2 \<leftarrow> vnode_put_fifo_reader v t1;
                                            Some (Some EPERM, t2) }));
                                 (case rc of
                                    None \<Rightarrow> Some (Inr (fd0, fd1), s7)
                                  | Some e \<Rightarrow> do {
                                      (_, t3) \<leftarrow> fd_free current (int fd1) (snd (filp_release f1 s7));
                                      (_, t4) \<leftarrow> fd_free current (int fd0) (snd (filp_release f0 t3));
                                      Some (Inl e, free_pipe i t4) }) }) }) }) }) })"

section \<open>Reading and writing\<close>

text \<open>Overwrite a run of bytes.\<close>

definition put_bytes :: "'a list \<Rightarrow> nat \<Rightarrow> 'a list \<Rightarrow> 'a list" where
  "put_bytes xs off ys = take off xs @ ys @ drop (off + length ys) xs"

text \<open>
  One pass of the loop of \<open>read_from_pipe\<close>; \<open>fault1\<close> and \<open>fault2\<close> are \<open>Some k\<close> when the first or
  second \<open>copyout\<close> fails after \<open>k\<close> bytes. The second component is what was written to the user's
  buffer.
\<close>

definition read_from_pipe ::
    "nat option \<Rightarrow> nat option \<Rightarrow> nat \<Rightarrow> int \<Rightarrow> fs \<Rightarrow> (int result pass \<times> (nat \<times> u8 list) list \<times> fs) option" where
  "read_from_pipe fault1 fault2 i sz s =
     (let q = pipes s i
      in if data_sz q = 0 \<and> writer_cnt q > 0 then
           map_option (\<lambda>k. (Sleep, [], s\<lparr>ks := k\<rparr>)) (TaskSleep (pipe_rendez i) (ks s))
         else if writer_cnt q = 0 \<and> data_sz q = 0 then Some (Return (Inr 0), [], s)
         else
           (let n = (if sz < data_sz q then sz else data_sz q);
                split = r_pos q + n > int PIPE_BUF_SZ;
                sz1 = (if split then int PIPE_BUF_SZ - r_pos q else 0);
                sz2 = n - sz1;
                w1 = (if split then [(0, take (nat sz1) (drop (nat (r_pos q)) (pipe_data q)))] else []);
                w2 = (if sz2 \<noteq> 0 then [(0, take (nat sz2) (pipe_data q))] else [])
            in if split \<and> fault1 \<noteq> None then
                 Some (Return (Inl EIO), map (\<lambda>(off, d). (off, take (the fault1) d)) w1, s)
               else if sz2 \<noteq> 0 \<and> fault2 \<noteq> None then
                 Some (Return (Inl EIO), w1 @ map (\<lambda>(off, d). (off, take (the fault2) d)) w2, s)
               else do {
                 s1 \<leftarrow> wakeup_all (pipe_rendez i)
                   (upd_pipe i (\<lambda>q. q\<lparr>r_pos := c_mod (r_pos q + n) (int PIPE_BUF_SZ),
                      data_sz := data_sz q - n, free_sz := free_sz q + n\<rparr>) s);
                 Some (if n = 0 then Again else Return (Inr n), w1 @ w2, s1) }))"

text \<open>
  The part of the loop of \<open>write_to_pipe\<close> that moves \<open>n\<close> bytes: the copies, the update of the
  positions and sizes, and the wakeup. \<open>src\<close> is the caller's data.
\<close>

definition write_chunk ::
    "nat option \<Rightarrow> nat option \<Rightarrow> nat \<Rightarrow> int \<Rightarrow> u8 list \<Rightarrow> fs \<Rightarrow> (int result pass \<times> fs) option" where
  "write_chunk fault1 fault2 i n src s =
     (let q = pipes s i;
          split = w_pos q + n > int PIPE_BUF_SZ;
          sz1 = (if split then int PIPE_BUF_SZ - w_pos q else 0);
          sz2 = n - sz1;
          c1 = take (nat sz1) src; c2 = take (nat sz2) (drop (nat sz1) src);
          d1 = (if split then put_bytes (pipe_data q) (nat (w_pos q)) c1 else pipe_data q);
          d2 = (if sz2 \<noteq> 0 then put_bytes d1 0 c2 else d1)
      in if split \<and> fault1 \<noteq> None then
           Some (Return (Inl EIO), upd_pipe i (\<lambda>q. q\<lparr>pipe_data :=
             put_bytes (pipe_data q) (nat (w_pos q)) (take (the fault1) c1)\<rparr>) s)
         else if sz2 \<noteq> 0 \<and> fault2 \<noteq> None then
           Some (Return (Inl EIO), upd_pipe i (\<lambda>q. q\<lparr>pipe_data := put_bytes d1 0 (take (the fault2) c2)\<rparr>) s)
         else do {
           s1 \<leftarrow> wakeup_all (pipe_rendez i)
             (upd_pipe i (\<lambda>q. q\<lparr>pipe_data := d2, w_pos := c_mod (w_pos q + n) (int PIPE_BUF_SZ),
                data_sz := data_sz q + n, free_sz := free_sz q - n\<rparr>) s);
           Some (if n = 0 then Again else Return (Inr n), s1) })"

text \<open>One pass of the loop of \<open>write_to_pipe\<close>; \<open>PIPE_BUF\<close> is the constant of the C library.\<close>

definition write_to_pipe ::
    "int \<Rightarrow> nat option \<Rightarrow> nat option \<Rightarrow> nat \<Rightarrow> u8 list \<Rightarrow> fs \<Rightarrow> (int result pass \<times> fs) option" where
  "write_to_pipe PIPE_BUF fault1 fault2 i src s =
     (let q = pipes s i; sz = int (length src)
      in if free_sz q < PIPE_BUF \<and> reader_cnt q > 0 then
           map_option (\<lambda>k. (Sleep, s\<lparr>ks := k\<rparr>)) (TaskSleep (pipe_rendez i) (ks s))
         else if reader_cnt q = 0 then Some (Return (Inr 0), s)
         else write_chunk fault1 fault2 i (if sz < free_sz q then sz else free_sz q) src s)"

section \<open>The ring buffer\<close>

definition pipe_ok :: "pipe \<Rightarrow> bool" where
  "pipe_ok q \<longleftrightarrow> 0 \<le> data_sz q \<and> 0 \<le> free_sz q \<and> data_sz q + free_sz q = int PIPE_BUF_SZ
     \<and> 0 \<le> r_pos q \<and> r_pos q < int PIPE_BUF_SZ
     \<and> w_pos q = (r_pos q + data_sz q) mod int PIPE_BUF_SZ
     \<and> length (pipe_data q) = PIPE_BUF_SZ"

lemma length_put_bytes: "off + length ys \<le> length xs \<Longrightarrow> length (put_bytes xs off ys) = length xs"
  by (simp add: put_bytes_def)

lemma take_put_bytes_0: "take (length ys) (put_bytes xs 0 ys) = ys"
  by (simp add: put_bytes_def)

lemma wakeup_all_ok:
  assumes "kernel_inv (ks s)" and "bkl_locked (ks s)"
  shows "\<exists>k. wakeup_all r s = Some (s\<lparr>ks := k\<rparr>) \<and> kernel_inv k \<and> bkl_locked k"
  using TaskWakeupAll_ok [OF assms, of r] assms(2)
  by (auto simp: wakeup_all_def wake_frame_def)

lemma pipe_ok_read:
  assumes "pipe_ok q" and "0 \<le> n" "n \<le> data_sz q"
  shows "pipe_ok (q\<lparr>r_pos := c_mod (r_pos q + n) (int PIPE_BUF_SZ), data_sz := data_sz q - n,
     free_sz := free_sz q + n\<rparr>)"
  using assms by (simp add: pipe_ok_def c_mod_nonneg mod_add_left_eq PIPE_BUF_SZ_def)

lemma pipe_ok_write:
  assumes "pipe_ok q" and "0 \<le> n" "n \<le> free_sz q" and "length d = PIPE_BUF_SZ"
  shows "pipe_ok (q\<lparr>pipe_data := d, w_pos := c_mod (w_pos q + n) (int PIPE_BUF_SZ),
     data_sz := data_sz q + n, free_sz := free_sz q - n\<rparr>)"
  using assms
  by (simp add: pipe_ok_def c_mod_nonneg mod_add_left_eq PIPE_BUF_SZ_def add.assoc)

lemma wakeup_all_pipes: "wakeup_all r s = Some s' \<Longrightarrow> pipes s' = pipes s"
  by (auto simp: wakeup_all_def)

lemma pipe_ok_bounds:
  assumes "pipe_ok q"
  shows "0 \<le> w_pos q" "w_pos q < int PIPE_BUF_SZ" "0 \<le> data_sz q" "0 \<le> free_sz q"
    "length (pipe_data q) = PIPE_BUF_SZ" "data_sz q + free_sz q = int PIPE_BUF_SZ"
  using assms by (auto simp: pipe_ok_def PIPE_BUF_SZ_def)

lemma pipe_ok_data: "pipe_ok q \<Longrightarrow> length d = PIPE_BUF_SZ \<Longrightarrow> pipe_ok (q\<lparr>pipe_data := d\<rparr>)"
  by (simp add: pipe_ok_def)

lemma length_put_bytes_chunk:
  "length d = PIPE_BUF_SZ \<Longrightarrow> 0 \<le> w \<Longrightarrow> w + n \<le> int PIPE_BUF_SZ \<Longrightarrow> int (length c) \<le> n \<Longrightarrow>
     length (put_bytes d (nat w) c) = PIPE_BUF_SZ"
  by (subst length_put_bytes) auto

lemma c_mod_pos:
  "pipe_ok q \<Longrightarrow> c_mod (r_pos q) (int PIPE_BUF_SZ) = r_pos q"
  "pipe_ok q \<Longrightarrow> c_mod (w_pos q) (int PIPE_BUF_SZ) = w_pos q"
  using pipe_ok_bounds(1,2) [of q] by (auto simp: c_mod_nonneg pipe_ok_def)

lemma read_from_pipe_ok:
  assumes "pipe_ok (pipes s i)" and "0 \<le> sz" and "read_from_pipe f1 f2 i sz s = Some (o1, ws, s1)"
  shows "pipe_ok (pipes s1 i) \<and> (\<forall>n. o1 = Return (Inr n) \<longrightarrow> 0 \<le> n \<and> n \<le> sz)"
  using assms(3) pipe_ok_bounds [OF assms(1)] assms(2) assms(1)
    pipe_ok_read [OF assms(1), of sz] pipe_ok_read [OF assms(1), of "data_sz (pipes s i)"]
  by (auto simp: read_from_pipe_def Let_def c_mod_pos split: if_splits bind_splits dest!: wakeup_all_pipes)

lemma write_chunk_ok:
  assumes ok: "pipe_ok (pipes s i)" and n: "0 \<le> n" "n \<le> free_sz (pipes s i)" "n \<le> int (length src)"
    and w: "write_chunk f1 f2 i n src s = Some (r, s')"
  shows "pipe_ok (pipes s' i) \<and> (\<forall>m. r = Return (Inr m) \<longrightarrow> m = n)"
  using w pipe_ok_bounds [OF ok] n
  by (auto simp: write_chunk_def Let_def length_put_bytes ok c_mod_pos [OF ok] split: if_splits bind_splits
      intro!: pipe_ok_data [OF ok] pipe_ok_write [OF ok] dest!: wakeup_all_pipes)

lemma write_to_pipe_ok:
  assumes ok: "pipe_ok (pipes s i)" and w: "write_to_pipe pb f1 f2 i src s = Some (o2, s2)"
  shows "pipe_ok (pipes s2 i) \<and> (\<forall>n. o2 = Return (Inr n) \<longrightarrow> 0 \<le> n \<and> n \<le> int (length src))"
proof -
  let ?n = "if int (length src) < free_sz (pipes s i) then int (length src) else free_sz (pipes s i)"
  have n: "0 \<le> ?n" "?n \<le> free_sz (pipes s i)" "?n \<le> int (length src)"
    using pipe_ok_bounds(4) [OF ok] by simp_all
  consider k where "o2 = Sleep" "s2 = s\<lparr>ks := k\<rparr>" | "o2 = Return (Inr 0)" "s2 = s"
    | "write_chunk f1 f2 i ?n src s = Some (o2, s2)"
    using w unfolding write_to_pipe_def Let_def by (fastforce split: if_split_asm)
  then show ?thesis
  proof cases
    case 3
    from write_chunk_ok [OF ok n this] n show ?thesis by blast
  qed (use ok in simp_all)
qed

section \<open>Creating a pipe\<close>

lemma vnode_get_new_ref:
  "vnode_get_new sb s = Some (Some v, s') \<Longrightarrow> v_reference_cnt (vnodes s' v) = 1 \<and> v_mode (vnodes s' v) = 0"
  by (auto simp: vnode_get_new_def split: if_splits list.splits bind_splits)

lemma pipe_fill_simps:
  "v_reference_cnt (vnodes (pipe_fill p i v fd0 fd1 f0 f1 s) v) = v_reference_cnt (vnodes s v) + 1"
  "v_pipe (vnodes (pipe_fill p i v fd0 fd1 f0 f1 s) v) = Some i"
  "v_mode (vnodes (pipe_fill p i v fd0 fd1 f0 f1 s) v) = v_mode (vnodes s v) OR (S_IFIFO OR 0x180)"
  "reader_cnt (pipes (pipe_fill p i v fd0 fd1 f0 f1 s) i) = 1"
  "writer_cnt (pipes (pipe_fill p i v fd0 fd1 f0 f1 s) i) = 1"
  by (simp_all add: pipe_fill_def Let_def set_filedesc_def vnode_ref_def)

lemma wakeup_all_Some: "wakeup_all r s = Some s' \<longleftrightarrow> (\<exists>k. TaskWakeupAll r (ks s) = Some k \<and> s' = s\<lparr>ks := k\<rparr>)"
  by (auto simp: wakeup_all_def)

lemma put_writer_frame:
  assumes "vnode_put_fifo_writer v s = Some s'" and "v_pipe (vnodes s v) = Some i"
    and "reader_cnt (pipes s i) \<noteq> 0"
  shows "vnodes s' = vnodes s \<and> reader_cnt (pipes s' i) = reader_cnt (pipes s i)
    \<and> writer_cnt (pipes s' i) = writer_cnt (pipes s i) - 1"
proof -
  let ?s1 = "upd_pipe i (\<lambda>q. q\<lparr>writer_cnt := writer_cnt q - 1\<rparr>) s"
  from assms have "s' = ?s1 \<or> wakeup_all (pipe_rendez i) ?s1 = Some s'"
    by (auto simp: vnode_put_fifo_writer_def wakeup_all_Some Let_def split: if_splits bind_splits)
  then show ?thesis by (auto simp: wakeup_all_Some)
qed

lemma put_last_reader_None:
  assumes "v_pipe (vnodes s v) = Some i" "reader_cnt (pipes s i) = 1" "writer_cnt (pipes s i) = 0"
    and "v_reference_cnt (vnodes s v) \<noteq> 0"
  shows "vnode_put_fifo_reader v s = None"
  using assms
  by (cases "TaskWakeupAll (pipe_rendez i) (ks s)")
    (auto simp: vnode_put_fifo_reader_def Let_def wakeup_all_def kassert_def)

lemma sys_pipe_fault_None:
  assumes "sys_pipe sb page True p s = Some (Inr r, s')"
  shows "sys_pipe sb page False p s = None"
proof -
  have panic: "vnode_put_fifo_writer v (pipe_fill p i v fd0 fd1 f0 f1 t) = Some t1 \<Longrightarrow>
      vnode_put_fifo_reader v t1 = None" if "vnode_get_new sb u = Some (Some v, t)" for u v t i fd0 fd1 f0 f1 t1
    using put_writer_frame [of v "pipe_fill p i v fd0 fd1 f0 f1 t" t1 i] vnode_get_new_ref [OF that]
      put_last_reader_None [of t1 v i]
    by (simp add: pipe_fill_simps)
  show ?thesis
    using assms unfolding sys_pipe_def
    by (auto simp: Let_def panic split: prod.splits option.splits sum.splits bind_splits)
qed

section \<open>Moving data\<close>

lemma write_no_wrap:
  assumes ok: "pipe_ok (pipes s i)" and r: "reader_cnt (pipes s i) > 0"
    and k: "kernel_inv (ks s)" "bkl_locked (ks s)"
    and n: "src \<noteq> []" "int (length src) \<le> free_sz (pipes s i)" "pb \<le> free_sz (pipes s i)"
    and nowrap: "w_pos (pipes s i) + int (length src) \<le> int PIPE_BUF_SZ"
  shows "\<exists>s1. write_to_pipe pb None None i src s = Some (Return (Inr (int (length src))), s1)
    \<and> kernel_inv (ks s1) \<and> bkl_locked (ks s1)
    \<and> pipes s1 i = (pipes s i)\<lparr>pipe_data := put_bytes (pipe_data (pipes s i)) 0 src,
        w_pos := c_mod (w_pos (pipes s i) + int (length src)) (int PIPE_BUF_SZ),
        data_sz := data_sz (pipes s i) + int (length src), free_sz := free_sz (pipes s i) - int (length src)\<rparr>"
proof -
  let ?f = "\<lambda>q. q\<lparr>pipe_data := put_bytes (pipe_data (pipes s i)) 0 src,
      w_pos := c_mod (w_pos q + int (length src)) (int PIPE_BUF_SZ),
      data_sz := data_sz q + int (length src), free_sz := free_sz q - int (length src)\<rparr>"
  obtain k' where k': "wakeup_all (pipe_rendez i) (upd_pipe i ?f s) = Some ((upd_pipe i ?f s)\<lparr>ks := k'\<rparr>)"
      "kernel_inv k'" "bkl_locked k'"
    using wakeup_all_ok [of "upd_pipe i ?f s" "pipe_rendez i"] k by auto
  have "write_chunk None None i (int (length src)) src s
      = Some (Return (Inr (int (length src))), (upd_pipe i ?f s)\<lparr>ks := k'\<rparr>)"
    using nowrap n(1) k'(1) by (simp add: write_chunk_def)
  moreover have "write_to_pipe pb None None i src s = write_chunk None None i (int (length src)) src s"
    using n r by (cases "int (length src) < free_sz (pipes s i)") (auto simp: write_to_pipe_def Let_def)
  ultimately show ?thesis using k' by simp
qed

lemma read_no_wrap:
  assumes ok: "pipe_ok (pipes s i)" and k: "kernel_inv (ks s)" "bkl_locked (ks s)"
    and n: "0 < data_sz (pipes s i)" and nowrap: "r_pos (pipes s i) + data_sz (pipes s i) \<le> int PIPE_BUF_SZ"
  shows "\<exists>s1. read_from_pipe None None i (data_sz (pipes s i)) s
      = Some (Return (Inr (data_sz (pipes s i))), [(0, take (nat (data_sz (pipes s i))) (pipe_data (pipes s i)))], s1)
    \<and> data_sz (pipes s1 i) = 0"
proof -
  let ?n = "data_sz (pipes s i)"
  let ?f = "\<lambda>q. q\<lparr>r_pos := c_mod (r_pos q + ?n) (int PIPE_BUF_SZ),
      data_sz := data_sz q - ?n, free_sz := free_sz q + ?n\<rparr>"
  obtain k' where "wakeup_all (pipe_rendez i) (upd_pipe i ?f s) = Some ((upd_pipe i ?f s)\<lparr>ks := k'\<rparr>)"
    using wakeup_all_ok [of "upd_pipe i ?f s" "pipe_rendez i"] k by auto
  then show ?thesis using n nowrap by (simp add: read_from_pipe_def Let_def)
qed

definition in_kernel :: kstate where
  "in_kernel = booted\<lparr>bkl_locked := True, bkl_owner := Some 2\<rparr>"

lemma in_kernel_inv: "kernel_inv in_kernel" "bkl_locked in_kernel"
  using kconfig_invD(1) [OF kreach_booted [OF boot_state_eq booted_enter]] by (simp_all add: in_kernel_def)

text \<open>A pipe that is open at both ends and empty.\<close>

definition one_pipe :: fs where
  "one_pipe = (one_file 0x8000)\<lparr>ks := in_kernel,
     pipes := (\<lambda>_. \<lparr>pipe_data = replicate PIPE_BUF_SZ 0, w_pos = 0, r_pos = 0, free_sz = int PIPE_BUF_SZ,
        data_sz = 0, reader_cnt = 1, writer_cnt = 1\<rparr>),
     free_pipe_list := [1],
     vnodes := (\<lambda>_. (vnodes (one_file 0x8000) 0)\<lparr>v_flags := 0\<rparr>), vnode_free_list := [3]\<rparr>"

lemma one_pipe_ok: "pipe_ok (pipes one_pipe i)" "kernel_inv (ks one_pipe)" "bkl_locked (ks one_pipe)"
  using in_kernel_inv by (simp_all add: one_pipe_def pipe_ok_def PIPE_BUF_SZ_def)

lemma one_pipe_table: "fd_table (fprocs one_pipe 0) = \<lparr>fd_filp = Some 0, fd_flags = 6\<rparr> # replicate 511 \<lparr>fd_filp = None, fd_flags = 0\<rparr>"
  using one_file_table [of "0x8000" 0] by (simp add: one_pipe_def)

lemma one_pipe_created: "\<exists>s'. sys_pipe 0 (Some (replicate PIPE_BUF_SZ 0)) True 0 one_pipe = Some (Inr (1, 2), s')"
proof -
  have search: "fd_search (fd_table (fprocs one_pipe 0)) 0 513 = Some (Some 1)"
    "fd_search ((fd_table (fprocs one_pipe 0))[1 := \<lparr>fd_filp = None, fd_flags = FDF_ALLOCED\<rparr>]) 0 513 = Some (Some 2)"
    by (simp_all add: one_pipe_table numeral_eq_Suc fdf_defs)
  have lists: "free_pipe_list one_pipe = [1]" "filp_free_list one_pipe = [1, 2]" "vnode_free_list one_pipe = [3]"
    "v_flags (vnodes one_pipe 3) = 0" "f_type (filps one_pipe 1) = FILP_TYPE_FREE" "f_type (filps one_pipe 2) = FILP_TYPE_FREE" "sb_flags (superblocks one_pipe 0) = 0"
    by (simp_all add: one_pipe_def one_file_def)
  show ?thesis
    using search lists
    by (simp add: sys_pipe_def alloc_pipe_def fd_alloc_def FILEDESC_MAX_def filp_get_new_def vnode_get_new_def Let_def)
qed
text \<open>
  C11. The ring buffer's bookkeeping: every pass of reading or writing a pipe, successful,
  failing or sleeping, keeps the sizes and positions consistent, and what a pass returns is
  between zero and what was asked for.
\<close>

theorem pipe_pass_invariant:
  assumes "pipe_ok (pipes s i)" and "0 \<le> sz"
  shows "(\<forall>o1 ws s1. read_from_pipe f1 f2 i sz s = Some (o1, ws, s1) \<longrightarrow>
       pipe_ok (pipes s1 i) \<and> (\<forall>n. o1 = Return (Inr n) \<longrightarrow> 0 \<le> n \<and> n \<le> sz))
    \<and> (\<forall>o2 s2. write_to_pipe pb f1 f2 i src s = Some (o2, s2) \<longrightarrow>
       pipe_ok (pipes s2 i) \<and> (\<forall>n. o2 = Return (Inr n) \<longrightarrow> 0 \<le> n \<and> n \<le> int (length src)))"
  by (rule conjI) (use read_from_pipe_ok [OF assms] write_to_pipe_ok [OF assms(1)] in presburger)+

theorem pipe_pass_invariant_witness:
  "\<exists>s1. write_to_pipe 512 None None 0 [104, 105] one_pipe = Some (Return (Inr 2), s1) \<and> pipe_ok (pipes s1 0)"
proof -
  from write_no_wrap [OF one_pipe_ok(1) _ one_pipe_ok(2,3), of 0 "[104, 105]" 512] obtain s1 where
    "write_to_pipe 512 None None 0 [104, 105] one_pipe = Some (Return (Inr 2), s1)"
    by (auto simp: one_pipe_def PIPE_BUF_SZ_def)
  moreover have "pipe_ok (pipes s1 0)"
    using pipe_pass_invariant [OF one_pipe_ok(1), of 0] calculation by blast
  ultimately show ?thesis by blast
qed

text \<open>
  C12. Data written to an empty pipe is what is read from it, as long as it does not wrap around
  the end of the buffer: the write takes all of it, the read returns it and the pipe is empty
  again.
\<close>

theorem pipe_roundtrip:
  assumes "pipe_ok (pipes s i)" "data_sz (pipes s i) = 0" "reader_cnt (pipes s i) > 0"
    and "kernel_inv (ks s)" "bkl_locked (ks s)"
    and "src \<noteq> []" "pb \<le> int PIPE_BUF_SZ" "w_pos (pipes s i) + int (length src) \<le> int PIPE_BUF_SZ"
  shows "\<exists>s1 s2. write_to_pipe pb None None i src s = Some (Return (Inr (int (length src))), s1)
     \<and> read_from_pipe None None i (int (length src)) s1 = Some (Return (Inr (int (length src))), [(0, src)], s2)
     \<and> data_sz (pipes s2 i) = 0"
proof -
  note b = pipe_ok_bounds [OF assms(1)]
  obtain s1 where w: "write_to_pipe pb None None i src s = Some (Return (Inr (int (length src))), s1)"
    and k: "kernel_inv (ks s1)" "bkl_locked (ks s1)"
    and q: "data_sz (pipes s1 i) = int (length src)" "r_pos (pipes s1 i) = r_pos (pipes s i)"
      "pipe_data (pipes s1 i) = put_bytes (pipe_data (pipes s i)) 0 src"
    using write_no_wrap [of s i src pb] assms b by auto
  have ok: "pipe_ok (pipes s1 i)" using write_to_pipe_ok [OF assms(1) w] by blast
  have "w_pos (pipes s i) = r_pos (pipes s i)" using assms(1,2) by (simp add: pipe_ok_def)
  with read_no_wrap [OF ok k] q assms(6,8) w show ?thesis by (simp add: take_put_bytes_0)
qed

theorem pipe_roundtrip_witness:
  "\<exists>s1 s2. write_to_pipe 512 None None 0 [104, 105] one_pipe = Some (Return (Inr 2), s1)
     \<and> read_from_pipe None None 0 2 s1 = Some (Return (Inr 2), [(0, [104, 105])], s2)
     \<and> data_sz (pipes s2 0) = 0"
  using pipe_roundtrip [OF one_pipe_ok(1) _ _ one_pipe_ok(2,3), of 0 "[104, 105]" 512]
  by (simp add: one_pipe_def PIPE_BUF_SZ_def)

text \<open>
  A second write before the first is read overwrites it: \<open>write_to_pipe\<close> copies to the start
  of the buffer whatever the write position, and \<open>read_from_pipe\<close> copies from there. Reading back
  two messages of the same length gives the second in the place of the first.
\<close>

theorem pipe_second_write_overwrites:
  assumes "pipe_ok (pipes s i)" "data_sz (pipes s i) = 0" "reader_cnt (pipes s i) > 0"
    and "kernel_inv (ks s)" "bkl_locked (ks s)" "xs \<noteq> []" "ys \<noteq> []"
    and "pb + int (length xs) \<le> int PIPE_BUF_SZ"
    and "w_pos (pipes s i) + int (length xs) + int (length ys) < int PIPE_BUF_SZ"
  shows "\<exists>s1 s2 s3 d. write_to_pipe pb None None i xs s = Some (Return (Inr (int (length xs))), s1)
     \<and> write_to_pipe pb None None i ys s1 = Some (Return (Inr (int (length ys))), s2)
     \<and> read_from_pipe None None i (int (length xs) + int (length ys)) s2
         = Some (Return (Inr (int (length xs) + int (length ys))), [(0, d)], s3)
     \<and> take (length ys) d = ys \<and> (length xs = length ys \<and> xs \<noteq> ys \<longrightarrow> d \<noteq> xs @ ys)"
proof -
  note b = pipe_ok_bounds [OF assms(1)]
  have wr: "w_pos (pipes s i) = r_pos (pipes s i)" using assms(1,2) by (simp add: pipe_ok_def)
  obtain s1 where w1: "write_to_pipe pb None None i xs s = Some (Return (Inr (int (length xs))), s1)"
    and k1: "kernel_inv (ks s1)" "bkl_locked (ks s1)"
    and q1: "data_sz (pipes s1 i) = int (length xs)" "r_pos (pipes s1 i) = r_pos (pipes s i)"
      "w_pos (pipes s1 i) = w_pos (pipes s i) + int (length xs)" "reader_cnt (pipes s1 i) > 0"
      "free_sz (pipes s1 i) = int PIPE_BUF_SZ - int (length xs)"
    using write_no_wrap [of s i xs pb] assms b by (auto simp: c_mod_nonneg)
  have ok1: "pipe_ok (pipes s1 i)" using write_to_pipe_ok [OF assms(1) w1] by blast
  obtain s2 where w2: "write_to_pipe pb None None i ys s1 = Some (Return (Inr (int (length ys))), s2)"
    and k2: "kernel_inv (ks s2)" "bkl_locked (ks s2)"
    and q2: "data_sz (pipes s2 i) = int (length xs) + int (length ys)" "r_pos (pipes s2 i) = r_pos (pipes s i)"
      "pipe_data (pipes s2 i) = put_bytes (pipe_data (pipes s1 i)) 0 ys"
    using write_no_wrap [of s1 i ys pb] assms(7-9) q1 ok1 k1 b(1) by auto
  have ok2: "pipe_ok (pipes s2 i)" using write_to_pipe_ok [OF ok1 w2] by blast
  let ?d = "take (length xs + length ys) (put_bytes (pipe_data (pipes s1 i)) 0 ys)"
  have d: "take (length ys) ?d = ys" by (simp add: put_bytes_def)
  have "0 < int (length xs) + int (length ys)" using assms(6) by (cases xs) simp_all
  then obtain s3 where "read_from_pipe None None i (int (length xs) + int (length ys)) s2
      = Some (Return (Inr (int (length xs) + int (length ys))), [(0, ?d)], s3)"
    using read_no_wrap [OF ok2 k2] q2 assms(9) wr by (auto simp: nat_add_distrib)
  with w1 w2 d show ?thesis by (metis append_eq_conv_conj)
qed

theorem pipe_second_write_overwrites_witness:
  "\<exists>s1 s2 s3 d. write_to_pipe 512 None None 0 [97, 98] one_pipe = Some (Return (Inr 2), s1)
     \<and> write_to_pipe 512 None None 0 [99, 100] s1 = Some (Return (Inr 2), s2)
     \<and> read_from_pipe None None 0 4 s2 = Some (Return (Inr 4), [(0, d)], s3) \<and> d \<noteq> [97, 98, 99, 100]"
  using pipe_second_write_overwrites [OF one_pipe_ok(1) _ _ one_pipe_ok(2,3), of 0 "[97, 98]" "[99, 100]" 512]
  by (simp add: one_pipe_def PIPE_BUF_SZ_def) blast

text \<open>
  C13. The error path of \<open>sys_pipe\<close> stops the kernel: whenever creating a pipe would succeed, a
  fault on copying out the two descriptors ends in the assertion that the vnode is unreferenced,
  because dropping the two ends never drops the references \<open>sys_pipe\<close> has taken.
\<close>

theorem sys_pipe_fault_panics:
  assumes "sys_pipe sb page True p s = Some (Inr fds, s')"
  shows "sys_pipe sb page False p s = None"
  by (rule sys_pipe_fault_None [OF assms])

theorem sys_pipe_fault_panics_witness:
  "(\<exists>s'. sys_pipe 0 (Some (replicate PIPE_BUF_SZ 0)) True 0 one_pipe = Some (Inr (1, 2), s'))
     \<and> sys_pipe 0 (Some (replicate PIPE_BUF_SZ 0)) False 0 one_pipe = None"
  using one_pipe_created sys_pipe_fault_panics by blast

end
