(* ===== verification/Hash.thy ===== *)
theory Hash
  imports Prelude
begin

text \<open>
  The hash functions of \<open>include/kernel/hash.h\<close> and \<open>utility/lookup3.c\<close>. Memory is a function from
  addresses to bytes; a 32 or 16 bit read is composed of the bytes in the order of the machine.
  The three variants of \<open>hashlittle\<close>, by the alignment of the key, are shown to compute the same
  value, and the other functions to relate to it as their comments promise.
\<close>

unbundle bit_operations_syntax

section \<open>Mixing\<close>

type_synonym abc = "u32 \<times> u32 \<times> u32"
type_synonym memory = "nat \<Rightarrow> u8"

definition rot :: "u32 \<Rightarrow> nat \<Rightarrow> u32" where
  "rot x k = push_bit k x OR drop_bit (32 - k) x"

text \<open>
  A line of \<open>hash_mix\<close>, \<open>x -= z; x ^= rot(z, k); z += y;\<close>, for the three roles the variables
  take in turn.
\<close>

definition mix_step :: "nat \<Rightarrow> u32 \<Rightarrow> u32 \<Rightarrow> u32 \<Rightarrow> u32 \<times> u32" where
  "mix_step k x y z = ((x - z) XOR rot z k, z + y)"

definition mix_a :: "nat \<Rightarrow> abc \<Rightarrow> abc" where
  "mix_a k = (\<lambda>(a, b, c). let (a', c') = mix_step k a b c in (a', b, c'))"

definition mix_b :: "nat \<Rightarrow> abc \<Rightarrow> abc" where
  "mix_b k = (\<lambda>(a, b, c). let (b', a') = mix_step k b c a in (a', b', c))"

definition mix_c :: "nat \<Rightarrow> abc \<Rightarrow> abc" where
  "mix_c k = (\<lambda>(a, b, c). let (c', b') = mix_step k c a b in (a, b', c'))"

definition hash_mix :: "abc \<Rightarrow> abc" where
  "hash_mix s = mix_c 4 (mix_b 19 (mix_a 16 (mix_c 8 (mix_b 6 (mix_a 4 s)))))"

text \<open>One line of \<open>hash_final\<close>: \<open>x ^= y; x -= rot(y, k);\<close>\<close>

definition final_step :: "nat \<Rightarrow> u32 \<Rightarrow> u32 \<Rightarrow> u32" where
  "final_step k x y = (x XOR y) - rot y k"

definition hash_final :: "abc \<Rightarrow> abc" where
  "hash_final s =
     (let (a, b, c) = s;
          c = final_step 14 c b;
          a = final_step 11 a c;
          b = final_step 25 b a;
          c = final_step 16 c b;
          a = final_step 4 a c;
          b = final_step 14 b a;
          c = final_step 24 c b
      in (a, b, c))"

section \<open>Hashing words\<close>

text \<open>The loop and the switch of \<open>hashword\<close> on the list of the words that are left.\<close>

fun hashword_loop :: "u32 list \<Rightarrow> abc \<Rightarrow> abc" where
  "hashword_loop (x # y # z # w # ws) (a, b, c) = hashword_loop (w # ws) (hash_mix (a + x, b + y, c + z))"
| "hashword_loop [x, y, z] (a, b, c) = hash_final (a + x, b + y, c + z)"
| "hashword_loop [x, y] (a, b, c) = hash_final (a + x, b + y, c)"
| "hashword_loop [x] (a, b, c) = hash_final (a + x, b, c)"
| "hashword_loop [] s = s"

definition hashword :: "u32 list \<Rightarrow> u32 \<Rightarrow> u32" where
  "hashword k initval =
     (let i = 0xdeadbeef + push_bit 2 (of_nat (length k)) + initval;
          (a, b, c) = hashword_loop k (i, i, i)
      in c)"

definition hashword2 :: "u32 list \<Rightarrow> u32 \<Rightarrow> u32 \<Rightarrow> u32 \<times> u32" where
  "hashword2 k pc pb =
     (let i = 0xdeadbeef + of_nat (length k * 4) + pc;
          (a, b, c) = hashword_loop k (i, i, i + pb)
      in (c, b))"

section \<open>Hashing bytes, least significant first\<close>

definition byte :: "memory \<Rightarrow> nat \<Rightarrow> u32" where "byte m p = ucast (m p)"

definition le16 :: "memory \<Rightarrow> nat \<Rightarrow> u32" where
  "le16 m p = byte m p OR push_bit 8 (byte m (p + 1))"

definition le32 :: "memory \<Rightarrow> nat \<Rightarrow> u32" where
  "le32 m p = le16 m p OR push_bit 16 (le16 m (p + 2))"

text \<open>The loop over the blocks of 12 bytes, with one way to add a block to the state.\<close>

function blocks :: "(nat \<Rightarrow> abc \<Rightarrow> abc) \<Rightarrow> nat \<Rightarrow> nat \<Rightarrow> abc \<Rightarrow> nat \<times> nat \<times> abc" where
  "blocks add k n s = (if n > 12 then blocks add (k + 12) (n - 12) (hash_mix (add k s)) else (k, n, s))"
  by pat_completeness auto
termination by (relation "measure (\<lambda>(add, k, n, s). n)") auto

declare blocks.simps [simp del]

text \<open>Aligned to 4 bytes: 32 bit reads; the tail reads beyond the key and masks.\<close>

definition add32 :: "memory \<Rightarrow> nat \<Rightarrow> abc \<Rightarrow> abc" where
  "add32 m k = (\<lambda>(a, b, c). (a + le32 m k, b + le32 m (k + 4), c + le32 m (k + 8)))"

definition tail32 :: "memory \<Rightarrow> nat \<Rightarrow> nat \<Rightarrow> abc \<Rightarrow> abc" where
  "tail32 m k n = (\<lambda>(a, b, c).
     let k0 = le32 m k; k1 = le32 m (k + 4); k2 = le32 m (k + 8)
     in if n = 12 then (a + k0, b + k1, c + k2)
        else if n = 11 then (a + k0, b + k1, c + (k2 AND 0xffffff))
        else if n = 10 then (a + k0, b + k1, c + (k2 AND 0xffff))
        else if n = 9 then (a + k0, b + k1, c + (k2 AND 0xff))
        else if n = 8 then (a + k0, b + k1, c)
        else if n = 7 then (a + k0, b + (k1 AND 0xffffff), c)
        else if n = 6 then (a + k0, b + (k1 AND 0xffff), c)
        else if n = 5 then (a + k0, b + (k1 AND 0xff), c)
        else if n = 4 then (a + k0, b, c)
        else if n = 3 then (a + (k0 AND 0xffffff), b, c)
        else if n = 2 then (a + (k0 AND 0xffff), b, c)
        else if n = 1 then (a + (k0 AND 0xff), b, c)
        else (a, b, c))"

text \<open>Aligned to 2 bytes: 16 bit reads.\<close>

definition add16 :: "memory \<Rightarrow> nat \<Rightarrow> abc \<Rightarrow> abc" where
  "add16 m k = (\<lambda>(a, b, c).
     (a + (le16 m k + push_bit 16 (le16 m (k + 2))),
      b + (le16 m (k + 4) + push_bit 16 (le16 m (k + 6))),
      c + (le16 m (k + 8) + push_bit 16 (le16 m (k + 10)))))"

definition tail16 :: "memory \<Rightarrow> nat \<Rightarrow> nat \<Rightarrow> abc \<Rightarrow> abc" where
  "tail16 m k n = (\<lambda>(a, b, c).
     let w0 = le16 m k + push_bit 16 (le16 m (k + 2));
         w1 = le16 m (k + 4) + push_bit 16 (le16 m (k + 6));
         w2 = le16 m (k + 8) + push_bit 16 (le16 m (k + 10))
     in if n = 12 then (a + w0, b + w1, c + w2)
        else if n = 11 then (a + w0, b + w1, c + push_bit 16 (byte m (k + 10)) + le16 m (k + 8))
        else if n = 10 then (a + w0, b + w1, c + le16 m (k + 8))
        else if n = 9 then (a + w0, b + w1, c + byte m (k + 8))
        else if n = 8 then (a + w0, b + w1, c)
        else if n = 7 then (a + w0, b + push_bit 16 (byte m (k + 6)) + le16 m (k + 4), c)
        else if n = 6 then (a + w0, b + le16 m (k + 4), c)
        else if n = 5 then (a + w0, b + byte m (k + 4), c)
        else if n = 4 then (a + w0, b, c)
        else if n = 3 then (a + push_bit 16 (byte m (k + 2)) + le16 m k, b, c)
        else if n = 2 then (a + le16 m k, b, c)
        else if n = 1 then (a + byte m k, b, c)
        else (a, b, c))"

text \<open>Any alignment: byte reads; every case of the switch falls through to the next.\<close>

definition add8 :: "memory \<Rightarrow> nat \<Rightarrow> abc \<Rightarrow> abc" where
  "add8 m k = (\<lambda>(a, b, c).
     (a + byte m k + push_bit 8 (byte m (k + 1)) + push_bit 16 (byte m (k + 2)) + push_bit 24 (byte m (k + 3)),
      b + byte m (k + 4) + push_bit 8 (byte m (k + 5)) + push_bit 16 (byte m (k + 6)) + push_bit 24 (byte m (k + 7)),
      c + byte m (k + 8) + push_bit 8 (byte m (k + 9)) + push_bit 16 (byte m (k + 10)) + push_bit 24 (byte m (k + 11))))"

definition tail8 :: "memory \<Rightarrow> nat \<Rightarrow> nat \<Rightarrow> abc \<Rightarrow> abc" where
  "tail8 m k n = (\<lambda>(a, b, c).
     let case_n = (\<lambda>i x. if n \<ge> i then x else 0)
     in (a + case_n 4 (push_bit 24 (byte m (k + 3))) + case_n 3 (push_bit 16 (byte m (k + 2)))
           + case_n 2 (push_bit 8 (byte m (k + 1))) + case_n 1 (byte m k),
         b + case_n 8 (push_bit 24 (byte m (k + 7))) + case_n 7 (push_bit 16 (byte m (k + 6)))
           + case_n 6 (push_bit 8 (byte m (k + 5))) + case_n 5 (byte m (k + 4)),
         c + case_n 12 (push_bit 24 (byte m (k + 11))) + case_n 11 (push_bit 16 (byte m (k + 10)))
           + case_n 10 (push_bit 8 (byte m (k + 9))) + case_n 9 (byte m (k + 8))))"

text \<open>
  The body common to \<open>hashlittle\<close> and \<open>hashlittle2\<close>: the choice of the variant by
  \<open>HASH_LITTLE_ENDIAN\<close> and the alignment of the key, the loop, the tail, and \<open>hash_final\<close> unless
  the tail is empty.
\<close>

definition hash_tail :: "(nat \<Rightarrow> nat \<Rightarrow> abc \<Rightarrow> abc) \<Rightarrow> nat \<times> nat \<times> abc \<Rightarrow> abc" where
  "hash_tail tail = (\<lambda>(k, n, s). if n = 0 then s else hash_final (tail k n s))"

definition hashlittle_body :: "bool \<Rightarrow> memory \<Rightarrow> nat \<Rightarrow> nat \<Rightarrow> abc \<Rightarrow> abc" where
  "hashlittle_body little_endian m key n s =
     (if little_endian \<and> key mod 4 = 0 then hash_tail (tail32 m) (blocks (add32 m) key n s)
      else if little_endian \<and> key mod 2 = 0 then hash_tail (tail16 m) (blocks (add16 m) key n s)
      else hash_tail (tail8 m) (blocks (add8 m) key n s))"

definition hashlittle :: "bool \<Rightarrow> memory \<Rightarrow> nat \<Rightarrow> nat \<Rightarrow> u32 \<Rightarrow> u32" where
  "hashlittle little_endian m key n initval =
     (let i = 0xdeadbeef + of_nat n + initval;
          (a, b, c) = hashlittle_body little_endian m key n (i, i, i)
      in c)"

definition hashlittle2 :: "bool \<Rightarrow> memory \<Rightarrow> nat \<Rightarrow> nat \<Rightarrow> u32 \<Rightarrow> u32 \<Rightarrow> u32 \<times> u32" where
  "hashlittle2 little_endian m key n pc pb =
     (let i = 0xdeadbeef + of_nat n + pc;
          (a, b, c) = hashlittle_body little_endian m key n (i, i, i + pb)
      in (c, b))"

section \<open>Hashing bytes, most significant first\<close>

definition be32 :: "memory \<Rightarrow> nat \<Rightarrow> u32" where
  "be32 m p = push_bit 24 (byte m p) OR push_bit 16 (byte m (p + 1)) OR push_bit 8 (byte m (p + 2))
     OR byte m (p + 3)"

definition add32_big :: "memory \<Rightarrow> nat \<Rightarrow> abc \<Rightarrow> abc" where
  "add32_big m k = (\<lambda>(a, b, c). (a + be32 m k, b + be32 m (k + 4), c + be32 m (k + 8)))"

definition tail32_big :: "memory \<Rightarrow> nat \<Rightarrow> nat \<Rightarrow> abc \<Rightarrow> abc" where
  "tail32_big m k n = (\<lambda>(a, b, c).
     let k0 = be32 m k; k1 = be32 m (k + 4); k2 = be32 m (k + 8)
     in if n = 12 then (a + k0, b + k1, c + k2)
        else if n = 11 then (a + k0, b + k1, c + (k2 AND 0xffffff00))
        else if n = 10 then (a + k0, b + k1, c + (k2 AND 0xffff0000))
        else if n = 9 then (a + k0, b + k1, c + (k2 AND 0xff000000))
        else if n = 8 then (a + k0, b + k1, c)
        else if n = 7 then (a + k0, b + (k1 AND 0xffffff00), c)
        else if n = 6 then (a + k0, b + (k1 AND 0xffff0000), c)
        else if n = 5 then (a + k0, b + (k1 AND 0xff000000), c)
        else if n = 4 then (a + k0, b, c)
        else if n = 3 then (a + (k0 AND 0xffffff00), b, c)
        else if n = 2 then (a + (k0 AND 0xffff0000), b, c)
        else if n = 1 then (a + (k0 AND 0xff000000), b, c)
        else (a, b, c))"

definition add8_big :: "memory \<Rightarrow> nat \<Rightarrow> abc \<Rightarrow> abc" where
  "add8_big m k = (\<lambda>(a, b, c).
     (a + push_bit 24 (byte m k) + push_bit 16 (byte m (k + 1)) + push_bit 8 (byte m (k + 2)) + byte m (k + 3),
      b + push_bit 24 (byte m (k + 4)) + push_bit 16 (byte m (k + 5)) + push_bit 8 (byte m (k + 6)) + byte m (k + 7),
      c + push_bit 24 (byte m (k + 8)) + push_bit 16 (byte m (k + 9)) + push_bit 8 (byte m (k + 10)) + byte m (k + 11)))"

definition tail8_big :: "memory \<Rightarrow> nat \<Rightarrow> nat \<Rightarrow> abc \<Rightarrow> abc" where
  "tail8_big m k n = (\<lambda>(a, b, c).
     let case_n = (\<lambda>i x. if n \<ge> i then x else 0)
     in (a + case_n 4 (byte m (k + 3)) + case_n 3 (push_bit 8 (byte m (k + 2)))
           + case_n 2 (push_bit 16 (byte m (k + 1))) + case_n 1 (push_bit 24 (byte m k)),
         b + case_n 8 (byte m (k + 7)) + case_n 7 (push_bit 8 (byte m (k + 6)))
           + case_n 6 (push_bit 16 (byte m (k + 5))) + case_n 5 (push_bit 24 (byte m (k + 4))),
         c + case_n 12 (byte m (k + 11)) + case_n 11 (push_bit 8 (byte m (k + 10)))
           + case_n 10 (push_bit 16 (byte m (k + 9))) + case_n 9 (push_bit 24 (byte m (k + 8)))))"

definition hashbig :: "bool \<Rightarrow> memory \<Rightarrow> nat \<Rightarrow> nat \<Rightarrow> u32 \<Rightarrow> u32" where
  "hashbig big_endian m key n initval =
     (let i = 0xdeadbeef + of_nat n + initval;
          (a, b, c) = (if big_endian \<and> key mod 4 = 0
                       then hash_tail (tail32_big m) (blocks (add32_big m) key n (i, i, i))
                       else hash_tail (tail8_big m) (blocks (add8_big m) key n (i, i, i)))
      in c)"

section \<open>Reversibility\<close>

definition unmix_step :: "nat \<Rightarrow> u32 \<Rightarrow> u32 \<Rightarrow> u32 \<Rightarrow> u32 \<times> u32" where
  "unmix_step k x y z = (let z = z - y in ((x XOR rot z k) + z, z))"

lemma xor_cancel: "(x XOR y) XOR y = (x :: u32)"
  by (simp add: xor.assoc)

lemma mix_bij: "bij (mix_a k)" "bij (mix_b k)" "bij (mix_c k)"
proof -
  note defs = mix_a_def mix_b_def mix_c_def mix_step_def unmix_step_def fun_eq_iff Let_def xor_cancel
  show "bij (mix_a k)"
    by (rule o_bij [of "\<lambda>(a, b, c). let (a', c') = unmix_step k a b c in (a', b, c')"]) (auto simp: defs)
  show "bij (mix_b k)"
    by (rule o_bij [of "\<lambda>(a, b, c). let (b', a') = unmix_step k b c a in (a', b', c)"]) (auto simp: defs)
  show "bij (mix_c k)"
    by (rule o_bij [of "\<lambda>(a, b, c). let (c', b') = unmix_step k c a b in (a, b', c')"]) (auto simp: defs)
qed

lemma hash_mix_comp: "hash_mix = mix_c 4 \<circ> mix_b 19 \<circ> mix_a 16 \<circ> mix_c 8 \<circ> mix_b 6 \<circ> mix_a 4"
  by (simp add: fun_eq_iff hash_mix_def)

text \<open>
  C14. Mixing loses nothing: \<open>hash_mix\<close> is a bijection of the states of three words, as its
  comment says (it mixes reversibly), so no two states of a hash collide before
  \<open>hash_final\<close>.
\<close>

theorem hash_mix_reversible: "bij hash_mix"
  unfolding hash_mix_comp by (intro bij_comp mix_bij)

section \<open>Alignment\<close>

lemma bit_byte: "bit (byte m p) i \<longleftrightarrow> i < 8 \<and> bit (m p) i"
  by (auto simp: byte_def bit_ucast_iff dest: bit_imp_le_length)

lemma bytes_disjoint:
  "byte m p + push_bit 8 (byte m q) = byte m p OR push_bit 8 (byte m q)"
  "(byte m p OR push_bit 8 (byte m q)) + push_bit 16 (byte m r)
     = byte m p OR push_bit 8 (byte m q) OR push_bit 16 (byte m r)"
  "(byte m p OR push_bit 8 (byte m q) OR push_bit 16 (byte m r)) + push_bit 24 (byte m t)
     = byte m p OR push_bit 8 (byte m q) OR push_bit 16 (byte m r) OR push_bit 24 (byte m t)"
  by (subst disjunctive_add; auto simp: bit_simps bit_byte or.assoc)+

lemma le_sums:
  "le16 m p = byte m p + push_bit 8 (byte m (p + 1))"
  "le32 m p = byte m p + push_bit 8 (byte m (p + 1)) + push_bit 16 (byte m (p + 2)) + push_bit 24 (byte m (p + 3))"
  by (simp_all add: le32_def le16_def bytes_disjoint push_bit_or or.assoc numeral_3_eq_3)

lemma masks:
  "(0xff :: u32) = mask 8" "(0xffff :: u32) = mask 16" "(0xffffff :: u32) = mask 24"
  by (simp_all add: mask_eq_exp_minus_1)

lemma le_masks:
  "le32 m p AND 0xffffff = byte m p + push_bit 8 (byte m (p + 1)) + push_bit 16 (byte m (p + 2))"
  "le32 m p AND 0xffff = byte m p + push_bit 8 (byte m (p + 1))"
  "le32 m p AND 0xff = byte m p"
  unfolding masks le32_def le16_def bytes_disjoint
  by (rule bit_eqI; auto simp: bit_simps bit_byte)+

lemma le16_pair: "le16 m p + push_bit 16 (le16 m (p + 2)) = le32 m p"
  by (simp add: le_sums push_bit_add numeral_3_eq_3)

lemma le16_pairs:
  "le16 m k + push_bit 16 (le16 m (k + 2)) = le32 m k"
  "le16 m (k + 4) + push_bit 16 (le16 m (k + 6)) = le32 m (k + 4)"
  "le16 m (k + 8) + push_bit 16 (le16 m (k + 10)) = le32 m (k + 8)"
  using le16_pair [of m k] le16_pair [of m "k + 4"] le16_pair [of m "k + 8"] by (simp_all add: add.commute)

lemma add_variants: "add32 m = add8 m" "add16 m = add8 m"
  unfolding fun_eq_iff add32_def add16_def add8_def le16_pairs by (auto simp: le_sums add_ac)

lemma upto_12: "n \<le> 12 \<longleftrightarrow> n \<in> insert 0 (Suc ` {..<12})"
  by (cases n) auto

lemma lessThan_12: "{..<12 :: nat} = {0, 1, 2, 3} \<union> (+) 4 ` {0, 1, 2, 3} \<union> (+) 8 ` {0, 1, 2, 3}"
  by (auto simp: image_iff; presburger)

lemma tail_variants:
  assumes "n \<le> 12"
  shows "tail32 m k n = tail8 m k n" "tail16 m k n = tail8 m k n"
  using assms unfolding upto_12 lessThan_12 tail32_def tail16_def tail8_def le16_pairs Let_def le_masks
  by (auto simp: fun_eq_iff le_sums add_ac)

lemma blocks_rest: "blocks add k n s = (k', n', s') \<Longrightarrow> n' \<le> 12"
proof (induction add k n s rule: blocks.induct)
  case (1 add k n s)
  then show ?case by (subst (asm) (2) blocks.simps) (auto split: if_splits)
qed

lemma hash_tail_cong:
  "(\<And>k n. n \<le> 12 \<Longrightarrow> t k n = t' k n) \<Longrightarrow> hash_tail t (blocks add k n s) = hash_tail t' (blocks add k n s)"
  by (cases "blocks add k n s") (auto simp: hash_tail_def dest: blocks_rest)

definition hash_bytes :: "memory \<Rightarrow> nat \<Rightarrow> nat \<Rightarrow> abc \<Rightarrow> abc" where
  "hash_bytes m k n s = hash_tail (tail8 m) (blocks (add8 m) k n s)"

lemma hashlittle_body_bytes: "hashlittle_body le m key n s = hash_bytes m key n s"
  unfolding hashlittle_body_def hash_bytes_def add_variants
  by (simp add: hash_tail_cong [of "tail32 m" "tail8 m"] hash_tail_cong [of "tail16 m" "tail8 m"] tail_variants)

lemma hash_bytes_simps:
  "n > 12 \<Longrightarrow> hash_bytes m k n s = hash_bytes m (k + 12) (n - 12) (hash_mix (add8 m k s))"
  "0 < n \<Longrightarrow> n \<le> 12 \<Longrightarrow> hash_bytes m k n s = hash_final (tail8 m k n s)"
  "hash_bytes m k 0 s = s"
  by (simp_all add: hash_bytes_def hash_tail_def blocks.simps [of _ k] blocks.simps [of _ k n])

lemma hash_bytes_cong:
  "\<forall>i < n. m (k + i) = m' (k' + i) \<Longrightarrow> hash_bytes m k n s = hash_bytes m' k' n s"
proof (induction n arbitrary: k k' s rule: less_induct)
  case (less n)
  show ?case
  proof (cases "n > 12")
    case True
    have "add8 m k s = add8 m' k' s"
      using less.prems [rule_format, of 0] less.prems [rule_format, of 1] less.prems [rule_format, of 2]
        less.prems True by (cases s) (simp add: add8_def byte_def)
    moreover have "hash_bytes m (k + 12) (n - 12) t = hash_bytes m' (k' + 12) (n - 12) t" for t
      using less.prems True by (intro less.IH) (auto simp: add.assoc)
    ultimately show ?thesis using True by (simp add: hash_bytes_simps)
  next
    case False
    have "tail8 m k n s = tail8 m' k' n s"
      using less.prems less.prems [rule_format, of 0] less.prems [rule_format, of 1]
        less.prems [rule_format, of 2] by (cases s) (auto simp: tail8_def byte_def)
    then show ?thesis using False by (cases "n = 0") (simp_all add: hash_bytes_simps)
  qed
qed

text \<open>
  C15. \<open>hashlittle\<close> and \<open>hashlittle2\<close> are functions of the bytes of the key alone: the key's
  address and alignment, whether the machine reads whole words, and the bytes beyond the key that
  the word variant reads and masks off make no difference.
\<close>

theorem hashlittle_location_independent:
  assumes "\<forall>i < n. m (key + i) = m' (key' + i)"
  shows "hashlittle le m key n initval = hashlittle le' m' key' n initval
     \<and> hashlittle2 le m key n initval pb = hashlittle2 le' m' key' n initval pb"
  using hash_bytes_cong [OF assms]
  by (simp add: hashlittle_def hashlittle2_def hashlittle_body_bytes Let_def)

theorem hashlittle_location_independent_witness:
  "hashlittle True (\<lambda>p. of_nat p) 4 3 7 = hashlittle False (\<lambda>p. of_nat (p - 1)) 5 3 7"
  using hashlittle_location_independent [of 3 "\<lambda>p. of_nat p" 4 "\<lambda>p. of_nat (p - 1)" 5 True 7 False]
  by simp

section \<open>Words and bytes\<close>

fun words_at :: "memory \<Rightarrow> nat \<Rightarrow> nat \<Rightarrow> u32 list" where
  "words_at m p 0 = []"
| "words_at m p (Suc n) = le32 m p # words_at m (p + 4) n"

lemma length_words_at [simp]: "length (words_at m p n) = n"
  by (induction n arbitrary: p) simp_all

lemma hashword_loop_bytes: "hashword_loop (words_at m p n) s = hash_bytes m p (4 * n) s"
proof (induction n arbitrary: p s rule: less_induct)
  case (less n)
  obtain a b c where s: "s = (a, b, c)" by (cases s)
  consider "n = 0" | "n = 1" | "n = 2" | "n = 3" | j where "n = Suc (Suc (Suc (Suc j)))"
    by (metis One_nat_def numeral_2_eq_2 numeral_3_eq_3 old.nat.exhaust)
  then show ?case
  proof cases
    case (5 j)
    have "hashword_loop (words_at m p n) s
        = hashword_loop (words_at m (p + 12) (Suc j)) (hash_mix (add8 m p s))"
      using 5 s by (simp add: add_variants(1) [symmetric] add32_def numeral_eq_Suc)
    also have "\<dots> = hash_bytes m (p + 12) (4 * Suc j) (hash_mix (add8 m p s))"
      using 5 by (intro less.IH) simp
    also have "\<dots> = hash_bytes m p (4 * n) s" using 5 by (subst (2) hash_bytes_simps(1)) simp_all
    finally show ?thesis .
  qed (use s in \<open>simp_all add: hash_bytes_simps tail8_def le_sums numeral_eq_Suc add_ac\<close>)
qed

text \<open>
  C16. The functions on words are the function on bytes: on a little endian machine \<open>hashword\<close> of
  an array is \<open>hashlittle\<close> of its bytes, and with a zero second seed \<open>hashword2\<close> and
  \<open>hashlittle2\<close> return the same first value as \<open>hashword\<close> and \<open>hashlittle\<close>, as their comments say.
\<close>

theorem hashword_is_hashlittle:
  "hashword (words_at m p n) initval = hashlittle le m p (4 * n) initval
     \<and> fst (hashword2 ws initval 0) = hashword ws initval
     \<and> fst (hashlittle2 le m p k initval 0) = hashlittle le m p k initval"
  by (auto simp: hashword_def hashword2_def hashlittle_def hashlittle2_def hashlittle_body_bytes
      hashword_loop_bytes push_bit_eq_mult mult.commute Let_def split: prod.splits)

end
