(* ===== verification/Vnode.thy ===== *)
theory Vnode
  imports File_Desc Hash
begin

text \<open>
  The cache of vnodes and the table of superblocks: \<open>fs/vnode.c\<close> and \<open>fs/superblock.c\<close>. The hash of
  a vnode is computed from the address of its superblock; \<open>addr\<close> is the address of each superblock.
\<close>

unbundle bit_operations_syntax

section \<open>The hash table\<close>

definition VNODE_HASH :: u32 where "VNODE_HASH = 1024"
definition V_FREE :: u32 where "V_FREE = 2"
definition V_HASHED :: u32 where "V_HASHED = 64"

definition calc_vnode_hash :: "(nat \<Rightarrow> u32) \<Rightarrow> nat \<Rightarrow> int \<Rightarrow> nat" where
  "calc_vnode_hash addr sb ino =
     (let (a, b, c) = hash_final (hash_mix (addr sb, of_int ino, 0xBB40E64D))
      in unat (c mod VNODE_HASH))"

definition vnode_find :: "(nat \<Rightarrow> u32) \<Rightarrow> nat \<Rightarrow> int \<Rightarrow> fs \<Rightarrow> nat option" where
  "vnode_find addr sb ino s =
     find (\<lambda>v. v_flags (vnodes s v) AND V_VALID \<noteq> 0 \<and> v_superblock (vnodes s v) = sb
             \<and> inode_nr (vnodes s v) = ino)
       (vnode_hash s (calc_vnode_hash addr sb ino))"

definition vnode_get :: "(nat \<Rightarrow> u32) \<Rightarrow> nat \<Rightarrow> int \<Rightarrow> fs \<Rightarrow> nat option \<times> fs" where
  "vnode_get addr sb ino s =
     (if sb_flags (superblocks s sb) AND SBF_ABORT \<noteq> 0 then (None, s)
      else case vnode_find addr sb ino s of
             None \<Rightarrow> (None, s)
           | Some v \<Rightarrow> (Some v,
               if v_flags (vnodes s v) AND V_FREE \<noteq> 0
               then s\<lparr>vnode_free_list := remove1 v (vnode_free_list s)\<rparr> else s))"

definition vnode_hash_enter :: "(nat \<Rightarrow> u32) \<Rightarrow> nat \<Rightarrow> fs \<Rightarrow> fs option" where
  "vnode_hash_enter addr v s = do {
     kassert (v_flags (vnodes s v) AND V_HASHED = 0);
     let h = calc_vnode_hash addr (v_superblock (vnodes s v)) (inode_nr (vnodes s v));
     Some (upd_vnode v (\<lambda>n. n\<lparr>v_flags := v_flags n OR V_HASHED\<rparr>)
       (s\<lparr>vnode_hash := (vnode_hash s)(h := v # vnode_hash s h)\<rparr>)) }"

definition vnode_hash_remove :: "(nat \<Rightarrow> u32) \<Rightarrow> nat \<Rightarrow> fs \<Rightarrow> fs option" where
  "vnode_hash_remove addr v s = do {
     kassert (v_flags (vnodes s v) AND V_HASHED \<noteq> 0);
     let h = calc_vnode_hash addr (v_superblock (vnodes s v)) (inode_nr (vnodes s v));
     Some ((upd_vnode v (\<lambda>n. n\<lparr>v_flags := v_flags n AND NOT V_HASHED\<rparr>) s)
       \<lparr>vnode_hash := (vnode_hash s)(h := remove1 v (vnode_hash s h))\<rparr>) }"

text \<open>Both return before they do anything.\<close>

definition do_vnode_inactive :: "nat \<Rightarrow> fs \<Rightarrow> fs" where "do_vnode_inactive v s = s"

definition do_vnode_recycle :: "nat \<Rightarrow> fs \<Rightarrow> fs" where "do_vnode_recycle v s = s"

section \<open>Superblocks\<close>

definition get_superblock :: "nat \<Rightarrow> int \<Rightarrow> fs \<Rightarrow> nat option option" where
  "get_superblock p fd s = do {
     f \<leftarrow> filp_get p fd s;
     Some (case f of
             None \<Rightarrow> None
           | Some i \<Rightarrow> if f_type (filps s i) \<noteq> FILP_TYPE_SUPERBLOCK then None else f_u (filps s i)) }"

definition alloc_superblock :: "(nat \<Rightarrow> u32) \<Rightarrow> fs \<Rightarrow> nat option \<times> fs" where
  "alloc_superblock addr s =
     (case free_superblock_list s of
        [] \<Rightarrow> (None, s)
      | b # bs \<Rightarrow> (Some b,
          upd_superblock b (\<lambda>_. \<lparr>sb_reference_cnt = 1, sb_dev = unat (addr b), sb_root = None, sb_flags = 0,
              vnode_list = []\<rparr>)
            (s\<lparr>free_superblock_list := bs, mounted_superblock_list := mounted_superblock_list s @ [b]\<rparr>)))"

text \<open>The bodies of the next two are commented out.\<close>

definition free_superblock :: "nat \<Rightarrow> fs \<Rightarrow> fs" where "free_superblock b s = s"

definition deref_superblock :: "nat \<Rightarrow> fs \<Rightarrow> fs" where "deref_superblock b s = s"

definition discard_vnodes :: "nat \<Rightarrow> fs \<Rightarrow> fs" where
  "discard_vnodes b s = upd_superblock b (\<lambda>x. x\<lparr>vnode_list := []\<rparr>) s"

definition ref_superblock :: "nat \<Rightarrow> fs \<Rightarrow> fs" where
  "ref_superblock b s = upd_superblock b (\<lambda>x. x\<lparr>sb_reference_cnt := sb_reference_cnt x + 1\<rparr>) s"

fun unblock_char_queues :: "nat list \<Rightarrow> fs \<Rightarrow> fs option" where
  "unblock_char_queues [] s = Some s"
| "unblock_char_queues (v # vs) s = do {
     s1 \<leftarrow> wakeup_all (vnode_rendez v)
       (upd_vnode v (\<lambda>n. n\<lparr>char_read_busy := False, char_write_busy := False\<rparr>) s);
     unblock_char_queues vs s1 }"

definition fini_character_device_queues :: "nat \<Rightarrow> fs \<Rightarrow> fs option" where
  "fini_character_device_queues b s = unblock_char_queues (vnode_list (superblocks s b)) s"

definition detach_mount :: "nat \<Rightarrow> fs \<Rightarrow> fs option" where
  "detach_mount b s = do {
     root \<leftarrow> sb_root (superblocks s b);
     covered \<leftarrow> vnode_covered (vnodes s root);
     let s1 = upd_vnode covered (\<lambda>n. n\<lparr>vnode_mounted_here := None\<rparr>) s;
     let s2 = upd_vnode root (\<lambda>n. n\<lparr>vnode_covered := None\<rparr>) s1;
     let s3 = upd_superblock b (\<lambda>x. x\<lparr>sb_root := None\<rparr>) (vnode_put root (vnode_put covered s2));
     k \<leftarrow> TaskWakeup (superblock_rendez b) (ks s3);
     Some (s3\<lparr>ks := k\<rparr>) }"

section \<open>Coherence of the cache\<close>

text \<open>
  A hashed vnode is in the chain of its superblock and inode number and in no other, at most one
  valid vnode stands for an inode, and no free vnode is hashed.
\<close>

definition hashed :: "fs \<Rightarrow> nat \<Rightarrow> bool" where
  "hashed s v \<longleftrightarrow> v_flags (vnodes s v) AND V_HASHED \<noteq> 0"

definition vnode_key :: "fs \<Rightarrow> nat \<Rightarrow> nat \<times> int" where
  "vnode_key s v = (v_superblock (vnodes s v), inode_nr (vnodes s v))"

definition cache_ok :: "(nat \<Rightarrow> u32) \<Rightarrow> fs \<Rightarrow> bool" where
  "cache_ok addr s \<longleftrightarrow>
     (\<forall>h v. v \<in> set (vnode_hash s h) \<longleftrightarrow>
        hashed s v \<and> h = calc_vnode_hash addr (v_superblock (vnodes s v)) (inode_nr (vnodes s v)))
     \<and> (\<forall>h. distinct (vnode_hash s h))
     \<and> (\<forall>v. hashed s v \<longrightarrow> v_flags (vnodes s v) AND V_VALID \<noteq> 0)
     \<and> (\<forall>v w. hashed s v \<and> hashed s w \<and> vnode_key s v = vnode_key s w \<longrightarrow> v = w)
     \<and> distinct (vnode_free_list s)
     \<and> (\<forall>v \<in> set (vnode_free_list s). \<not> hashed s v)"

lemma calc_vnode_hash_bound: "calc_vnode_hash addr sb ino < unat VNODE_HASH"
  by (auto simp: calc_vnode_hash_def unat_mod VNODE_HASH_def split: prod.splits)

lemma vnode_find_Some:
  assumes "cache_ok addr s"
  shows "vnode_find addr sb ino s = Some v \<longleftrightarrow> hashed s v \<and> vnode_key s v = (sb, ino)"
proof
  assume "vnode_find addr sb ino s = Some v"
  then show "hashed s v \<and> vnode_key s v = (sb, ino)"
    using assms by (auto simp: vnode_find_def find_Some_iff cache_ok_def vnode_key_def) (metis nth_mem)
next
  assume v: "hashed s v \<and> vnode_key s v = (sb, ino)"
  then have "v \<in> set (vnode_hash s (calc_vnode_hash addr sb ino))" "v_flags (vnodes s v) AND V_VALID \<noteq> 0"
    using assms by (auto simp: cache_ok_def vnode_key_def)
  with v have "vnode_find addr sb ino s \<noteq> None"
    by (auto simp: vnode_find_def find_None_iff vnode_key_def)
  then obtain w where w: "vnode_find addr sb ino s = Some w" by blast
  then have "hashed s w \<and> vnode_key s w = (sb, ino)"
    using assms by (auto simp: vnode_find_def find_Some_iff cache_ok_def vnode_key_def) (metis nth_mem)
  with v w assms show "vnode_find addr sb ino s = Some v" by (auto simp: cache_ok_def)
qed

end
