(* ===== verification/Vfs.thy ===== *)
theory Vfs
  imports Vnode
begin

text \<open>
  Requests to the file system servers (\<open>fs/vfs.c\<close>). Every operation builds a request, sends it to
  the message port of the superblock with \<open>ksendmsg\<close> and reads the reply; \<open>ksend\<close> stands for
  \<open>ksendmsg\<close> and the server behind it. A negative status of a reply is \<open>Inl\<close>. What is sent with a
  request is the list of its vectors, \<open>None\<close> for a vector the code leaves uninitialised; the
  receive vectors are given by their sizes.
\<close>

unbundle bit_operations_syntax

section \<open>Requests\<close>

datatype ipc = KUCOPY | IPCOPY

datatype iorequest =
    CMD_LOOKUP int nat
  | CMD_CLOSE int
  | CMD_CREATE int nat int int int u32
  | CMD_SENDIO int int nat nat
  | CMD_READ int int nat
  | CMD_WRITE int int nat
  | CMD_READDIR int int nat
  | CMD_MKNOD int nat u32 int int
  | CMD_MKDIR int nat int int u32
  | CMD_STAT int
  | CMD_RMDIR int nat
  | CMD_TRUNCATE int nat
  | CMD_RENAME int int nat nat
  | CMD_CHMOD int u32
  | CMD_CHOWN int int int
  | CMD_UNLINK int nat
  | CMD_LINK int nat int
  | CMD_SYMLINK int nat nat int int u32
  | CMD_RDLINK int nat
  | CMD_ISATTY int
  | CMD_SYNCFS
  | CMD_FSYNC int
  | CMD_POLL int int

record ioreply =
  r_inode_nr :: int
  r_size :: int
  r_uid :: int
  r_gid :: int
  r_mode :: u32
  r_offset :: int
  r_revents :: int
  r_data :: "u8 list"

type_synonym ksend =
  "nat \<Rightarrow> ipc \<Rightarrow> iorequest \<Rightarrow> string option list \<Rightarrow> nat list \<Rightarrow> fs \<Rightarrow> (nat result \<times> ioreply \<times> fs) option"

text \<open>A string is sent with its terminator.\<close>

definition StrLen :: "string \<Rightarrow> nat" where "StrLen name = length name"

section \<open>Finding and creating files\<close>

text \<open>The new vnode takes the attributes of the reply.\<close>

definition fill_vnode :: "ioreply \<Rightarrow> vnode \<Rightarrow> vnode" where
  "fill_vnode r n = n\<lparr>inode_nr := r_inode_nr r, v_size := r_size r, v_uid := r_uid r, v_gid := r_gid r,
     v_mode := r_mode r, v_flags := V_VALID\<rparr>"

definition vfs_lookup ::
    "(nat \<Rightarrow> u32) \<Rightarrow> ksend \<Rightarrow> nat \<Rightarrow> string \<Rightarrow> fs \<Rightarrow> (nat result \<times> nat option \<times> fs) option" where
  "vfs_lookup addr ksend d name s = do {
     let sb = v_superblock (vnodes s d);
     let name_sz = StrLen name + 1;
     (sc, r, s1) \<leftarrow> ksend sb KUCOPY (CMD_LOOKUP (inode_nr (vnodes s d)) name_sz) [Some name] [] s;
     if sc \<noteq> Inr 0 then Some (sc, None, s1)
     else do {
       let (vo, s2) =
         (if r_inode_nr r = inode_nr (vnodes s1 d) then (Some d, vnode_ref d s1)
          else case vnode_get addr (v_superblock (vnodes s1 d)) (r_inode_nr r) s1 of
                 (Some v, s2) \<Rightarrow> (Some v, vnode_ref v s2)
               | (None, s2) \<Rightarrow> (None, s2));
       (case vo of
          Some v \<Rightarrow> Some (Inr 0, Some v, s2)
        | None \<Rightarrow> do {
            (no, s3) \<leftarrow> vnode_get_new sb s2;
            (case no of
               None \<Rightarrow> Some (Inl ENOMEM, None, s3)
             | Some v \<Rightarrow> do {
                 s4 \<leftarrow> vnode_hash_enter addr v (upd_vnode v (fill_vnode r) s3);
                 Some (Inr 0, Some v, s4) }) }) } }"

definition vfs_create ::
    "(nat \<Rightarrow> u32) \<Rightarrow> ksend \<Rightarrow> nat \<Rightarrow> string \<Rightarrow> int \<Rightarrow> int \<Rightarrow> int \<Rightarrow> u32 \<Rightarrow> fs
       \<Rightarrow> (nat result \<times> nat option \<times> fs) option" where
  "vfs_create addr ksend d name oflags u g mode s = do {
     let sb = v_superblock (vnodes s d);
     let name_sz = StrLen name + 1;
     (sc, r, s1) \<leftarrow> ksend sb KUCOPY (CMD_CREATE (inode_nr (vnodes s d)) name_sz oflags u g mode)
                    [Some name, None] [] s;
     if sc \<noteq> Inr 0 then Some (sc, None, s1)
     else do {
       (no, s2) \<leftarrow> vnode_get_new sb s1;
       (case no of
          None \<Rightarrow> Some (Inl ENOMEM, None, s2)
        | Some v \<Rightarrow> do {
            s3 \<leftarrow> vnode_hash_enter addr v (upd_vnode v (fill_vnode r) (vnode_ref v s2));
            Some (Inr 0, Some v, s3) }) } }"

section \<open>Input and output\<close>

text \<open>\<open>offset\<close> is the offset the caller points to; the result has its value afterwards.\<close>

definition offset_arg :: "int option \<Rightarrow> int" where
  "offset_arg off = (case off of Some n \<Rightarrow> n | None \<Rightarrow> 0)"

definition vfs_sendmsg ::
    "ksend \<Rightarrow> nat \<Rightarrow> int \<Rightarrow> string option list \<Rightarrow> nat list \<Rightarrow> nat \<Rightarrow> nat \<Rightarrow> fs \<Rightarrow> (nat result \<times> ioreply \<times> fs) option" where
  "vfs_sendmsg ksend v subclass siov riov sbuf_total_sz rbuf_total_sz s =
     ksend (v_superblock (vnodes s v)) IPCOPY
       (CMD_SENDIO (inode_nr (vnodes s v)) subclass sbuf_total_sz rbuf_total_sz) siov riov s"

definition advance :: "int option \<Rightarrow> nat result \<Rightarrow> int option" where
  "advance off sc = (case sc of Inl _ \<Rightarrow> off | Inr n \<Rightarrow> map_option (\<lambda>o'. o' + int n) off)"

definition vfs_read ::
    "ksend \<Rightarrow> nat \<Rightarrow> ipc \<Rightarrow> nat \<Rightarrow> int option \<Rightarrow> fs \<Rightarrow> (nat result \<times> u8 list \<times> int option \<times> fs) option" where
  "vfs_read ksend v ipc nbytes offset s = do {
     (n, r, s1) \<leftarrow> ksend (v_superblock (vnodes s v)) ipc
       (CMD_READ (inode_nr (vnodes s v)) (offset_arg offset) nbytes) [] [nbytes] s;
     Some (n, r_data r, advance offset n, s1) }"

definition vfs_write ::
    "ksend \<Rightarrow> nat \<Rightarrow> ipc \<Rightarrow> string \<Rightarrow> int option \<Rightarrow> fs \<Rightarrow> (nat result \<times> int option \<times> fs) option" where
  "vfs_write ksend v ipc src offset s = do {
     (n, r, s1) \<leftarrow> ksend (v_superblock (vnodes s v)) ipc
       (CMD_WRITE (inode_nr (vnodes s v)) (offset_arg offset) (length src)) [Some src] [] s;
     Some (n, advance offset n, s1) }"

definition vfs_readv ::
    "ksend \<Rightarrow> nat \<Rightarrow> ipc \<Rightarrow> nat list \<Rightarrow> nat \<Rightarrow> int option \<Rightarrow> fs \<Rightarrow> (nat result \<times> u8 list \<times> int option \<times> fs) option" where
  "vfs_readv ksend v ipc riov nbytes offset s = do {
     (n, r, s1) \<leftarrow> ksend (v_superblock (vnodes s v)) ipc
       (CMD_READ (inode_nr (vnodes s v)) (offset_arg offset) nbytes) [] riov s;
     Some (n, r_data r, advance offset n, s1) }"

definition vfs_writev ::
    "ksend \<Rightarrow> nat \<Rightarrow> ipc \<Rightarrow> string option list \<Rightarrow> nat \<Rightarrow> int option \<Rightarrow> fs \<Rightarrow> (nat result \<times> int option \<times> fs) option" where
  "vfs_writev ksend v ipc siov nbytes offset s = do {
     (n, r, s1) \<leftarrow> ksend (v_superblock (vnodes s v)) ipc
       (CMD_WRITE (inode_nr (vnodes s v)) (offset_arg offset) nbytes) siov [] s;
     Some (n, advance offset n, s1) }"

definition vfs_readdir ::
    "ksend \<Rightarrow> nat \<Rightarrow> nat \<Rightarrow> int \<Rightarrow> fs \<Rightarrow> (nat result \<times> u8 list \<times> int \<times> fs) option" where
  "vfs_readdir ksend v nbytes cookie s = do {
     (n, r, s1) \<leftarrow> ksend (v_superblock (vnodes s v)) IPCOPY
       (CMD_READDIR (inode_nr (vnodes s v)) cookie nbytes) [] [nbytes] s;
     Some (n, r_data r, (case n of Inl _ \<Rightarrow> cookie | Inr _ \<Rightarrow> r_offset r), s1) }"

section \<open>Other requests\<close>

text \<open>A request whose reply is only a status.\<close>

definition status_of :: "(nat result \<times> ioreply \<times> fs) option \<Rightarrow> (nat result \<times> fs) option" where
  "status_of = map_option (\<lambda>(sc, _, s). (sc, s))"

definition vfs_close :: "ksend \<Rightarrow> nat \<Rightarrow> fs \<Rightarrow> (nat result \<times> fs) option" where
  "vfs_close ksend v s =
     status_of (ksend (v_superblock (vnodes s v)) KUCOPY (CMD_CLOSE (inode_nr (vnodes s v))) [] [] s)"

definition vfs_mknod :: "ksend \<Rightarrow> nat \<Rightarrow> string \<Rightarrow> int \<Rightarrow> int \<Rightarrow> u32 \<Rightarrow> fs \<Rightarrow> (nat result \<times> fs) option" where
  "vfs_mknod ksend d name u g mode s =
     status_of (ksend (v_superblock (vnodes s d)) KUCOPY
       (CMD_MKNOD (inode_nr (vnodes s d)) (StrLen name + 1) mode u g) [Some name] [] s)"

definition vfs_mkdir :: "ksend \<Rightarrow> nat \<Rightarrow> string \<Rightarrow> int \<Rightarrow> int \<Rightarrow> u32 \<Rightarrow> fs \<Rightarrow> (nat result \<times> fs) option" where
  "vfs_mkdir ksend d name u g mode s =
     status_of (ksend (v_superblock (vnodes s d)) KUCOPY
       (CMD_MKDIR (inode_nr (vnodes s d)) (StrLen name + 1) u g mode) [Some name] [] s)"

text \<open>\<open>stat_sz\<close> is the size of the C library's \<open>struct stat\<close>.\<close>

definition vfs_stat :: "nat \<Rightarrow> ksend \<Rightarrow> nat \<Rightarrow> fs \<Rightarrow> (nat result \<times> ioreply \<times> fs) option" where
  "vfs_stat stat_sz ksend v s =
     ksend (v_superblock (vnodes s v)) KUCOPY (CMD_STAT (inode_nr (vnodes s v))) [] [stat_sz] s"

definition vfs_rmdir :: "ksend \<Rightarrow> nat \<Rightarrow> nat \<Rightarrow> string \<Rightarrow> fs \<Rightarrow> (nat result \<times> fs) option" where
  "vfs_rmdir ksend d v name s =
     status_of (ksend (v_superblock (vnodes s d)) KUCOPY
       (CMD_RMDIR (inode_nr (vnodes s d)) (StrLen name + 1)) [Some name] [] s)"

definition vfs_truncate :: "ksend \<Rightarrow> nat \<Rightarrow> nat \<Rightarrow> fs \<Rightarrow> (nat result \<times> fs) option" where
  "vfs_truncate ksend v sz s =
     status_of (ksend (v_superblock (vnodes s v)) KUCOPY (CMD_TRUNCATE (inode_nr (vnodes s v)) sz) [] [] s)"

definition vfs_rename :: "ksend \<Rightarrow> nat \<Rightarrow> string \<Rightarrow> nat \<Rightarrow> string \<Rightarrow> fs \<Rightarrow> (nat result \<times> fs) option" where
  "vfs_rename ksend src_d src_name dst_d dst_name s =
     status_of (ksend (v_superblock (vnodes s src_d)) KUCOPY
       (CMD_RENAME (inode_nr (vnodes s src_d)) (inode_nr (vnodes s dst_d))
          (StrLen src_name + 1) (StrLen dst_name + 1)) [Some src_name, Some dst_name] [] s)"

definition vfs_chmod :: "ksend \<Rightarrow> nat \<Rightarrow> u32 \<Rightarrow> fs \<Rightarrow> (nat result \<times> fs) option" where
  "vfs_chmod ksend v mode s =
     status_of (ksend (v_superblock (vnodes s v)) KUCOPY (CMD_CHMOD (inode_nr (vnodes s v)) mode) [] [] s)"

definition vfs_chown :: "ksend \<Rightarrow> nat \<Rightarrow> int \<Rightarrow> int \<Rightarrow> fs \<Rightarrow> (nat result \<times> fs) option" where
  "vfs_chown ksend v u g s =
     status_of (ksend (v_superblock (vnodes s v)) KUCOPY (CMD_CHOWN (inode_nr (vnodes s v)) u g) [] [] s)"

definition vfs_unlink :: "ksend \<Rightarrow> nat \<Rightarrow> nat \<Rightarrow> string \<Rightarrow> fs \<Rightarrow> (nat result \<times> fs) option" where
  "vfs_unlink ksend d v name s =
     status_of (ksend (v_superblock (vnodes s d)) KUCOPY
       (CMD_UNLINK (inode_nr (vnodes s d)) (StrLen name + 1)) [Some name] [] s)"

definition vfs_link :: "ksend \<Rightarrow> nat \<Rightarrow> string \<Rightarrow> nat \<Rightarrow> fs \<Rightarrow> (nat result \<times> fs) option" where
  "vfs_link ksend d name target s =
     status_of (ksend (v_superblock (vnodes s d)) KUCOPY
       (CMD_LINK (inode_nr (vnodes s d)) (StrLen name + 1) (inode_nr (vnodes s target))) [Some name] [] s)"

definition vfs_symlink ::
    "ksend \<Rightarrow> nat \<Rightarrow> string \<Rightarrow> string \<Rightarrow> int \<Rightarrow> int \<Rightarrow> u32 \<Rightarrow> fs \<Rightarrow> (nat result \<times> fs) option" where
  "vfs_symlink ksend d name link u g mode s =
     status_of (ksend (v_superblock (vnodes s d)) KUCOPY
       (CMD_SYMLINK (inode_nr (vnodes s d)) (StrLen name + 1) (StrLen link + 1) u g mode)
       [Some name, Some link, None] [] s)"

text \<open>The buffer is terminated whatever the server has written to it.\<close>

definition vfs_rdlink :: "ksend \<Rightarrow> nat \<Rightarrow> u8 list \<Rightarrow> fs \<Rightarrow> (nat result \<times> u8 list \<times> fs) option" where
  "vfs_rdlink ksend v buf s = do {
     let sz = length buf;
     kassert (sz > 0);
     (sc, r, s1) \<leftarrow> ksend (v_superblock (vnodes s v)) KUCOPY (CMD_RDLINK (inode_nr (vnodes s v)) sz) [] [sz] s;
     Some (sc, ((take sz (r_data r)) @ drop (length (r_data r)) buf)[sz - 1 := 0], s1) }"

definition vfs_isatty :: "ksend \<Rightarrow> nat \<Rightarrow> fs \<Rightarrow> (nat result \<times> fs) option" where
  "vfs_isatty ksend v s =
     status_of (ksend (v_superblock (vnodes s v)) KUCOPY (CMD_ISATTY (inode_nr (vnodes s v))) [] [] s)"

definition vfs_syncfs :: "ksend \<Rightarrow> nat \<Rightarrow> fs \<Rightarrow> (nat result \<times> fs) option" where
  "vfs_syncfs ksend sb s = status_of (ksend sb KUCOPY CMD_SYNCFS [] [] s)"

definition vfs_fsync :: "ksend \<Rightarrow> nat \<Rightarrow> fs \<Rightarrow> (nat result \<times> fs) option" where
  "vfs_fsync ksend v s =
     status_of (ksend (v_superblock (vnodes s v)) KUCOPY (CMD_FSYNC (inode_nr (vnodes s v))) [] [] s)"

definition vfs_poll :: "ksend \<Rightarrow> nat \<Rightarrow> int \<Rightarrow> fs \<Rightarrow> (nat result \<times> int option \<times> fs) option" where
  "vfs_poll ksend v events s = do {
     (sc, r, s1) \<leftarrow> ksend (v_superblock (vnodes s v)) KUCOPY (CMD_POLL (inode_nr (vnodes s v)) events) [] [] s;
     Some (sc, (case sc of Inl _ \<Rightarrow> None | Inr _ \<Rightarrow> Some (r_revents r)), s1) }"

section \<open>Coherence\<close>

lemma cache_ok_cong:
  assumes "\<And>v. v_flags (vnodes s' v) = v_flags (vnodes s v)" "\<And>v. vnode_key s' v = vnode_key s v"
    and "vnode_hash s' = vnode_hash s" "set (vnode_free_list s') \<subseteq> set (vnode_free_list s)"
    and "distinct (vnode_free_list s')" and "cache_ok addr s"
  shows "cache_ok addr s'"
proof -
  from assms(1) have h: "hashed s' v = hashed s v" for v by (simp add: hashed_def)
  from assms(2) have k: "v_superblock (vnodes s' v) = v_superblock (vnodes s v)"
    "inode_nr (vnodes s' v) = inode_nr (vnodes s v)" for v by (simp_all add: vnode_key_def)
  show ?thesis
    using assms(4,5,6) unfolding cache_ok_def h k assms(1,2,3) by blast
qed

lemma cache_ok_ref: "cache_ok addr s \<Longrightarrow> cache_ok addr (vnode_ref v s)"
  by (rule cache_ok_cong [of _ s]) (auto simp: vnode_ref_def vnode_key_def cache_ok_def)

lemma cache_ok_unfree:
  assumes "cache_ok addr s"
  shows "cache_ok addr (s\<lparr>vnode_free_list := remove1 v (vnode_free_list s)\<rparr>)"
proof (rule cache_ok_cong [OF _ _ _ _ _ assms])
  show "distinct (vnode_free_list (s\<lparr>vnode_free_list := remove1 v (vnode_free_list s)\<rparr>))"
    using assms by (simp add: cache_ok_def)
qed (simp_all add: vnode_key_def set_remove1_subset)

lemma cache_ok_get:
  "cache_ok addr s \<Longrightarrow> vnode_get addr sb ino s = (r, s') \<Longrightarrow> cache_ok addr s' \<and> vnodes s' = vnodes s"
  unfolding vnode_get_def by (auto simp: cache_ok_unfree split: if_split_asm option.split_asm)

lemma cache_ok_enter:
  assumes ok: "cache_ok addr s" and free: "vnode_free_list s = v # vnode_free_list t"
    and t: "vnode_hash t = vnode_hash s" "vnodes t = (vnodes s)(v := n)" "v_flags n = V_VALID"
    and new: "vnode_find addr (v_superblock n) (inode_nr n) s = None"
    and e: "vnode_hash_enter addr v t = Some u"
  shows "cache_ok addr u" "hashed u v" "vnode_key u v = (v_superblock n, inode_nr n)"
proof -
  let ?h = "calc_vnode_hash addr (v_superblock n) (inode_nr n)"
  have u: "vnodes u = (vnodes s)(v := n\<lparr>v_flags := V_VALID OR V_HASHED\<rparr>)"
      "vnode_hash u = (vnode_hash s)(?h := v # vnode_hash s ?h)" "vnode_free_list u = vnode_free_list t"
    using e t by (auto simp: vnode_hash_enter_def Let_def)
  have V: "(V_VALID OR V_HASHED) AND V_HASHED \<noteq> 0" "(V_VALID OR V_HASHED) AND V_VALID \<noteq> 0"
    by (simp_all add: V_VALID_def V_HASHED_def)
  have hv: "hashed u w \<longleftrightarrow> w = v \<or> hashed s w" for w using u V by (simp add: hashed_def)
  have kv: "vnode_key u w = (if w = v then (v_superblock n, inode_nr n) else vnode_key s w)" for w
    using u by (simp add: vnode_key_def)
  have nv: "\<not> hashed s v" using ok free by (auto simp: cache_ok_def)
  have fresh: "vnode_key s w \<noteq> (v_superblock n, inode_nr n)" if "hashed s w" for w
    using new vnode_find_Some [OF ok, of "v_superblock n" "inode_nr n" w] that by simp
  have chain: "v \<notin> set (vnode_hash s h)" for h using ok nv by (auto simp: cache_ok_def)
  show "hashed u v" "vnode_key u v = (v_superblock n, inode_nr n)" using hv kv by auto
  have old: "hashed s x \<Longrightarrow> hashed s w \<Longrightarrow> vnode_key s x = vnode_key s w \<Longrightarrow> x = w" for x w
    using ok by (simp add: cache_ok_def)
  have uniq: "x = w" if "hashed u x \<and> hashed u w \<and> vnode_key u x = vnode_key u w" for x w
    using that fresh [of x] fresh [of w] old [of x w] unfolding hv kv
    by (cases "x = v"; cases "w = v") auto
  have mem: "w \<in> set (vnode_hash u h) \<longleftrightarrow> hashed u w \<and>
      h = calc_vnode_hash addr (v_superblock (vnodes u w)) (inode_nr (vnodes u w))" for h w
    using ok nv chain by (auto simp: hv u cache_ok_def)
  show "cache_ok addr u"
    unfolding cache_ok_def
  proof (intro conjI allI impI ballI)
    show "w \<in> set (vnode_hash u h) \<longleftrightarrow> hashed u w \<and>
        h = calc_vnode_hash addr (v_superblock (vnodes u w)) (inode_nr (vnodes u w))" for h w by (rule mem)
    show "x = w" if "hashed u x \<and> hashed u w \<and> vnode_key u x = vnode_key u w" for x w using that by (rule uniq)
    show "distinct (vnode_hash u h)" for h using ok chain by (auto simp: u cache_ok_def)
    show "v_flags (vnodes u w) AND V_VALID \<noteq> 0" if "hashed u w" for w
      using ok V that by (auto simp: u hv cache_ok_def)
    show "distinct (vnode_free_list u)" using ok free u by (auto simp: cache_ok_def)
    show "\<not> hashed u w" if "w \<in> set (vnode_free_list u)" for w
      using ok free u that by (auto simp: hv cache_ok_def)
  qed
qed

lemma vnode_get_new_Some:
  assumes "vnode_get_new sb s = Some (Some v, t)"
  shows "vnode_free_list s = v # vnode_free_list t" "vnode_hash t = vnode_hash s"
    "\<exists>n. vnodes t = (vnodes s)(v := n) \<and> v_superblock n = sb" 
    "sb_flags (superblocks t b) = sb_flags (superblocks s b)"
  using assms by (auto simp: vnode_get_new_def split: if_splits list.splits)

lemma vnode_ref_key [simp]: "hashed (vnode_ref v s) w = hashed s w" "vnode_key (vnode_ref v s) w = vnode_key s w"
  by (simp_all add: hashed_def vnode_key_def vnode_ref_def)

text \<open>The reply of a server that finds the name and leaves the kernel's tables alone.\<close>

definition finds :: "ksend \<Rightarrow> nat \<Rightarrow> int \<Rightarrow> string \<Rightarrow> ioreply \<Rightarrow> bool" where
  "finds ksend sb ino name r \<longleftrightarrow>
     (\<forall>s. ksend sb KUCOPY (CMD_LOOKUP ino (StrLen name + 1)) [Some name] [] s = Some (Inr 0, r, s))"

lemma vfs_lookup_cases:
  assumes ok: "cache_ok addr s" and d: "d \<notin> set (vnode_free_list s)"
    and f: "finds ksend (v_superblock (vnodes s d)) (inode_nr (vnodes s d)) name r"
    and l: "vfs_lookup addr ksend d name s = Some (Inr 0, Some v, s')"
  shows "cache_ok addr s'" "vnode_key s' v = (v_superblock (vnodes s d), r_inode_nr r)"
    "v = d \<or> hashed s' v" "vnode_key s' d = vnode_key s d"
proof -
  let ?sb = "v_superblock (vnodes s d)"
  obtain vo s2 where g: "vnode_get addr ?sb (r_inode_nr r) s = (vo, s2)" by fastforce
  note gok = cache_ok_get [OF ok g]
  consider (same) "r_inode_nr r = inode_nr (vnodes s d)" "v = d" "s' = vnode_ref d s"
    | (cached) "vo = Some v" "s' = vnode_ref v s2" "r_inode_nr r \<noteq> inode_nr (vnodes s d)"
    | (new) s3 where "vo = None" "r_inode_nr r \<noteq> inode_nr (vnodes s d)" "vnode_get_new ?sb s2 = Some (Some v, s3)"
        "vnode_hash_enter addr v (upd_vnode v (fill_vnode r) s3) = Some s'"
    using l f g unfolding vfs_lookup_def finds_def
    by (auto simp: Let_def split: if_splits option.splits bind_splits)
  then have "cache_ok addr s' \<and> vnode_key s' v = (?sb, r_inode_nr r) \<and> (v = d \<or> hashed s' v)
      \<and> vnode_key s' d = vnode_key s d"
  proof cases
    case same
    then show ?thesis using cache_ok_ref [OF ok, of d] by (simp add: vnode_key_def vnode_ref_def)
  next
    case cached
    then have "vnode_find addr ?sb (r_inode_nr r) s = Some v"
      using g by (auto simp: vnode_get_def split: if_splits option.splits)
    then have "hashed s v \<and> vnode_key s v = (?sb, r_inode_nr r)" using vnode_find_Some [OF ok] by simp
    moreover have "hashed s2 w = hashed s w" "vnode_key s2 w = vnode_key s w" for w
      using gok by (simp_all add: hashed_def vnode_key_def)
    ultimately show ?thesis unfolding cached(2) using cache_ok_ref [of addr s2 v] gok by simp
  next
    case new
    have abort: "sb_flags (superblocks s ?sb) AND SBF_ABORT = 0"
      using new(1,3) g by (auto simp: vnode_get_def vnode_get_new_def split: if_splits)
    then have nf: "vnode_find addr ?sb (r_inode_nr r) s2 = None" and s2: "s2 = s"
      using new(1) g by (auto simp: vnode_get_def split: option.splits)
    obtain n where n: "vnodes s3 = (vnodes s2)(v := n)" "v_superblock n = ?sb"
      using vnode_get_new_Some(3) [OF new(3)] by auto
    note e = cache_ok_enter [of addr s2 v "upd_vnode v (fill_vnode r) s3" "fill_vnode r n" s']
    have "v \<noteq> d" using d vnode_get_new_Some(1) [OF new(3)] s2 by auto
    moreover have "vnodes s' d = vnodes s d"
      using new(4) n \<open>v \<noteq> d\<close> s2 by (auto simp: vnode_hash_enter_def Let_def)
    ultimately show ?thesis
      using e gok vnode_get_new_Some(1,2) [OF new(3)] n nf new(4) by (auto simp: fill_vnode_def vnode_key_def)
  qed
  then show "cache_ok addr s'" "vnode_key s' v = (?sb, r_inode_nr r)" "v = d \<or> hashed s' v"
    "vnode_key s' d = vnode_key s d" by blast+
qed

lemma vfs_lookup_not_aborted:
  assumes f: "finds ksend (v_superblock (vnodes s d)) (inode_nr (vnodes s d)) name r"
    and l: "vfs_lookup addr ksend d name s = Some (Inr 0, Some v, s')"
    and ne: "r_inode_nr r \<noteq> inode_nr (vnodes s d)"
  shows "sb_flags (superblocks s' (v_superblock (vnodes s d))) AND SBF_ABORT = 0"
proof -
  let ?sb = "v_superblock (vnodes s d)"
  obtain vo s2 where g: "vnode_get addr ?sb (r_inode_nr r) s = (vo, s2)" by fastforce
  then have b: "superblocks s2 = superblocks s" by (auto simp: vnode_get_def split: if_splits option.splits)
  consider (cached) "vo = Some v" "s' = vnode_ref v s2"
    | (new) s3 where "vnode_get_new ?sb s2 = Some (Some v, s3)"
        "vnode_hash_enter addr v (upd_vnode v (fill_vnode r) s3) = Some s'"
    using l f g ne unfolding vfs_lookup_def finds_def
    by (auto simp: Let_def split: if_splits option.splits bind_splits)
  then show ?thesis
  proof cases
    case cached
    then show ?thesis using g b by (auto simp: vnode_get_def vnode_ref_def split: if_splits)
  next
    case new
    have "superblocks s' = superblocks s3" using new(2) by (auto simp: vnode_hash_enter_def Let_def)
    moreover have "sb_flags (superblocks s2 ?sb) AND SBF_ABORT = 0"
      using new(1) by (auto simp: vnode_get_new_def split: if_splits)
    ultimately show ?thesis using vnode_get_new_Some(4) [OF new(1)] by simp
  qed
qed

lemma vfs_lookup_again:
  assumes ok: "cache_ok addr s" and f: "finds ksend (v_superblock (vnodes s d)) (inode_nr (vnodes s d)) name r"
    and v: "if r_inode_nr r = inode_nr (vnodes s d) then v = d
      else hashed s v \<and> vnode_key s v = (v_superblock (vnodes s d), r_inode_nr r)
        \<and> sb_flags (superblocks s (v_superblock (vnodes s d))) AND SBF_ABORT = 0"
  shows "\<exists>s'. vfs_lookup addr ksend d name s = Some (Inr 0, Some v, s') \<and> cache_ok addr s'"
proof (cases "r_inode_nr r = inode_nr (vnodes s d)")
  case True
  then show ?thesis using f v cache_ok_ref [OF ok, of d] by (simp add: vfs_lookup_def finds_def)
next
  case False
  let ?sb = "v_superblock (vnodes s d)"
  from False v vnode_find_Some [OF ok] have "vnode_find addr ?sb (r_inode_nr r) s = Some v" by simp
  then obtain s2 where g: "vnode_get addr ?sb (r_inode_nr r) s = (Some v, s2)"
    using False v by (auto simp: vnode_get_def)
  then have "vfs_lookup addr ksend d name s = Some (Inr 0, Some v, vnode_ref v s2)"
    using False f by (simp add: vfs_lookup_def finds_def)
  then show ?thesis using cache_ok_get [OF ok g] cache_ok_ref by blast
qed

text \<open>
  C17. The vnode cache is coherent. A name that a server resolves gets a vnode with the server's
  inode number on the directory's superblock, whether it was cached, is the directory itself or is
  allocated anew; the cache stays consistent (each inode has at most one vnode, in the chain of its
  hash), and looking the name up again returns the same vnode.
\<close>

theorem vfs_lookup_coherent:
  assumes "cache_ok addr s" and "d \<notin> set (vnode_free_list s)"
    and "finds ksend (v_superblock (vnodes s d)) (inode_nr (vnodes s d)) name r"
    and "vfs_lookup addr ksend d name s = Some (Inr 0, Some v, s')"
  shows "cache_ok addr s' \<and> vnode_key s' v = (v_superblock (vnodes s d), r_inode_nr r)
     \<and> (\<exists>s''. vfs_lookup addr ksend d name s' = Some (Inr 0, Some v, s'') \<and> cache_ok addr s'')"
proof -
  note c = vfs_lookup_cases [OF assms]
  have d: "v_superblock (vnodes s' d) = v_superblock (vnodes s d)" "inode_nr (vnodes s' d) = inode_nr (vnodes s d)"
    using c(4) by (simp_all add: vnode_key_def)
  have same: "v = d" if "r_inode_nr r = inode_nr (vnodes s d)"
    using assms(3,4) that by (simp add: vfs_lookup_def finds_def)
  have "v \<noteq> d" if "r_inode_nr r \<noteq> inode_nr (vnodes s d)"
    using c(2) d that by (auto simp: vnode_key_def)
  then have "if r_inode_nr r = inode_nr (vnodes s' d) then v = d
      else hashed s' v \<and> vnode_key s' v = (v_superblock (vnodes s' d), r_inode_nr r)
        \<and> sb_flags (superblocks s' (v_superblock (vnodes s' d))) AND SBF_ABORT = 0"
    using c same d vfs_lookup_not_aborted [OF assms(3,4)] by auto
  moreover have "finds ksend (v_superblock (vnodes s' d)) (inode_nr (vnodes s' d)) name r"
    using assms(3) d by simp
  ultimately show ?thesis using vfs_lookup_again [OF c(1)] c(1,2) by blast
qed

text \<open>A directory and a server that knows one name in it.\<close>

definition one_dir :: fs where
  "one_dir = \<lparr>ks = init_tables, creds = (\<lambda>_. plain_user),
     fprocs = (\<lambda>_. \<lparr>fp_umask = 0, current_dir = Some 0, root_dir = Some 0, fd_table = []\<rparr>),
     filps = (\<lambda>i. \<lparr>f_offset = 0, f_flags = 0, f_reference_cnt = 0, f_type = FILP_TYPE_FREE, f_u = None\<rparr>),
     filp_free_list = [],
     vnodes = (\<lambda>v. \<lparr>v_superblock = 0, v_flags = 0, v_reference_cnt = 0, vnode_covered = None,
        vnode_mounted_here = None, v_pipe = None, tty_sid = -1, char_read_busy = False,
        char_write_busy = False, inode_nr = int v, v_mode = 0x41ED, v_uid = 0, v_gid = 0, v_size = 0\<rparr>),
     vnode_free_list = [5, 6], vnode_hash = (\<lambda>_. []),
     superblocks = (\<lambda>_. \<lparr>sb_reference_cnt = 1, sb_dev = 0, sb_root = Some 0, sb_flags = 0, vnode_list = []\<rparr>),
     free_superblock_list = [], mounted_superblock_list = [0],
     pipes = (\<lambda>_. \<lparr>pipe_data = [], w_pos = 0, r_pos = 0, free_sz = 0, data_sz = 0, reader_cnt = 0,
        writer_cnt = 0\<rparr>), free_pipe_list = []\<rparr>"

definition one_name :: ksend where
  "one_name sb ipc req siov riov s =
     Some (if siov = [Some ''etc''] then Inr 0 else Inl ENOENT,
       \<lparr>r_inode_nr = 77, r_size = 512, r_uid = 0, r_gid = 0, r_mode = 0x41ED, r_offset = 0, r_revents = 0,
        r_data = []\<rparr>, s)"

theorem vfs_lookup_coherent_witness:
  "\<exists>s' s''. vfs_lookup (\<lambda>_. 0) one_name 0 ''etc'' one_dir = Some (Inr 0, Some 5, s')
     \<and> inode_nr (vnodes s' 5) = 77
     \<and> vfs_lookup (\<lambda>_. 0) one_name 0 ''etc'' s' = Some (Inr 0, Some 5, s'')"
proof -
  have ok: "cache_ok (\<lambda>_. 0) one_dir" by (simp add: cache_ok_def one_dir_def hashed_def)
  have f: "finds one_name (v_superblock (vnodes one_dir 0)) (inode_nr (vnodes one_dir 0)) ''etc''
      \<lparr>r_inode_nr = 77, r_size = 512, r_uid = 0, r_gid = 0, r_mode = 0x41ED, r_offset = 0, r_revents = 0,
        r_data = []\<rparr>" (is "finds _ _ _ _ ?r")
    by (simp add: finds_def one_name_def)
  have "\<exists>s'. vfs_lookup (\<lambda>_. 0) one_name 0 ''etc'' one_dir = Some (Inr 0, Some 5, s')"
    by (simp add: vfs_lookup_def one_name_def one_dir_def vnode_get_def vnode_find_def vnode_get_new_def
        vnode_hash_enter_def fill_vnode_def V_VALID_def V_HASHED_def Let_def)
  then obtain s' where l: "vfs_lookup (\<lambda>_. 0) one_name 0 ''etc'' one_dir = Some (Inr 0, Some 5, s')" ..
  with vfs_lookup_coherent [OF ok _ f l] show ?thesis by (auto simp: one_dir_def vnode_key_def)
qed

end
