(* ===== verification/Lookup.thy ===== *)
theory Lookup
  imports Vfs "HOL-Library.Sublist"
begin

text \<open>
  Path name lookup (\<open>fs/lookup.c\<close>). The copy of the path in \<open>ld->path\<close> is a string; \<open>position\<close> is the
  part of it that is still to be read. \<open>vl\<close> stands for \<open>vfs_lookup\<close>, \<open>root\<close> for the global
  \<open>root_vnode\<close>, \<open>ctty\<close> for the controlling terminal of the caller's session. The loop over the
  components ends because every component it takes shortens \<open>position\<close>.
\<close>

unbundle bit_operations_syntax

section \<open>State\<close>

definition LOOKUP_PARENT :: u32 where "LOOKUP_PARENT = 1"
definition LOOKUP_REMOVE :: u32 where "LOOKUP_REMOVE = 2"
definition LOOKUP_NOFOLLOW :: u32 where "LOOKUP_NOFOLLOW = 32"
definition LOOKUP_KERNEL :: u32 where "LOOKUP_KERNEL = 64"
definition DEV_T_DEV_TTY :: nat where "DEV_T_DEV_TTY = 0x0500"

definition slash :: char where "slash = CHR ''/''"
definition NUL :: char where "NUL = CHR 0x00"

record lookupdata =
  start_vnode :: "nat option"
  ld_vnode :: "nat option"
  ld_parent :: "nat option"
  ld_path :: "string option"
  last_component :: "string option"
  position :: string
  separator :: char
  ld_flags :: u32

type_synonym vfs_lookup_fn = "nat \<Rightarrow> string \<Rightarrow> fs \<Rightarrow> (nat result \<times> nat option \<times> fs) option"

section \<open>Components\<close>

definition path_token :: "lookupdata \<Rightarrow> string option \<times> lookupdata" where
  "path_token ld =
     (let ch = dropWhile (\<lambda>c. c = slash) (position ld)
      in if ch = [] then (None, ld\<lparr>position := [], separator := NUL\<rparr>)
         else (let name = takeWhile (\<lambda>c. c \<noteq> slash) ch; rest = dropWhile (\<lambda>c. c \<noteq> slash) ch
               in (Some name, if rest = [] then ld\<lparr>position := [], separator := NUL\<rparr>
                              else ld\<lparr>position := tl rest, separator := slash\<rparr>)))"

definition is_last_component :: "lookupdata \<Rightarrow> bool" where
  "is_last_component ld \<longleftrightarrow> separator ld = NUL \<or> position ld = []"

text \<open>What follows a vnode on which another is mounted.\<close>

definition follow_mount :: "nat option \<Rightarrow> nat \<Rightarrow> lookupdata \<Rightarrow> fs \<Rightarrow> nat result \<times> lookupdata \<times> fs" where
  "follow_mount ctty v ld s =
     (case vnode_mounted_here (vnodes s v) of
        None \<Rightarrow> (Inr 0, ld\<lparr>ld_vnode := Some v\<rparr>, s)
      | Some m \<Rightarrow>
          if is_last_component ld \<and> ld_flags ld AND LOOKUP_NOFOLLOW = 0
             \<and> sb_dev (superblocks s (v_superblock (vnodes s m))) = DEV_T_DEV_TTY
             \<and> S_ISCHR (v_mode (vnodes s m))
          then (case ctty of
                  None \<Rightarrow> (Inl EPERM, ld\<lparr>ld_vnode := None\<rparr>, vnode_put v s)
                | Some t \<Rightarrow> (Inr 0, ld\<lparr>ld_vnode := Some t\<rparr>, vnode_ref t (vnode_put v s)))
          else (Inr 0, ld\<lparr>ld_vnode := Some m\<rparr>, vnode_ref m (vnode_put v s)))"

definition walk_component ::
    "vfs_lookup_fn \<Rightarrow> nat option \<Rightarrow> nat option \<Rightarrow> lookupdata \<Rightarrow> fs \<Rightarrow> (nat result \<times> lookupdata \<times> fs) option" where
  "walk_component vl root ctty ld s = do {
     parent \<leftarrow> ld_parent ld;
     kassert (ld_vnode ld = None);
     name \<leftarrow> last_component ld;
     if \<not> S_ISDIR (v_mode (vnodes s parent)) then Some (Inl ENOTDIR, ld, s)
     else if name = ''.'' then Some (Inr 0, ld\<lparr>ld_vnode := Some parent\<rparr>, vnode_ref parent s)
     else if name = ''..'' \<and> Some parent = root
     then Some (Inr 0, ld\<lparr>ld_vnode := Some parent\<rparr>, vnode_ref parent s)
     else do {
       let (parent', s1) =
         (case (name = ''..'', vnode_covered (vnodes s parent)) of
            (True, Some c) \<Rightarrow> (c, vnode_put parent (vnode_ref c s))
          | _ \<Rightarrow> (parent, s));
       let ld1 = ld\<lparr>ld_parent := Some parent'\<rparr>;
       (rc, vo, s2) \<leftarrow> vl parent' name s1;
       if rc \<noteq> Inr 0 then Some (rc, ld1\<lparr>ld_vnode := vo\<rparr>, s2)
       else do {
         v \<leftarrow> vo;
         Some (follow_mount ctty v ld1 s2) } } }"

lemma follow_mount_position: "follow_mount ctty v ld s = (rc, ld', s') \<Longrightarrow> position ld' = position ld"
  by (auto simp: follow_mount_def split: option.splits if_splits)

lemma walk_component_position: "walk_component vl root ctty ld s = Some (rc, ld', s') \<Longrightarrow> position ld' = position ld"
  by (auto simp: walk_component_def Let_def split: bind_splits if_splits option.splits prod.splits
      dest!: follow_mount_position)

lemma slash_NUL: "slash \<noteq> NUL"
  by (simp add: slash_def NUL_def)

lemma path_token_Some:
  assumes t: "path_token ld = (Some name, ld')"
  shows "dropWhile (\<lambda>c. c = slash) (position ld) \<noteq> []"
    and "name = takeWhile (\<lambda>c. c \<noteq> slash) (dropWhile (\<lambda>c. c = slash) (position ld))"
    and "position ld' = tl (dropWhile (\<lambda>c. c \<noteq> slash) (dropWhile (\<lambda>c. c = slash) (position ld)))"
    and "is_last_component ld' \<longleftrightarrow> position ld' = []"
proof -
  let ?ch = "dropWhile (\<lambda>c. c = slash) (position ld)"
  let ?rest = "dropWhile (\<lambda>c. c \<noteq> slash) ?ch"
  show ch: "?ch \<noteq> []" using t unfolding path_token_def Let_def by (metis option.distinct(1) prod.inject)
  then have e: "name = takeWhile (\<lambda>c. c \<noteq> slash) ?ch"
      "ld' = (if ?rest = [] then ld\<lparr>position := [], separator := NUL\<rparr> else ld\<lparr>position := tl ?rest, separator := slash\<rparr>)"
    using t unfolding path_token_def Let_def by (simp_all del: dropWhile_eq_Nil_conv)
  show "name = takeWhile (\<lambda>c. c \<noteq> slash) ?ch" by (rule e(1))
  show "position ld' = tl ?rest" by (cases "?rest = []") (simp_all add: e(2) del: dropWhile_eq_Nil_conv)
  show "is_last_component ld' \<longleftrightarrow> position ld' = []"
    unfolding is_last_component_def e(2) using slash_NUL by (cases "?rest = []") (simp_all del: dropWhile_eq_Nil_conv)
qed

lemma path_token_shorter:
  assumes "path_token ld = (Some name, ld')"
  shows "length (position ld') < length (position ld)"
proof -
  note t = path_token_Some [OF assms]
  let ?ch = "dropWhile (\<lambda>c. c = slash) (position ld)"
  have "length ?ch \<le> length (position ld)" "length (dropWhile (\<lambda>c. c \<noteq> slash) ?ch) \<le> length ?ch"
    by (rule length_dropWhile_le)+
  moreover from t(1) have "0 < length ?ch" by blast
  ultimately show ?thesis unfolding t(3) length_tl by linarith
qed

section \<open>The loop\<close>

function lookup_path_loop ::
    "vfs_lookup_fn \<Rightarrow> nat option \<Rightarrow> nat option \<Rightarrow> lookupdata \<Rightarrow> fs \<Rightarrow> (nat result \<times> lookupdata \<times> fs) option" where
  "lookup_path_loop vl root ctty ld s =
     (case path_token ld of
        (None, ld1) \<Rightarrow> Some (Inl EINVAL, ld1\<lparr>last_component := None\<rparr>, s)
      | (Some name, ld1) \<Rightarrow>
          (let ld2 = ld1\<lparr>last_component := Some name, ld_parent := None\<rparr>;
               s1 = (case ld_parent ld1 of Some p \<Rightarrow> vnode_put p s | None \<Rightarrow> s)
           in if is_last_component ld2 then Some (Inr 0, ld2, s1)
              else (case walk_component vl root ctty (ld2\<lparr>ld_parent := ld_vnode ld2, ld_vnode := None\<rparr>) s1 of
                      None \<Rightarrow> None
                    | Some (rc, ld3, s2) \<Rightarrow>
                        if rc \<noteq> Inr 0
                        then Some (rc, ld3\<lparr>ld_parent := None\<rparr>,
                               case ld_parent ld3 of Some p \<Rightarrow> vnode_put p s2 | None \<Rightarrow> s2)
                        else lookup_path_loop vl root ctty ld3 s2)))"
  by pat_completeness auto
termination
  by (relation "measure (\<lambda>(vl, root, ctty, ld, s). length (position ld))")
    (auto dest!: path_token_shorter [OF sym] walk_component_position)

declare lookup_path_loop.simps [simp del]

definition lookup_path ::
    "vfs_lookup_fn \<Rightarrow> nat option \<Rightarrow> nat option \<Rightarrow> lookupdata \<Rightarrow> fs \<Rightarrow> (nat result \<times> lookupdata \<times> fs) option" where
  "lookup_path vl root ctty ld s = do {
     v \<leftarrow> start_vnode ld;
     lookup_path_loop vl root ctty (ld\<lparr>ld_parent := None, ld_vnode := Some v\<rparr>) (vnode_ref v s) }"

definition lookup_last_component ::
    "vfs_lookup_fn \<Rightarrow> nat option \<Rightarrow> nat option \<Rightarrow> lookupdata \<Rightarrow> fs \<Rightarrow> (nat result \<times> lookupdata \<times> fs) option" where
  "lookup_last_component vl root ctty ld s = do {
     kassert (ld_parent ld \<noteq> None);
     if last_component ld = None then Some (Inl ENOENT, ld, s)
     else walk_component vl root ctty ld s }"

section \<open>Looking up a path\<close>

text \<open>The loop that is to remove trailing separators, from index \<open>i\<close> of the buffer downwards.\<close>

fun strip_trailing :: "nat \<Rightarrow> string \<Rightarrow> string" where
  "strip_trailing 0 path = path"
| "strip_trailing (Suc i) path =
     (if Suc i < length path \<and> path ! Suc i = slash then strip_trailing i (take (Suc i) path) else path)"

text \<open>
  \<open>path\<close> is the caller's path, \<open>None\<close> when copying it from the user fails; \<open>page_ok\<close> the outcome of
  \<open>kmalloc_page\<close>. A path of the kernel is copied with the size of a pointer as its limit.
\<close>

definition init_lookup ::
    "bool \<Rightarrow> string option \<Rightarrow> u32 \<Rightarrow> nat option \<Rightarrow> nat \<Rightarrow> fs \<Rightarrow> (nat result \<times> lookupdata \<times> fs) option" where
  "init_lookup page_ok path flags root current s =
     (let ld = \<lparr>start_vnode = None, ld_vnode = None, ld_parent = None, ld_path = None, last_component = None,
                position = [], separator = NUL, ld_flags = flags\<rparr>
      in if \<not> page_ok then Some (Inl EPERM, ld, s)
         else (case (if flags AND LOOKUP_KERNEL \<noteq> 0 then map_option (take 3) path else path) of
                 None \<Rightarrow> Some (Inl EFAULT, ld, s)
               | Some p0 \<Rightarrow> do {
                   let p = strip_trailing (length p0) p0;
                   start \<leftarrow> (if p \<noteq> [] \<and> hd p = slash then root else current_dir (fprocs s current));
                   let s1 = vnode_ref start s;
                   let ld1 = ld\<lparr>ld_path := Some p, start_vnode := Some start\<rparr>;
                   if \<not> S_ISDIR (v_mode (vnodes s1 start)) then Some (Inl ENOTDIR, ld1, s1)
                   else Some (Inr 0, ld1\<lparr>position := p\<rparr>, s1) }))"

definition lookup ::
    "vfs_lookup_fn \<Rightarrow> nat option \<Rightarrow> nat option \<Rightarrow> bool \<Rightarrow> string option \<Rightarrow> u32 \<Rightarrow> nat \<Rightarrow> fs
       \<Rightarrow> (nat result \<times> lookupdata \<times> fs) option" where
  "lookup vl root ctty page_ok path flags current s = do {
     (rc, ld, s1) \<leftarrow> init_lookup page_ok path flags root current s;
     if rc \<noteq> Inr 0 then Some (rc, ld, s1)
     else if flags AND LOOKUP_PARENT \<noteq> 0 then
       (if ld_path ld = Some [slash] then Some (Inl EINVAL, ld, s1)
        else do {
          (rc1, ld1, s2) \<leftarrow> lookup_path vl root ctty ld s1;
          if rc1 \<noteq> Inr 0 then Some (rc1, ld1, s2)
          else do {
            (_, ld2, s3) \<leftarrow> lookup_last_component vl root ctty
                             (ld1\<lparr>ld_parent := ld_vnode ld1, ld_vnode := None\<rparr>) s2;
            Some (Inr 0, ld2, s3) } })
     else if flags AND LOOKUP_REMOVE \<noteq> 0 then Some (Inl ENOTSUP, ld, s1)
     else if ld_path ld = Some [slash] then do {
       r \<leftarrow> root;
       Some (Inr 0, ld\<lparr>ld_parent := None, ld_vnode := Some r\<rparr>, vnode_ref r s1) }
     else do {
       (rc1, ld1, s2) \<leftarrow> lookup_path vl root ctty ld s1;
       if rc1 \<noteq> Inr 0 then Some (rc1, ld1, s2)
       else do {
         (rc2, ld2, s3) \<leftarrow> lookup_last_component vl root ctty
                            (ld1\<lparr>ld_parent := ld_vnode ld1, ld_vnode := None\<rparr>) s2;
         p \<leftarrow> ld_parent ld2;
         Some (rc2, ld2\<lparr>ld_parent := None\<rparr>, vnode_put p s3) } } }"

definition lookup_cleanup :: "lookupdata \<Rightarrow> fs \<Rightarrow> lookupdata \<times> fs" where
  "lookup_cleanup ld s =
     (ld\<lparr>ld_path := None, ld_vnode := None, ld_parent := None, last_component := None, position := [],
         start_vnode := None\<rparr>,
      (case ld_parent ld of Some p \<Rightarrow> vnode_put p | None \<Rightarrow> id)
        ((case ld_vnode ld of Some v \<Rightarrow> vnode_put v | None \<Rightarrow> id) s))"

definition path_advance :: "vfs_lookup_fn \<Rightarrow> nat \<Rightarrow> string \<Rightarrow> fs \<Rightarrow> (nat option \<times> fs) option" where
  "path_advance vl d component s = do {
     (rc, vo, s1) \<leftarrow> vl d component s;
     Some (if rc \<noteq> Inr 0 then None else vo, s1) }"

section \<open>Specification\<close>

text \<open>The components of a path: the maximal runs of characters other than the separator.\<close>

fun comps :: "string \<Rightarrow> string \<Rightarrow> string list" where
  "comps acc [] = (if acc = [] then [] else [acc])"
| "comps acc (c # cs) =
     (if c = slash then (if acc = [] then [] else [acc]) @ comps [] cs else comps (acc @ [c]) cs)"

definition components :: "string \<Rightarrow> string list" where
  "components p = comps [] p"

text \<open>
  Walking one component over a tree of directories, given by the names each directory has, the
  mounts of the state \<open>s\<close> and the controlling terminal; then all components of a path.
\<close>

definition follow_spec :: "fs \<Rightarrow> nat option \<Rightarrow> bool \<Rightarrow> nat \<Rightarrow> nat result" where
  "follow_spec s ctty follow v =
     (case vnode_mounted_here (vnodes s v) of
        None \<Rightarrow> Inr v
      | Some m \<Rightarrow> if follow \<and> sb_dev (superblocks s (v_superblock (vnodes s m))) = DEV_T_DEV_TTY
                    \<and> S_ISCHR (v_mode (vnodes s m))
                 then (case ctty of None \<Rightarrow> Inl EPERM | Some t \<Rightarrow> Inr t)
                 else Inr m)"

definition walk_spec ::
    "(nat \<Rightarrow> string \<Rightarrow> nat result) \<Rightarrow> nat option \<Rightarrow> nat option \<Rightarrow> fs \<Rightarrow> bool \<Rightarrow> nat \<Rightarrow> string \<Rightarrow> nat result" where
  "walk_spec tree root ctty s follow p name =
     (if \<not> S_ISDIR (v_mode (vnodes s p)) then Inl ENOTDIR
      else if name = ''.'' \<or> name = ''..'' \<and> Some p = root then Inr p
      else case tree (case (name = ''..'', vnode_covered (vnodes s p)) of (True, Some c) \<Rightarrow> c | _ \<Rightarrow> p) name of
             Inl e \<Rightarrow> Inl e
           | Inr v \<Rightarrow> follow_spec s ctty follow v)"

fun resolve_dirs ::
    "(nat \<Rightarrow> string \<Rightarrow> nat result) \<Rightarrow> nat option \<Rightarrow> nat option \<Rightarrow> fs \<Rightarrow> nat \<Rightarrow> string list \<Rightarrow> nat result" where
  "resolve_dirs tree root ctty s p [] = Inr p"
| "resolve_dirs tree root ctty s p (n # ns) =
     (case walk_spec tree root ctty s False p n of
        Inl e \<Rightarrow> Inl e
      | Inr v \<Rightarrow> resolve_dirs tree root ctty s v ns)"

definition resolve ::
    "(nat \<Rightarrow> string \<Rightarrow> nat result) \<Rightarrow> nat option \<Rightarrow> nat option \<Rightarrow> fs \<Rightarrow> bool \<Rightarrow> nat \<Rightarrow> string list \<Rightarrow> nat result" where
  "resolve tree root ctty s follow p ns =
     (case resolve_dirs tree root ctty s p (butlast ns) of
        Inl e \<Rightarrow> Inl e
      | Inr v \<Rightarrow> walk_spec tree root ctty s follow v (last ns))"

text \<open>
  States with the same vnodes and mounts, up to reference counts and what else looking up names
  may change, and a \<open>vfs_lookup\<close> that answers as the tree does and keeps them.
\<close>

definition same_tree :: "fs \<Rightarrow> fs \<Rightarrow> bool" where
  "same_tree s t \<longleftrightarrow>
     (\<forall>v. v_mode (vnodes t v) = v_mode (vnodes s v) \<and> vnode_covered (vnodes t v) = vnode_covered (vnodes s v)
        \<and> vnode_mounted_here (vnodes t v) = vnode_mounted_here (vnodes s v)
        \<and> v_superblock (vnodes t v) = v_superblock (vnodes s v))
     \<and> (\<forall>b. sb_dev (superblocks t b) = sb_dev (superblocks s b))"

definition serves :: "vfs_lookup_fn \<Rightarrow> (nat \<Rightarrow> string \<Rightarrow> nat result) \<Rightarrow> fs \<Rightarrow> bool" where
  "serves vl tree s \<longleftrightarrow>
     (\<forall>t d n. same_tree s t \<longrightarrow>
        (\<exists>u. same_tree s u \<and>
           vl d n t = Some (case tree d n of Inl e \<Rightarrow> (Inl e, None, u) | Inr v \<Rightarrow> (Inr 0, Some v, u))))"

section \<open>Tokens are components\<close>

lemma comps_word: "slash \<notin> set w \<Longrightarrow> comps acc (w @ r) = comps (acc @ w) r"
  by (induction w arbitrary: acc) auto

lemma comps_slashes: "comps [] p = comps [] (dropWhile (\<lambda>c. c = slash) p)"
  by (induction p) auto

lemma dropWhile_cases: "dropWhile P xs = [] \<or> (\<exists>y ys. dropWhile P xs = y # ys \<and> \<not> P y)"
  by (induction xs) auto

lemma components_token:
  assumes t: "path_token ld = (Some n, ld')"
  shows "components (position ld) = n # components (position ld')"
proof -
  let ?ch = "dropWhile (\<lambda>c. c = slash) (position ld)"
  note e = path_token_Some [OF t]
  have ns: "slash \<notin> set n" using e(2) by (auto dest: set_takeWhileD)
  let ?r = "dropWhile (\<lambda>c. c \<noteq> slash) ?ch"
  obtain c cs where c: "?ch = c # cs" using e(1) by (cases ?ch) auto
  with hd_dropWhile [OF e(1)] have "c \<noteq> slash" by simp
  then have n: "n \<noteq> []" unfolding e(2) c by simp
  have r: "?r = [] \<and> position ld' = [] \<or> ?r = slash # position ld'"
    using dropWhile_cases [of "\<lambda>c. c \<noteq> slash" ?ch] unfolding e(3)
    by (elim disjE exE conjE) (simp_all only: list.sel not_not simp_thms)
  have "?ch = n @ ?r" unfolding e(2) by (rule takeWhile_dropWhile_id [symmetric])
  then have "components (position ld) = comps [] (n @ ?r)"
    unfolding components_def comps_slashes [of "position ld"] by (rule arg_cong)
  also have "\<dots> = comps n ?r" using comps_word [OF ns, of "[]"] by simp
  also have "\<dots> = n # components (position ld')"
    using r n by (elim disjE) (simp_all add: components_def del: dropWhile_eq_Nil_conv)
  finally show ?thesis .
qed

lemma path_token_None: "path_token ld = (None, ld') \<Longrightarrow> components (position ld) = []"
  unfolding components_def comps_slashes [of "position ld"]
  by (auto simp: path_token_def Let_def simp del: dropWhile_eq_Nil_conv split: if_split_asm)

lemma token_frame:
  "path_token ld = (r, ld') \<Longrightarrow> ld_vnode ld' = ld_vnode ld \<and> ld_parent ld' = ld_parent ld \<and> ld_flags ld' = ld_flags ld
     \<and> start_vnode ld' = start_vnode ld"
  by (auto simp: path_token_def Let_def simp del: dropWhile_eq_Nil_conv split: if_split_asm)

section \<open>Walking refines the specification\<close>

lemma same_tree_refl: "same_tree s s" by (simp add: same_tree_def)

lemma same_tree_ref: "same_tree s t \<Longrightarrow> same_tree s (vnode_ref v t)"
  by (auto simp: same_tree_def vnode_ref_def)

lemma vnode_put_id [simp]: "vnode_put v s = s" by (simp add: vnode_put_def)

definition walk_result :: "nat result \<Rightarrow> nat result \<Rightarrow> lookupdata \<Rightarrow> lookupdata \<Rightarrow> bool" where
  "walk_result spec rc ld ld' \<longleftrightarrow>
     (case spec of Inl e \<Rightarrow> rc = Inl e | Inr v \<Rightarrow> rc = Inr 0 \<and> ld_vnode ld' = Some v)
     \<and> ld_parent ld' \<noteq> None \<and> position ld' = position ld \<and> separator ld' = separator ld
     \<and> ld_flags ld' = ld_flags ld \<and> last_component ld' = last_component ld"

lemma follow_mount_spec:
  assumes "same_tree s t" and "ld_parent ld \<noteq> None"
    and "fo \<longleftrightarrow> is_last_component ld \<and> ld_flags ld AND LOOKUP_NOFOLLOW = 0"
  obtains rc ld' u where "follow_mount ctty v ld t = (rc, ld', u)" "same_tree s u"
    "walk_result (follow_spec s ctty fo v) rc ld ld'"
proof -
  obtain rc ld' u where f: "follow_mount ctty v ld t = (rc, ld', u)" by (metis prod_cases3)
  have m: "vnode_mounted_here (vnodes t v) = vnode_mounted_here (vnodes s v)"
    and d: "sb_dev (superblocks t (v_superblock (vnodes t w))) = sb_dev (superblocks s (v_superblock (vnodes s w)))"
    and c: "v_mode (vnodes t w) = v_mode (vnodes s w)" for w
    using assms(1) by (simp_all add: same_tree_def)
  have "same_tree s u"
    using f assms(1) by (auto simp: follow_mount_def same_tree_ref split: option.splits if_splits)
  moreover have "walk_result (follow_spec s ctty fo v) rc ld ld'"
    using f assms(2,3) unfolding follow_mount_def follow_spec_def walk_result_def m d c
    by (auto split: option.split_asm if_split_asm)
  ultimately show ?thesis using f that by blast
qed

lemma walk_component_spec:
  assumes vl: "serves vl tree s" and s: "same_tree s t"
    and ld: "ld_parent ld = Some p" "ld_vnode ld = None" "last_component ld = Some n"
    and fo: "fo \<longleftrightarrow> is_last_component ld \<and> ld_flags ld AND LOOKUP_NOFOLLOW = 0"
  obtains rc ld' u where "walk_component vl root ctty ld t = Some (rc, ld', u)" "same_tree s u"
    "walk_result (walk_spec tree root ctty s fo p n) rc ld ld'"
proof -
  have mode: "v_mode (vnodes t p) = v_mode (vnodes s p)"
    and cov: "vnode_covered (vnodes t p) = vnode_covered (vnodes s p)"
    using s by (simp_all add: same_tree_def)
  let ?q = "case (n = ''..'', vnode_covered (vnodes s p)) of (True, Some c) \<Rightarrow> c | _ \<Rightarrow> p"
  let ?t = "case (n = ''..'', vnode_covered (vnodes s p)) of (True, Some c) \<Rightarrow> vnode_ref c t | _ \<Rightarrow> t"
  let ?ld = "ld\<lparr>ld_parent := Some ?q\<rparr>"
  have t: "same_tree s ?t" using s by (auto simp: same_tree_ref split: option.split bool.split)
  consider (notdir) "\<not> S_ISDIR (v_mode (vnodes s p))"
    | (dot) "S_ISDIR (v_mode (vnodes s p))" "n = ''.'' \<or> n = ''..'' \<and> Some p = root"
    | (name) "S_ISDIR (v_mode (vnodes s p))" "n \<noteq> ''.''" "\<not> (n = ''..'' \<and> Some p = root)" by blast
  then show ?thesis
  proof cases
    case notdir
    then have "walk_component vl root ctty ld t = Some (Inl ENOTDIR, ld, t)"
      using ld mode by (simp add: walk_component_def)
    then show ?thesis using that s notdir ld(1) by (auto simp: walk_spec_def walk_result_def)
  next
    case dot
    then have "walk_component vl root ctty ld t = Some (Inr 0, ld\<lparr>ld_vnode := Some p\<rparr>, vnode_ref p t)"
      using ld mode by (auto simp: walk_component_def)
    then show ?thesis
      using that [OF _ same_tree_ref [OF s]] dot ld(1) by (auto simp: walk_spec_def walk_result_def)
  next
    case name
    obtain u where u: "same_tree s u"
        "vl ?q n ?t = Some (case tree ?q n of Inl e \<Rightarrow> (Inl e, None, u) | Inr v \<Rightarrow> (Inr 0, Some v, u))"
      using vl t unfolding serves_def by blast
    have w: "walk_component vl root ctty ld t = (case tree ?q n of
        Inl e \<Rightarrow> Some (Inl e, ?ld\<lparr>ld_vnode := None\<rparr>, u) | Inr v \<Rightarrow> Some (follow_mount ctty v ?ld u))"
      using ld name mode cov u(2)
      by (auto simp: walk_component_def split: option.splits bool.splits sum.splits)
    have spec: "walk_spec tree root ctty s fo p n =
        (case tree ?q n of Inl e \<Rightarrow> Inl e | Inr v \<Rightarrow> follow_spec s ctty fo v)"
      using name by (auto simp: walk_spec_def)
    show ?thesis
    proof (cases "tree ?q n")
      case (Inl e)
      then show ?thesis using that [OF _ u(1)] w spec by (auto simp: walk_result_def)
    next
      case (Inr v)
      have fo': "fo \<longleftrightarrow> is_last_component ?ld \<and> ld_flags ?ld AND LOOKUP_NOFOLLOW = 0"
        using fo by (simp add: is_last_component_def)
      from follow_mount_spec [OF u(1) _ fo', of ctty v] obtain rc ld' u' where
        f: "follow_mount ctty v ?ld u = (rc, ld', u')" "same_tree s u'"
          "walk_result (follow_spec s ctty fo v) rc ?ld ld'" by auto
      then show ?thesis using that [of rc ld' u'] Inr w spec by (simp add: walk_result_def)
    qed
  qed
qed

lemma walk_result_last: "walk_result sp rc ld ld' \<Longrightarrow> is_last_component ld' = is_last_component ld"
  by (simp add: walk_result_def is_last_component_def)

lemma comps_acc: "acc \<noteq> [] \<Longrightarrow> comps acc p \<noteq> []"
  by (induction p arbitrary: acc) auto

lemma components_Nil: "components p = [] \<longleftrightarrow> (\<forall>c \<in> set p. c = slash)"
  by (induction p) (auto simp: components_def comps_acc)

definition two_slashes :: "string \<Rightarrow> bool" where
  "two_slashes p \<longleftrightarrow> suffix [slash, slash] p"

lemma token_suffix:
  assumes t: "path_token ld = (Some n, ld')" and ne: "position ld' \<noteq> []"
  shows "suffix (slash # position ld') (position ld)"
proof -
  let ?ch = "dropWhile (\<lambda>c. c = slash) (position ld)"
  note e = path_token_Some [OF t]
  have "dropWhile (\<lambda>c. c \<noteq> slash) ?ch = slash # position ld'"
    using dropWhile_cases [of "\<lambda>c. c \<noteq> slash" ?ch] ne unfolding e(3)
    by (elim disjE exE conjE) (simp_all only: list.sel not_not simp_thms)
  moreover have "suffix (dropWhile (\<lambda>c. c \<noteq> slash) ?ch) (position ld)"
    using suffix_dropWhile suffix_order.trans by blast
  ultimately show ?thesis by simp
qed

lemma slashes_two:
  assumes "xs \<noteq> []" "\<forall>c \<in> set xs. c = slash"
  shows "suffix [slash, slash] (slash # xs)"
proof -
  obtain k where "length xs = Suc k" using assms(1) by (cases xs) auto
  with assms(2) have "xs = replicate (Suc k) slash" by (metis replicate_eqI)
  then have "slash # xs = replicate k slash @ [slash, slash]"
    using replicate_add [of k 2 slash] by (simp add: numeral_2_eq_2)
  then show ?thesis by (simp add: suffix_def)
qed

lemma token_last:
  assumes t: "path_token ld = (Some n, ld')" and "\<not> two_slashes (position ld)"
  shows "is_last_component ld' \<longleftrightarrow> components (position ld') = []" "\<not> two_slashes (position ld')"
proof -
  have "position ld' = []" if "components (position ld') = []"
  proof (rule ccontr)
    assume ne: "position ld' \<noteq> []"
    with slashes_two that have "suffix [slash, slash] (slash # position ld')" by (simp add: components_Nil)
    with token_suffix [OF t ne] assms(2) show False
      unfolding two_slashes_def using suffix_order.trans by blast
  qed
  then show "is_last_component ld' \<longleftrightarrow> components (position ld') = []"
    using path_token_Some(4) [OF t] by (auto simp: components_def)
  show "\<not> two_slashes (position ld')"
  proof
    assume "two_slashes (position ld')"
    then have ne: "position ld' \<noteq> []" and sx: "suffix [slash, slash] (position ld')"
      by (auto simp: two_slashes_def)
    have "suffix (position ld') (position ld)" using token_suffix [OF t ne] by (rule suffix_ConsD)
    with sx assms(2) show False unfolding two_slashes_def using suffix_order.trans by blast
  qed
qed

lemma lookup_path_loop_spec:
  assumes vl: "serves vl tree s"
  shows "same_tree s t \<Longrightarrow> ld_vnode ld = Some p \<Longrightarrow> components (position ld) \<noteq> [] \<Longrightarrow> \<not> two_slashes (position ld) \<Longrightarrow>
    \<exists>rc ld' u. lookup_path_loop vl root ctty ld t = Some (rc, ld', u) \<and> same_tree s u
      \<and> (case resolve_dirs tree root ctty s p (butlast (components (position ld))) of
           Inl e \<Rightarrow> rc = Inl e
         | Inr v \<Rightarrow> rc = Inr 0 \<and> ld_vnode ld' = Some v \<and> last_component ld' = Some (last (components (position ld)))
             \<and> is_last_component ld' \<and> ld_flags ld' = ld_flags ld)"
proof (induction "length (position ld)" arbitrary: ld t p rule: less_induct)
  case less
  obtain n ld1 where tok: "path_token ld = (Some n, ld1)"
    using less.prems(3) path_token_None [of ld] by (metis option.exhaust surj_pair)
  note fr = token_frame [OF tok] and cs = components_token [OF tok] and la = token_last [OF tok less.prems(4)]
  let ?ld2 = "ld1\<lparr>last_component := Some n, ld_parent := None\<rparr>"
  let ?ld3 = "?ld2\<lparr>ld_parent := ld_vnode ?ld2, ld_vnode := None\<rparr>"
  have last2: "is_last_component ?ld2 \<longleftrightarrow> components (position ld1) = []"
    using la(1) by (simp add: is_last_component_def)
  show ?case
  proof (cases "components (position ld1) = []")
    case True
    then have "lookup_path_loop vl root ctty ld t = Some (Inr 0, ?ld2, t)"
      using tok last2 by (subst lookup_path_loop.simps) (simp split: option.split)
    then show ?thesis using True cs less.prems fr last2 by simp
  next
    case False
    obtain rc ld4 u where w: "walk_component vl root ctty ?ld3 t = Some (rc, ld4, u)" "same_tree s u"
        "walk_result (walk_spec tree root ctty s False p n) rc ?ld3 ld4"
      by (rule walk_component_spec [OF vl less.prems(1), of ?ld3 p n False])
        (use fr less.prems(2) last2 False in \<open>auto simp: is_last_component_def\<close>)
    have loop: "lookup_path_loop vl root ctty ld t =
        (if rc \<noteq> Inr 0 then Some (rc, ld4\<lparr>ld_parent := None\<rparr>, u) else lookup_path_loop vl root ctty ld4 u)"
      using tok last2 False w(1)
      by (subst lookup_path_loop.simps) (simp split: option.split)
    show ?thesis
    proof (cases "walk_spec tree root ctty s False p n")
      case (Inl e)
      then show ?thesis using loop w cs False by (simp add: walk_result_def)
    next
      case (Inr v)
      then have ld4: "rc = Inr 0" "ld_vnode ld4 = Some v" "position ld4 = position ld1" "ld_flags ld4 = ld_flags ld"
        using w(3) fr by (simp_all add: walk_result_def)
      have "length (position ld4) < length (position ld)" using path_token_shorter [OF tok] ld4 by simp
      moreover have b: "butlast (components (position ld)) = n # butlast (components (position ld4))"
          "last (components (position ld)) = last (components (position ld4))"
        using cs ld4(3) False by simp_all
      moreover have "lookup_path_loop vl root ctty ld t = lookup_path_loop vl root ctty ld4 u"
        "resolve_dirs tree root ctty s p (n # ns) = resolve_dirs tree root ctty s v ns" for ns
        using loop ld4(1) Inr by simp_all
      moreover have "components (position ld4) \<noteq> []" "\<not> two_slashes (position ld4)"
        using False la(2) ld4(3) by simp_all
      ultimately show ?thesis using less.hyps [OF _ w(2) ld4(2)] unfolding ld4(4) by presburger
    qed
  qed
qed

lemma strip_trailing_id: "strip_trailing (length p) p = p"
  by (cases "length p") auto

lemma lookup_spec:
  assumes vl: "serves vl tree s"
    and start: "(if p \<noteq> [] \<and> hd p = slash then root else current_dir (fprocs s current)) = Some start"
    and dir: "S_ISDIR (v_mode (vnodes s start))"
    and p: "components p \<noteq> []" "\<not> two_slashes p"
    and fl: "flags AND LOOKUP_PARENT = 0" "flags AND LOOKUP_REMOVE = 0" "flags AND LOOKUP_KERNEL = 0"
  shows "\<exists>rc ld' s'. lookup vl root ctty True (Some p) flags current s = Some (rc, ld', s')
     \<and> (case resolve tree root ctty s (flags AND LOOKUP_NOFOLLOW = 0) start (components p) of
          Inl e \<Rightarrow> rc = Inl e
        | Inr v \<Rightarrow> rc = Inr 0 \<and> ld_vnode ld' = Some v)"
proof -
  let ?fo = "flags AND LOOKUP_NOFOLLOW = 0"
  obtain ld where ini: "init_lookup True (Some p) flags root current s = Some (Inr 0, ld, vnode_ref start s)"
    and ld: "ld_path ld = Some p" "start_vnode ld = Some start" "position ld = p" "ld_flags ld = flags"
    using start dir fl(3) by (simp add: init_lookup_def strip_trailing_id vnode_ref_def)
  have nr: "p \<noteq> [slash]" using p(1) by (auto simp: components_def)
  let ?ld = "ld\<lparr>ld_parent := None, ld_vnode := Some start\<rparr>"
  have st: "same_tree s (vnode_ref start (vnode_ref start s))"
    by (intro same_tree_ref same_tree_refl)
  have pos: "position ?ld = p" "ld_flags ?ld = flags" "ld_vnode ?ld = Some start" using ld by simp_all
  obtain rc1 ld1 u where loop: "lookup_path_loop vl root ctty ?ld (vnode_ref start (vnode_ref start s)) = Some (rc1, ld1, u)"
      "same_tree s u" and r: "case resolve_dirs tree root ctty s start (butlast (components p)) of
         Inl e \<Rightarrow> rc1 = Inl e
       | Inr v \<Rightarrow> rc1 = Inr 0 \<and> ld_vnode ld1 = Some v \<and> last_component ld1 = Some (last (components p))
           \<and> is_last_component ld1 \<and> ld_flags ld1 = flags"
    using lookup_path_loop_spec [OF vl st, of ?ld start root ctty] p unfolding pos by blast
  have lk: "lookup vl root ctty True (Some p) flags current s =
      (if rc1 \<noteq> Inr 0 then Some (rc1, ld1, u)
       else do { (rc2, ld2, s3) \<leftarrow> lookup_last_component vl root ctty (ld1\<lparr>ld_parent := ld_vnode ld1, ld_vnode := None\<rparr>) u;
                 q \<leftarrow> ld_parent ld2;
                 Some (rc2, ld2\<lparr>ld_parent := None\<rparr>, s3) })"
    using ini ld nr fl loop(1) by (simp add: lookup_def lookup_path_def)
  show ?thesis
  proof (cases "resolve_dirs tree root ctty s start (butlast (components p))")
    case (Inl e)
    then show ?thesis using lk r by (simp add: resolve_def)
  next
    case (Inr v)
    with r have ld1: "rc1 = Inr 0" "ld_vnode ld1 = Some v" "last_component ld1 = Some (last (components p))"
        "is_last_component ld1" "ld_flags ld1 = flags" by simp_all
    let ?ld2 = "ld1\<lparr>ld_parent := Some v, ld_vnode := None\<rparr>"
    obtain rc ld' u' where w: "walk_component vl root ctty ?ld2 u = Some (rc, ld', u')"
        "walk_result (walk_spec tree root ctty s ?fo v (last (components p))) rc ?ld2 ld'"
      by (rule walk_component_spec [OF vl loop(2), of ?ld2 v "last (components p)" ?fo root ctty])
        (use ld1 in \<open>auto simp: is_last_component_def\<close>)
    then obtain q where "ld_parent ld' = Some q" by (auto simp: walk_result_def)
    then have "lookup vl root ctty True (Some p) flags current s = Some (rc, ld'\<lparr>ld_parent := None\<rparr>, u')"
      using lk ld1 w(1) by (simp add: lookup_last_component_def)
    then show ?thesis
      using w(2) Inr by (auto simp: resolve_def walk_result_def split: sum.splits)
  qed
qed

lemma token_two_slashes:
  assumes t: "path_token ld = (Some n, ld')" and two: "two_slashes (position ld)"
  shows "position ld' \<noteq> [] \<and> (two_slashes (position ld') \<or> components (position ld') = [])"
proof -
  let ?ch = "dropWhile (\<lambda>c. c = slash) (position ld)"
  note e = path_token_Some [OF t]
  let ?r = "dropWhile (\<lambda>c. c \<noteq> slash) ?ch"
  have r: "?r = [] \<and> position ld' = [] \<or> ?r = slash # position ld'"
    using dropWhile_cases [of "\<lambda>c. c \<noteq> slash" ?ch] unfolding e(3)
    by (elim disjE exE conjE) (simp_all only: list.sel not_not simp_thms)
  have "n \<noteq> []" using components_token [OF t] dropWhile_cases [of "\<lambda>c. c = slash" "position ld"] e(1)
    unfolding e(2) by (elim disjE exE conjE) auto
  moreover have "slash \<notin> set n" unfolding e(2) by (auto dest: set_takeWhileD)
  ultimately obtain w c where n: "n = w @ [c]" "c \<noteq> slash" by (metis append_butlast_last_id last_in_set)
  have "position ld = takeWhile (\<lambda>c. c = slash) (position ld) @ n @ ?r"
    unfolding e(2) by simp
  then obtain xs where "position ld = xs @ c # ?r" using n by (metis append.assoc append_Cons append_Nil)
  then have "prefix [slash, slash] (rev ?r @ c # rev xs)"
    using two unfolding two_slashes_def suffix_to_prefix by (metis rev.simps(2) rev_append append.assoc append_Cons append_Nil rev_singleton_conv)
  with r n(2) have pre: "prefix [slash, slash] (rev (position ld') @ slash # c # rev xs)"
    by (elim disjE conjE) (simp_all del: dropWhile_eq_Nil_conv)
  show ?thesis
  proof (cases "rev (position ld')" rule: remdups_adj.cases)
    case 1
    with pre n(2) show ?thesis by simp
  next
    case (2 x)
    with pre have "position ld' = [slash]" by simp
    then show ?thesis by (simp add: components_def)
  next
    case (3 x y ys)
    with pre have "x = slash" "y = slash" by simp_all
    with 3 have "prefix [slash, slash] (rev (position ld'))" by simp
    then show ?thesis using 3 by (simp add: two_slashes_def suffix_to_prefix)
  qed
qed

lemma loop_two_slashes:
  "two_slashes (position ld) \<or> (position ld \<noteq> [] \<and> components (position ld) = []) \<Longrightarrow>
     lookup_path_loop vl root ctty ld t = Some (rc, ld', u) \<Longrightarrow> rc \<noteq> Inr 0"
proof (induction "length (position ld)" arbitrary: ld t rule: less_induct)
  case less
  obtain n ld1 where tok: "path_token ld = (n, ld1)" by fastforce
  show ?case
  proof (cases n)
    case None
    then show ?thesis using less.prems(2) tok by (subst (asm) lookup_path_loop.simps) auto
  next
    case (Some name)
    with tok have tok: "path_token ld = (Some name, ld1)" by simp
    then have "two_slashes (position ld)" using less.prems(1) components_token [OF tok] by auto
    note two = token_two_slashes [OF tok this]
    let ?ld2 = "ld1\<lparr>last_component := Some name, ld_parent := None\<rparr>"
    have nl: "\<not> is_last_component ?ld2"
      using two path_token_Some(4) [OF tok] by (simp add: is_last_component_def)
    from less.prems(2) tok nl obtain rc1 ld3 s2 where
      w: "walk_component vl root ctty (?ld2\<lparr>ld_parent := ld_vnode ?ld2, ld_vnode := None\<rparr>) t = Some (rc1, ld3, s2)"
      by (subst (asm) lookup_path_loop.simps) (auto split: option.split_asm)
    with less.prems(2) tok nl have "rc = rc1 \<and> rc1 \<noteq> Inr 0 \<or> lookup_path_loop vl root ctty ld3 s2 = Some (rc, ld', u)"
      by (subst (asm) lookup_path_loop.simps) (auto split: option.split_asm if_split_asm)
    moreover have "position ld3 = position ld1" using walk_component_position [OF w] by simp
    ultimately show ?thesis using less.hyps [of ld3 s2] two path_token_shorter [OF tok] by auto
  qed
qed


definition etc_tree :: "nat \<Rightarrow> string \<Rightarrow> nat result" where
  "etc_tree d n = (if d = 0 \<and> n = ''etc'' then Inr 5 else if d = 5 \<and> n = ''rc'' then Inr 6 else Inl ENOENT)"

definition etc_vl :: vfs_lookup_fn where
  "etc_vl d n s = Some (case etc_tree d n of Inl e \<Rightarrow> (Inl e, None, s) | Inr v \<Rightarrow> (Inr 0, Some v, s))"


text \<open>
  A path that ends in two separators is never found, although the comment of \<open>init_lookup\<close>
  says that trailing separators are removed: the loop that is to remove them starts at the
  terminator and ends at once, and \<open>lookup_path\<close> then looks for a component after the last one.
\<close>

theorem lookup_two_trailing_slashes_fails:
  assumes "two_slashes p" and "flags AND LOOKUP_KERNEL = 0"
    and "lookup vl root ctty page_ok (Some p) flags current s = Some (rc, ld', s')"
  shows "rc \<noteq> Inr 0"
proof -
  obtain rc0 ld s1 where ini: "init_lookup page_ok (Some p) flags root current s = Some (rc0, ld, s1)"
    using assms(3) by (auto simp: lookup_def split: bind_splits)
  have ld: "rc0 = Inr 0 \<Longrightarrow> ld_path ld = Some p \<and> position ld = p"
    using ini assms(2) by (auto simp: init_lookup_def strip_trailing_id Let_def split: if_splits bind_splits)
  have nr: "p \<noteq> [slash]" using assms(1) by (auto simp: two_slashes_def suffix_to_prefix)
  have "rc1 \<noteq> Inr 0" if "rc0 = Inr 0" "lookup_path vl root ctty ld s1 = Some (rc1, ld1, s2)" for rc1 ld1 s2
    using that ld assms(1) loop_two_slashes [of "ld\<lparr>ld_parent := None, ld_vnode := v\<rparr>" vl root ctty _ rc1 ld1 s2 for v]
    by (auto simp: lookup_path_def split: bind_splits)
  then show ?thesis
    using assms(3) ini ld nr by (auto simp: lookup_def split: if_splits bind_splits)
qed

theorem lookup_two_trailing_slashes_fails_witness:
  "\<exists>rc ld' s'. lookup etc_vl (Some 0) None True (Some ''/etc//'') 0 0 one_dir = Some (rc, ld', s') \<and> rc \<noteq> Inr 0"
proof -
  have "lookup etc_vl (Some 0) None True (Some ''/etc//'') 0 0 one_dir \<noteq> None"
    using strip_trailing_id [of "''/etc//''"]
    by (simp add: lookup_def init_lookup_def lookup_path_def lookup_path_loop.simps path_token_def Let_def
        slash_def NUL_def is_last_component_def walk_component_def etc_vl_def etc_tree_def follow_mount_def
        one_dir_def vnode_ref_def S_ISDIR_def S_IFMT_def S_IFDIR_def LOOKUP_KERNEL_def)
  then obtain rc ld' s' where l: "lookup etc_vl (Some 0) None True (Some ''/etc//'') 0 0 one_dir = Some (rc, ld', s')"
    by auto
  have "two_slashes ''/etc//''" by (simp add: two_slashes_def suffix_to_prefix slash_def)
  from lookup_two_trailing_slashes_fails [OF this _ l] l show ?thesis by auto
qed

end
