(* ===== verification/Access.thy ===== *)
theory Access
  imports Lookup
begin

text \<open>
  Access rights (\<open>fs/access.c\<close>). The calls on a path look it up with \<open>vl\<close> for \<open>vfs_lookup\<close>; the
  calls that change attributes ask the server through \<open>ksend\<close>. The read-write locks around them
  have empty bodies in \<open>proc/rwlock.c\<close> and are left out.
\<close>

unbundle bit_operations_syntax

definition R_OK :: u32 where "R_OK = 4"
definition W_OK :: u32 where "W_OK = 2"
definition X_OK :: u32 where "X_OK = 1"
definition SBF_READONLY :: u32 where "SBF_READONLY = 2"

definition match_supplementary_group :: "cred \<Rightarrow> int \<Rightarrow> bool" where
  "match_supplementary_group p g \<longleftrightarrow> g \<in> set (take (nat (ngroups p)) (groups p))"

definition perm_bits :: "u32 \<Rightarrow> nat \<Rightarrow> u32" where
  "perm_bits mode sh = drop_bit sh mode AND (R_OK OR W_OK OR X_OK)"

definition check_access :: "nat \<Rightarrow> nat option \<Rightarrow> u32 \<Rightarrow> nat \<Rightarrow> fs \<Rightarrow> unit result" where
  "check_access v filp desired_access current s =
     (let p = creds s current; n = vnodes s v
      in if euid p = SUPERUSER then Inr ()
         else
           (let desired = desired_access AND (R_OK OR W_OK OR X_OK)
            in if desired AND W_OK \<noteq> 0 \<and> sb_flags (superblocks s (v_superblock n)) AND SBF_READONLY \<noteq> 0
               then Inl EPERM
               else if (case filp of
                          None \<Rightarrow> False
                        | Some f \<Rightarrow>
                            (let access_mode = f_flags (filps s f) AND O_ACCMODE
                             in access_mode = O_RDONLY \<and> desired AND W_OK \<noteq> 0
                                \<or> access_mode = O_WRONLY \<and> desired AND R_OK \<noteq> 0))
               then Inl EPERM
               else if euid p = v_uid n \<and> perm_bits (v_mode n) 6 AND desired = perm_bits (v_mode n) 6 then Inr ()
               else if egid p = v_gid n \<and> perm_bits (v_mode n) 3 AND desired = perm_bits (v_mode n) 3 then Inr ()
               else if match_supplementary_group p (v_gid n)
                       \<and> perm_bits (v_mode n) 3 AND desired = perm_bits (v_mode n) 3 then Inr ()
               else if perm_bits (v_mode n) 0 OR desired = perm_bits (v_mode n) 0 then Inr ()
               else Inl EACCES))"

definition sys_access ::
    "vfs_lookup_fn \<Rightarrow> nat option \<Rightarrow> nat option \<Rightarrow> bool \<Rightarrow> string option \<Rightarrow> u32 \<Rightarrow> nat \<Rightarrow> fs \<Rightarrow> (nat result \<times> fs) option" where
  "sys_access vl root ctty page_ok path amode current s = do {
     (rc, ld, s1) \<leftarrow> lookup vl root ctty page_ok path 0 current s;
     if rc \<noteq> Inr 0 then Some (rc, s1)
     else do {
       v \<leftarrow> ld_vnode ld;
       Some (map_sum id (\<lambda>_. 0) (check_access v None amode current s1), snd (lookup_cleanup ld s1)) } }"

definition sys_umask :: "u32 \<Rightarrow> nat \<Rightarrow> fs \<Rightarrow> u32 \<times> fs" where
  "sys_umask mode current s =
     (fp_umask (fprocs s current), upd_fproc current (\<lambda>f. f\<lparr>fp_umask := mode\<rparr>) s)"

text \<open>What \<open>chmod\<close> and \<open>chown\<close> do once they have the vnode and the caller's right to change it.\<close>

definition set_mode :: "ksend \<Rightarrow> nat \<Rightarrow> u32 \<Rightarrow> fs \<Rightarrow> (nat result \<times> fs) option" where
  "set_mode ksend v mode s = do {
     (sc, s1) \<leftarrow> vfs_chmod ksend v mode s;
     Some (sc, if sc = Inr 0 then upd_vnode v (\<lambda>n. n\<lparr>v_mode := mode\<rparr>) s1 else s1) }"

definition set_owner :: "ksend \<Rightarrow> nat \<Rightarrow> int \<Rightarrow> int \<Rightarrow> fs \<Rightarrow> (nat result \<times> fs) option" where
  "set_owner ksend v u g s = do {
     (sc, s1) \<leftarrow> vfs_chown ksend v u g s;
     Some (sc, if sc = Inr 0 then upd_vnode v (\<lambda>n. n\<lparr>v_uid := u, v_gid := g\<rparr>) s1 else s1) }"

definition sys_chmod ::
    "ksend \<Rightarrow> vfs_lookup_fn \<Rightarrow> nat option \<Rightarrow> nat option \<Rightarrow> bool \<Rightarrow> string option \<Rightarrow> u32 \<Rightarrow> nat \<Rightarrow> fs \<Rightarrow> (nat result \<times> fs) option" where
  "sys_chmod ksend vl root ctty page_ok path mode current s = do {
     (rc, ld, s1) \<leftarrow> lookup vl root ctty page_ok path 0 current s;
     if rc \<noteq> Inr 0 then Some (rc, s1)
     else do {
       v \<leftarrow> ld_vnode ld;
       (sc, s2) \<leftarrow> (if v_uid (vnodes s1 v) = uid (creds s1 current) \<or> uid (creds s1 current) = SUPERUSER
                   then set_mode ksend v mode s1 else Some (Inl EPERM, s1));
       Some (sc, snd (lookup_cleanup ld s2)) } }"

text \<open>The status is lost: a call that finds the file returns 0.\<close>

definition sys_chown ::
    "ksend \<Rightarrow> vfs_lookup_fn \<Rightarrow> nat option \<Rightarrow> nat option \<Rightarrow> bool \<Rightarrow> string option \<Rightarrow> int \<Rightarrow> int \<Rightarrow> nat \<Rightarrow> fs \<Rightarrow> (nat result \<times> fs) option" where
  "sys_chown ksend vl root ctty page_ok path u g current s = do {
     (rc, ld, s1) \<leftarrow> lookup vl root ctty page_ok path 0 current s;
     if rc \<noteq> Inr 0 then Some (rc, s1)
     else do {
       v \<leftarrow> ld_vnode ld;
       (sc, s2) \<leftarrow> (if v_uid (vnodes s1 v) = euid (creds s1 current) \<or> euid (creds s1 current) = SUPERUSER
                   then set_owner ksend v u g s1 else Some (Inl EPERM, s1));
       Some (Inr 0, snd (lookup_cleanup ld s2)) } }"

text \<open>Without the right to change the file the call returns the positive number of \<open>EPERM\<close>.\<close>

definition sys_fchmod :: "ksend \<Rightarrow> int \<Rightarrow> u32 \<Rightarrow> nat \<Rightarrow> fs \<Rightarrow> (nat result \<times> fs) option" where
  "sys_fchmod ksend fd mode current s = do {
     f \<leftarrow> filp_get current fd s;
     (case f of
        None \<Rightarrow> Some (Inl EBADF, s)
      | Some i \<Rightarrow>
          (case vnode_get_from_filp (Some i) s of
             None \<Rightarrow> Some (Inl EINVAL, s)
           | Some v \<Rightarrow>
               if v_uid (vnodes s v) = euid (creds s current) \<or> euid (creds s current) = SUPERUSER
               then set_mode ksend v mode s else Some (Inr 1, s))) }"

definition sys_fchown :: "ksend \<Rightarrow> int \<Rightarrow> int \<Rightarrow> int \<Rightarrow> nat \<Rightarrow> fs \<Rightarrow> (nat result \<times> fs) option" where
  "sys_fchown ksend fd u g current s = do {
     f \<leftarrow> filp_get current fd s;
     (case f of
        None \<Rightarrow> Some (Inl EBADF, s)
      | Some i \<Rightarrow>
          (case vnode_get_from_filp (Some i) s of
             None \<Rightarrow> Some (Inl EINVAL, s)
           | Some v \<Rightarrow>
               if v_uid (vnodes s v) = euid (creds s current) \<or> euid (creds s current) = SUPERUSER
               then set_owner ksend v u g s else Some (Inl EPERM, s))) }"

section \<open>Who may do what\<close>

lemma mask3: "R_OK OR W_OK OR X_OK = mask 3"
  by (simp add: R_OK_def W_OK_def X_OK_def mask_eq_exp_minus_1)

lemma bit_perm: "bit (perm_bits m sh) i \<longleftrightarrow> i < 3 \<and> bit m (sh + i)"
  unfolding perm_bits_def mask3 by (auto simp: bit_simps)

lemma bit_want: "bit (d AND (R_OK OR W_OK OR X_OK)) i \<longleftrightarrow> i < 3 \<and> bit d i"
  unfolding mask3 by (auto simp: bit_simps)

lemma or_absorb: "x OR y = x \<longleftrightarrow> (\<forall>i. bit y i \<longrightarrow> bit x i)" for x y :: u32
proof
  assume e: "x OR y = x"
  show "\<forall>i. bit y i \<longrightarrow> bit x i" using bit_or_iff [of x y] unfolding e by blast
next
  assume "\<forall>i. bit y i \<longrightarrow> bit x i"
  then show "x OR y = x" by (intro bit_eqI) (auto simp: bit_or_iff)
qed

lemma and_absorb: "x AND y = x \<longleftrightarrow> (\<forall>i. bit x i \<longrightarrow> bit y i)" for x y :: u32
proof
  assume e: "x AND y = x"
  show "\<forall>i. bit x i \<longrightarrow> bit y i" using bit_and_iff [of x y] unfolding e by blast
next
  assume "\<forall>i. bit x i \<longrightarrow> bit y i"
  then show "x AND y = x" by (intro bit_eqI) (auto simp: bit_and_iff)
qed

lemma perm_or:
  "perm_bits m 0 OR (d AND (R_OK OR W_OK OR X_OK)) = perm_bits m 0 \<longleftrightarrow> (\<forall>i < 3. bit d i \<longrightarrow> bit m i)"
  unfolding or_absorb bit_perm bit_want by auto

lemma perm_and:
  "perm_bits m sh AND (d AND (R_OK OR W_OK OR X_OK)) = perm_bits m sh \<longleftrightarrow> (\<forall>i < 3. bit m (sh + i) \<longrightarrow> bit d i)"
  unfolding and_absorb bit_perm bit_want by blast

lemma want_ok: "(d AND (R_OK OR W_OK OR X_OK)) AND W_OK = d AND W_OK" "(d AND (R_OK OR W_OK OR X_OK)) AND R_OK = d AND R_OK"
  by (simp_all add: R_OK_def W_OK_def X_OK_def and.assoc)

text \<open>
  C19. The rights of others. A process that is not the superuser and neither owns the file nor
  belongs to its group is granted exactly the rights in the last three bits of the mode, and then
  only if it does not write to a read-only file system or against the mode of its descriptor.
\<close>

theorem check_access_others:
  assumes "euid (creds s c) \<noteq> SUPERUSER" "euid (creds s c) \<noteq> v_uid (vnodes s v)"
    and "egid (creds s c) \<noteq> v_gid (vnodes s v)" "\<not> match_supplementary_group (creds s c) (v_gid (vnodes s v))"
  shows "check_access v filp d c s = Inr () \<longleftrightarrow>
     \<not> (d AND W_OK \<noteq> 0 \<and> sb_flags (superblocks s (v_superblock (vnodes s v))) AND SBF_READONLY \<noteq> 0)
     \<and> (\<forall>f. filp = Some f \<longrightarrow>
          \<not> (f_flags (filps s f) AND O_ACCMODE = O_RDONLY \<and> d AND W_OK \<noteq> 0)
          \<and> \<not> (f_flags (filps s f) AND O_ACCMODE = O_WRONLY \<and> d AND R_OK \<noteq> 0))
     \<and> (\<forall>i < 3. bit d i \<longrightarrow> bit (v_mode (vnodes s v)) i)"
  using assms unfolding check_access_def Let_def perm_or want_ok by (auto split: option.splits)

theorem check_access_others_witness:
  "check_access 0 None W_OK 0 (one_dir\<lparr>creds := (\<lambda>_. plain_user)\<rparr>) \<noteq> Inr ()
     \<and> check_access 0 None R_OK 0 (one_dir\<lparr>creds := (\<lambda>_. plain_user)\<rparr>) = Inr ()"
proof -
  have m: "\<not> bit (0x41ED :: u32) 1" "bit (0x41ED :: u32) 2" by simp_all
  have r: "bit W_OK 1" "\<forall>i < 3. bit R_OK i \<longrightarrow> i = 2" by (auto simp: R_OK_def W_OK_def less_Suc_eq numeral_3_eq_3)
  have "bit R_OK i \<longrightarrow> bit (0x41ED :: u32) i" if "i < 3" for i using r(2) m(2) that by metis
  moreover have "\<not> (\<forall>i < 3. bit W_OK i \<longrightarrow> bit (0x41ED :: u32) i)" using r(1) m(1) by (intro notI) (auto dest!: spec [of _ 1])
  moreover note check_access_others [of "one_dir\<lparr>creds := (\<lambda>_. plain_user)\<rparr>" 0 0 None R_OK]
    check_access_others [of "one_dir\<lparr>creds := (\<lambda>_. plain_user)\<rparr>" 0 0 None W_OK]
  ultimately show ?thesis
    by (simp add: one_dir_def plain_user_def SUPERUSER_def match_supplementary_group_def)
qed

text \<open>
  C20. The owner's rights are tested the wrong way round. An owner who has no other right to the
  file is granted a request exactly if it asks for all the rights in the owner's bits (or for
  nothing): with all the bits clear every request is granted, and with all of them set a request
  to read is refused.
\<close>

theorem check_access_owner_inverted:
  assumes "euid (creds s c) \<noteq> SUPERUSER" "euid (creds s c) = v_uid (vnodes s v)"
    and "egid (creds s c) \<noteq> v_gid (vnodes s v)" "\<not> match_supplementary_group (creds s c) (v_gid (vnodes s v))"
    and "sb_flags (superblocks s (v_superblock (vnodes s v))) AND SBF_READONLY = 0"
    and "\<forall>i < 3. \<not> bit (v_mode (vnodes s v)) i"
  shows "check_access v None d c s = Inr () \<longleftrightarrow>
     (\<forall>i < 3. bit (v_mode (vnodes s v)) (6 + i) \<longrightarrow> bit d i) \<or> (\<forall>i < 3. \<not> bit d i)"
  using assms unfolding check_access_def Let_def perm_or perm_and want_ok by auto

theorem check_access_owner_inverted_witness:
  "check_access 0 None W_OK 0 (one_dir\<lparr>creds := (\<lambda>_. plain_user\<lparr>euid := 7\<rparr>),
       vnodes := (\<lambda>v. (vnodes one_dir v)\<lparr>v_uid := 7, v_mode := 0x8000\<rparr>)\<rparr>) = Inr ()"
proof -
  let ?s = "one_dir\<lparr>creds := (\<lambda>_. plain_user\<lparr>euid := 7\<rparr>), vnodes := (\<lambda>v. (vnodes one_dir v)\<lparr>v_uid := 7, v_mode := 0x8000\<rparr>)\<rparr>"
  have bits: "\<not> bit (0x8000 :: u32) i" if "i < 9" for i
    using that by (auto simp: less_Suc_eq numeral_eq_Suc)
  then show ?thesis
    using check_access_owner_inverted [of ?s 0 0 W_OK]
    by (simp add: one_dir_def plain_user_def SUPERUSER_def match_supplementary_group_def)
qed

end
