(* ===== verification/Dnlc.thy ===== *)
theory Dnlc
  imports Vnode
begin

text \<open>
  The directory name lookup cache (\<open>fs/dnlc.c\<close>): a table of entries on hash chains and on a list in
  the order in which entries are reused. \<open>nocache\<close> is the flag \<open>MNT_NODNLC\<close> of the directory's file
  system. Names are shorter than \<open>DNAME_SZ\<close>; a longer name is not cached. The cache is shown to
  implement a partial map from a directory and a name to a vnode.
\<close>

section \<open>State and operations\<close>

definition NR_DNAME :: nat where "NR_DNAME = 64"
definition DNAME_SZ :: nat where "DNAME_SZ = 64"
definition DNAME_HASH :: nat where "DNAME_HASH = 32"

record dname =
  dir_vnode :: nat
  dn_vnode :: "nat option"
  dn_name :: string
  hash_key :: int

record dnlc =
  dname_table :: "nat \<Rightarrow> dname"
  dname_hash :: "nat \<Rightarrow> nat list"
  dname_lru_list :: "nat list"

definition init_dnlc :: dnlc where
  "init_dnlc = \<lparr>dname_table = (\<lambda>_. \<lparr>dir_vnode = 0, dn_vnode = None, dn_name = [], hash_key = -1\<rparr>),
     dname_hash = (\<lambda>_. []), dname_lru_list = [0..<NR_DNAME]\<rparr>"

definition dname_key :: "string \<Rightarrow> nat" where
  "dname_key name = sum_list (map of_char name) mod DNAME_HASH"

definition dname_find :: "nat \<Rightarrow> string \<Rightarrow> dnlc \<Rightarrow> nat option" where
  "dname_find dir name d =
     find (\<lambda>t. dir_vnode (dname_table d t) = dir \<and> dn_name (dname_table d t) = name) (dname_hash d (dname_key name))"

text \<open>The result is the vnode, \<open>None\<close> when the call returns -1; a cached null vnode is dereferenced.\<close>

definition dname_lookup :: "bool \<Rightarrow> nat \<Rightarrow> string \<Rightarrow> dnlc \<Rightarrow> fs \<Rightarrow> (nat option \<times> fs) option" where
  "dname_lookup nocache dir name d s =
     (if nocache \<or> length name + 1 > DNAME_SZ then Some (None, s)
      else case dname_find dir name d of
             None \<Rightarrow> Some (None, s)
           | Some t \<Rightarrow> do { v \<leftarrow> dn_vnode (dname_table d t); Some (Some v, vnode_ref v s) })"

definition upd_dname :: "nat \<Rightarrow> (dname \<Rightarrow> dname) \<Rightarrow> dnlc \<Rightarrow> dnlc" where
  "upd_dname t f d = d\<lparr>dname_table := (dname_table d)(t := f (dname_table d t))\<rparr>"

definition chain_remove :: "nat \<Rightarrow> nat \<Rightarrow> dnlc \<Rightarrow> dnlc" where
  "chain_remove h t d = d\<lparr>dname_hash := (dname_hash d)(h := remove1 t (dname_hash d h))\<rparr>"

definition dname_enter :: "bool \<Rightarrow> nat \<Rightarrow> nat option \<Rightarrow> string \<Rightarrow> dnlc \<Rightarrow> (bool \<times> dnlc) option" where
  "dname_enter nocache dir vn name d =
     (if nocache \<or> length name + 1 > DNAME_SZ then Some (False, d)
      else
        (let key = dname_key name
         in case dname_find dir name d of
              Some t \<Rightarrow> Some (True, upd_dname t (\<lambda>e. e\<lparr>hash_key := int key, dir_vnode := dir, dn_vnode := vn\<rparr>) d)
            | None \<Rightarrow>
                (case dname_lru_list d of
                   [] \<Rightarrow> None
                 | t # ts \<Rightarrow>
                     (let d1 = d\<lparr>dname_lru_list := ts\<rparr>;
                          d2 = (if hash_key (dname_table d1 t) \<noteq> -1
                                then chain_remove (nat (hash_key (dname_table d1 t))) t d1 else d1);
                          d3 = upd_dname t (\<lambda>_. \<lparr>dir_vnode = dir, dn_vnode = vn, dn_name = name, hash_key = int key\<rparr>) d2
                      in Some (True, d3\<lparr>dname_lru_list := ts @ [t],
                                 dname_hash := (dname_hash d3)(key := t # dname_hash d3 key)\<rparr>)))))"

text \<open>Take an entry off its chain and put it first on the list of entries to reuse.\<close>

definition drop_dname :: "nat \<Rightarrow> nat \<Rightarrow> dnlc \<Rightarrow> dnlc" where
  "drop_dname h t d =
     (upd_dname t (\<lambda>e. e\<lparr>hash_key := -1\<rparr>) (chain_remove h t d))
       \<lparr>dname_lru_list := t # remove1 t (dname_lru_list d)\<rparr>"

text \<open>The directory is not compared.\<close>

definition dname_remove :: "bool \<Rightarrow> nat \<Rightarrow> string \<Rightarrow> dnlc \<Rightarrow> bool \<times> dnlc" where
  "dname_remove nocache dir name d =
     (if nocache \<or> length name + 1 > DNAME_SZ then (False, d)
      else
        (let key = dname_key name
         in case find (\<lambda>t. dn_name (dname_table d t) = name) (dname_hash d key) of
              None \<Rightarrow> (False, d)
            | Some t \<Rightarrow> (True, drop_dname key t d)))"

definition purge_if :: "(dname \<Rightarrow> bool) \<Rightarrow> nat \<Rightarrow> dnlc \<Rightarrow> dnlc" where
  "purge_if P t d =
     (if hash_key (dname_table d t) \<noteq> -1 \<and> P (dname_table d t)
      then drop_dname (nat (hash_key (dname_table d t))) t d else d)"

definition dname_purge_vnode :: "nat \<Rightarrow> dnlc \<Rightarrow> dnlc" where
  "dname_purge_vnode v d = fold (purge_if (\<lambda>e. dn_vnode e = Some v \<or> dir_vnode e = v)) [0..<NR_DNAME] d"

text \<open>The superblock of a cached null vnode is read through a null pointer.\<close>

fun purge_superblock_loop :: "fs \<Rightarrow> nat \<Rightarrow> nat list \<Rightarrow> dnlc \<Rightarrow> dnlc option" where
  "purge_superblock_loop s sb [] d = Some d"
| "purge_superblock_loop s sb (t # ts) d =
     (if hash_key (dname_table d t) = -1 then purge_superblock_loop s sb ts d
      else do {
        v \<leftarrow> dn_vnode (dname_table d t);
        purge_superblock_loop s sb ts
          (if v_superblock (vnodes s v) = sb then drop_dname (nat (hash_key (dname_table d t))) t d else d) })"

definition dname_purge_superblock :: "fs \<Rightarrow> nat \<Rightarrow> dnlc \<Rightarrow> dnlc option" where
  "dname_purge_superblock s sb d = purge_superblock_loop s sb [0..<NR_DNAME] d"

definition dname_purge_all :: "dnlc \<Rightarrow> dnlc" where
  "dname_purge_all d =
     d\<lparr>dname_table := (\<lambda>t. if t < NR_DNAME then (dname_table d t)\<lparr>hash_key := -1, dn_vnode := None\<rparr> else dname_table d t),
       dname_lru_list := []\<rparr>"

section \<open>Invariant\<close>

definition live :: "dnlc \<Rightarrow> nat \<Rightarrow> bool" where
  "live d t \<longleftrightarrow> hash_key (dname_table d t) \<noteq> -1"

definition dnlc_ok :: "dnlc \<Rightarrow> bool" where
  "dnlc_ok d \<longleftrightarrow>
     distinct (dname_lru_list d) \<and> set (dname_lru_list d) = {..<NR_DNAME}
     \<and> (\<forall>t. live d t \<longrightarrow> t < NR_DNAME \<and> hash_key (dname_table d t) = int (dname_key (dn_name (dname_table d t))))
     \<and> (\<forall>h t. t \<in> set (dname_hash d h) \<longleftrightarrow> hash_key (dname_table d t) = int h)
     \<and> (\<forall>h. distinct (dname_hash d h))
     \<and> (\<forall>t u. live d t \<and> live d u \<and> dir_vnode (dname_table d t) = dir_vnode (dname_table d u)
          \<and> dn_name (dname_table d t) = dn_name (dname_table d u) \<longrightarrow> t = u)"

lemma dname_find_Some:
  assumes "dnlc_ok d"
  shows "dname_find dir name d = Some t \<longleftrightarrow>
    live d t \<and> dir_vnode (dname_table d t) = dir \<and> dn_name (dname_table d t) = name"
proof -
  have sound: "live d t \<and> dir_vnode (dname_table d t) = dir \<and> dn_name (dname_table d t) = name"
    if "dname_find dir name d = Some t" for t
  proof -
    from that have "t \<in> set (dname_hash d (dname_key name))"
      "dir_vnode (dname_table d t) = dir \<and> dn_name (dname_table d t) = name"
      by (auto simp: dname_find_def find_Some_iff)
    then show ?thesis using assms by (auto simp: dnlc_ok_def live_def)
  qed
  show ?thesis
  proof
    assume l: "live d t \<and> dir_vnode (dname_table d t) = dir \<and> dn_name (dname_table d t) = name"
    then have "t \<in> set (dname_hash d (dname_key name))" using assms by (auto simp: dnlc_ok_def)
    with l have "dname_find dir name d \<noteq> None" by (auto simp: dname_find_def find_None_iff)
    then obtain u where u: "dname_find dir name d = Some u" by blast
    with sound [OF u] l assms show "dname_find dir name d = Some t" by (auto simp: dnlc_ok_def)
  qed (rule sound)
qed

section \<open>The cache as a map\<close>

definition dnlc_map :: "dnlc \<Rightarrow> nat \<times> string \<Rightarrow> nat option" where
  "dnlc_map d k = (case dname_find (fst k) (snd k) d of None \<Rightarrow> None | Some t \<Rightarrow> dn_vnode (dname_table d t))"

definition dn_key :: "dnlc \<Rightarrow> nat \<Rightarrow> nat \<times> string" where
  "dn_key d t = (dir_vnode (dname_table d t), dn_name (dname_table d t))"

lemma dname_find_key: "dnlc_ok d \<Longrightarrow> dname_find (fst k) (snd k) d = Some t \<longleftrightarrow> live d t \<and> dn_key d t = k"
  by (cases k) (simp add: dname_find_Some dn_key_def)

text \<open>What entering a new name does to the table: entry \<open>t\<close> is taken over.\<close>

lemma enter_new_ok:
  assumes ok: "dnlc_ok d" and lru: "dname_lru_list d = t # ts" and new: "dname_find dir name d = None"
    and d': "dname_table d' = (dname_table d)(t := \<lparr>dir_vnode = dir, dn_vnode = vn, dn_name = name,
        hash_key = int (dname_key name)\<rparr>)" "dname_lru_list d' = ts @ [t]"
    and hash: "\<And>h. dname_hash d' h = (if h = dname_key name then [t] else [])
        @ (if live d t \<and> int h = hash_key (dname_table d t) then remove1 t (dname_hash d h) else dname_hash d h)"
  shows "dnlc_ok d'"
proof -
  have live: "live d' u \<longleftrightarrow> u = t \<or> live d u" for u using d'(1) by (simp add: live_def)
  have t: "t < NR_DNAME" using ok lru by (auto simp: dnlc_ok_def)
  have mem: "u \<in> set (dname_hash d h) \<longleftrightarrow> hash_key (dname_table d u) = int h" and dist: "distinct (dname_hash d h)" for u h
    using ok by (simp_all add: dnlc_ok_def)
  have chain: "u \<in> set (dname_hash d' h) \<longleftrightarrow> (if u = t then h = dname_key name else u \<in> set (dname_hash d h))" for u h
    using dist [of h] mem [of t h] by (auto simp: hash live_def)
  have fresh: "live d u \<Longrightarrow> dn_key d u \<noteq> (dir, name)" for u
    using new dname_find_key [OF ok, of "(dir, name)" u] by auto
  have inj: "live d u \<Longrightarrow> live d w \<Longrightarrow> dn_key d u = dn_key d w \<Longrightarrow> u = w" for u w
    using ok by (auto simp: dnlc_ok_def dn_key_def)
  have key: "dn_key d' u = (if u = t then (dir, name) else dn_key d u)" for u
    using d'(1) by (simp add: dn_key_def)
  show ?thesis
    unfolding dnlc_ok_def
  proof (intro conjI allI impI)
    show "distinct (dname_lru_list d')" "set (dname_lru_list d') = {..<NR_DNAME}"
      using ok lru d'(2) by (auto simp: dnlc_ok_def)
    show "u < NR_DNAME" "hash_key (dname_table d' u) = int (dname_key (dn_name (dname_table d' u)))" if "live d' u" for u
      using that ok t d'(1) by (auto simp: live dnlc_ok_def)
    show "u \<in> set (dname_hash d' h) \<longleftrightarrow> hash_key (dname_table d' u) = int h" for h u
      using chain [of u h] mem [of u h] d'(1) by auto
    show "distinct (dname_hash d' h)" for h
      using dist [of h] mem [of t h] by (auto simp: hash live_def)
    show "u = w" if "live d' u \<and> live d' w \<and> dir_vnode (dname_table d' u) = dir_vnode (dname_table d' w)
        \<and> dn_name (dname_table d' u) = dn_name (dname_table d' w)" for u w
    proof -
      from that have "dn_key d' u = dn_key d' w" by (simp add: dn_key_def)
      then show ?thesis
        using that fresh [of u] fresh [of w] inj [of u w] unfolding live key
        by (cases "u = t"; cases "w = t") auto
    qed
  qed
qed

lemma option_ext: "(\<And>t. x = Some t \<longleftrightarrow> y = Some t) \<Longrightarrow> x = y"
  by (cases x; cases y) auto

lemma enter_new_map:
  assumes ok: "dnlc_ok d" "dnlc_ok d'"
    and d': "dname_table d' = (dname_table d)(t := \<lparr>dir_vnode = dir, dn_vnode = vn, dn_name = name,
        hash_key = int (dname_key name)\<rparr>)"
  shows "dnlc_map d' k = (if k = (dir, name) then vn else if live d t \<and> dn_key d t = k then None else dnlc_map d k)"
proof (cases "k = (dir, name)")
  case True
  then have "dname_find (fst k) (snd k) d' = Some t"
    using dname_find_key [OF ok(2), of k t] d' by (simp add: live_def dn_key_def)
  then show ?thesis using True d' by (simp add: dnlc_map_def)
next
  case False
  have live: "live d' u \<longleftrightarrow> u = t \<or> live d u" and key: "dn_key d' u = (if u = t then (dir, name) else dn_key d u)" for u
    using d' by (simp_all add: live_def dn_key_def)
  show ?thesis
  proof (cases "live d t \<and> dn_key d t = k")
    case True
    have "dname_find (fst k) (snd k) d' \<noteq> Some u" for u
      using dname_find_key [OF ok(2), of k u] dname_find_key [OF ok(1), of k] True False live key
      by (metis option.inject)
    then have "dname_find (fst k) (snd k) d' = None" by (metis not_Some_eq)
    with True False show ?thesis by (simp add: dnlc_map_def)
  next
    case nt: False
    have f: "dname_find (fst k) (snd k) d' = dname_find (fst k) (snd k) d"
      by (rule option_ext) (use dname_find_key [OF ok(2), of k] dname_find_key [OF ok(1), of k] nt False live key in metis)
    moreover have "dname_find (fst k) (snd k) d \<noteq> Some t" using dname_find_key [OF ok(1), of k t] nt by blast
    ultimately show ?thesis using False nt d' by (auto simp: dnlc_map_def split: option.split)
  qed
qed

lemma update_ok:
  assumes "dnlc_ok d" and "dname_find dir name d = Some t"
  shows "dnlc_ok (upd_dname t (\<lambda>e. e\<lparr>hash_key := int (dname_key name), dir_vnode := dir, dn_vnode := vn\<rparr>) d)"
    (is "dnlc_ok ?d")
proof -
  have t: "live d t" "dir_vnode (dname_table d t) = dir" "dn_name (dname_table d t) = name"
    using dname_find_Some [OF assms(1)] assms(2) by simp_all
  then have "hash_key (dname_table d t) = int (dname_key name)" using assms(1) by (auto simp: dnlc_ok_def)
  with t have "hash_key (dname_table ?d u) = hash_key (dname_table d u)" "dn_name (dname_table ?d u) = dn_name (dname_table d u)"
      "dir_vnode (dname_table ?d u) = dir_vnode (dname_table d u)" "live ?d u = live d u" for u
    by (simp_all add: upd_dname_def live_def)
  moreover have "dname_hash ?d = dname_hash d" "dname_lru_list ?d = dname_lru_list d"
    by (simp_all add: upd_dname_def)
  ultimately show ?thesis using assms(1) unfolding dnlc_ok_def by simp
qed

lemma update_map:
  assumes "dnlc_ok d" and "dname_find dir name d = Some t"
  shows "dnlc_map (upd_dname t (\<lambda>e. e\<lparr>hash_key := int (dname_key name), dir_vnode := dir, dn_vnode := vn\<rparr>) d) k
    = (if k = (dir, name) then vn else dnlc_map d k)" (is "dnlc_map ?d k = _")
proof -
  have t: "live d t" "dn_key d t = (dir, name)"
    using dname_find_key [OF assms(1), of "(dir, name)" t] assms(2) by simp_all
  then have h: "hash_key (dname_table d t) = int (dname_key name)" using assms(1) by (auto simp: dnlc_ok_def dn_key_def)
  have "dn_key ?d u = dn_key d u" "live ?d u = live d u" for u
    using t h by (auto simp: upd_dname_def live_def dn_key_def)
  then have f: "dname_find (fst k) (snd k) ?d = dname_find (fst k) (snd k) d"
    by (intro option_ext) (simp add: dname_find_key [OF assms(1)] dname_find_key [OF update_ok [OF assms]])
  have "dname_find (fst k) (snd k) d = Some t \<longleftrightarrow> k = (dir, name)"
    using dname_find_key [OF assms(1), of k t] t by auto
  then show ?thesis using f by (auto simp: dnlc_map_def upd_dname_def split: option.split)
qed

lemma enter_ok:
  assumes ok: "dnlc_ok d" and n: "length name + 1 \<le> DNAME_SZ"
  shows "\<exists>d' victim. dname_enter False dir vn name d = Some (True, d') \<and> dnlc_ok d'
    \<and> (\<forall>k. dnlc_map d' k = (if k = (dir, name) then vn else if Some k = victim then None else dnlc_map d k))"
proof (cases "dname_find dir name d")
  case (Some t)
  then show ?thesis
    using n update_ok [OF ok Some, of vn] update_map [OF ok Some, of vn]
    by (auto simp: dname_enter_def intro: exI [of _ None])
next
  case None
  have "0 \<in> set (dname_lru_list d)" using ok by (simp add: dnlc_ok_def NR_DNAME_def)
  then obtain t ts where lru: "dname_lru_list d = t # ts" by (cases "dname_lru_list d") auto
  obtain d' where d': "dname_enter False dir vn name d = Some (True, d')"
      "dname_table d' = (dname_table d)(t := \<lparr>dir_vnode = dir, dn_vnode = vn, dn_name = name, hash_key = int (dname_key name)\<rparr>)"
      "dname_lru_list d' = ts @ [t]"
      "\<And>h. dname_hash d' h = (if h = dname_key name then [t] else [])
        @ (if live d t \<and> int h = hash_key (dname_table d t) then remove1 t (dname_hash d h) else dname_hash d h)"
  proof
    have pos: "live d t \<Longrightarrow> int (nat (hash_key (dname_table d t))) = hash_key (dname_table d t)"
      using ok by (simp add: dnlc_ok_def)
    show "dname_enter False dir vn name d = Some (True, snd (the (dname_enter False dir vn name d)))"
      using n None lru by (simp add: dname_enter_def Let_def)
    show "dname_table (snd (the (dname_enter False dir vn name d))) = (dname_table d)(t := \<lparr>dir_vnode = dir, dn_vnode = vn,
        dn_name = name, hash_key = int (dname_key name)\<rparr>)"
      "dname_lru_list (snd (the (dname_enter False dir vn name d))) = ts @ [t]"
      using n None lru by (simp_all add: dname_enter_def Let_def upd_dname_def chain_remove_def)
    show "dname_hash (snd (the (dname_enter False dir vn name d))) h = (if h = dname_key name then [t] else [])
        @ (if live d t \<and> int h = hash_key (dname_table d t) then remove1 t (dname_hash d h) else dname_hash d h)" for h
      using n None lru pos by (auto simp: dname_enter_def Let_def upd_dname_def chain_remove_def live_def)
  qed
  have ok': "dnlc_ok d'" by (rule enter_new_ok [OF ok lru None d'(2,3,4)])
  show ?thesis
    using d'(1) ok' enter_new_map [OF ok ok' d'(2)]
    by (intro exI [of _ d'] exI [of _ "if live d t then Some (dn_key d t) else None"]) auto
qed


lemma init_dnlc_ok: "dnlc_ok init_dnlc"
  by (auto simp: dnlc_ok_def init_dnlc_def live_def atLeast0LessThan)


text \<open>
  C22. Purging the cache makes it unusable. \<open>dname_purge_all\<close> empties the list of entries to reuse
  and leaves the hash chains: afterwards the first name that is not found on its stale chain is
  entered through a null pointer, and a name that is found has a null vnode, which \<open>dname_lookup\<close>
  dereferences.
\<close>

theorem dname_purge_all_breaks:
  assumes "dnlc_ok d" and "length name + 1 \<le> DNAME_SZ"
  shows "(dname_find dir name d = None \<longrightarrow> dname_enter False dir vn name (dname_purge_all d) = None)
     \<and> (dname_find dir name d \<noteq> None \<longrightarrow> dname_lookup False dir name (dname_purge_all d) s = None)"
proof -
  have f: "dname_find dir name (dname_purge_all d) = dname_find dir name d"
    by (auto simp: dname_find_def dname_purge_all_def intro: arg_cong [where f = "\<lambda>P. find P _"])
  have "dn_vnode (dname_table (dname_purge_all d) t) = None" if "dname_find dir name d = Some t" for t
    using dname_find_Some [OF assms(1)] that assms(1) by (auto simp: dname_purge_all_def dnlc_ok_def)
  then show ?thesis
    using assms(2) f by (auto simp: dname_enter_def dname_lookup_def dname_purge_all_def)
qed

theorem dname_purge_all_breaks_witness: "dname_enter False 3 (Some 9) ''etc'' (dname_purge_all init_dnlc) = None"
  using dname_purge_all_breaks [OF init_dnlc_ok, of "''etc''" 3 "Some 9"]
  by (simp add: dname_find_def init_dnlc_def DNAME_SZ_def)

end
