(* ===== verification/Pid.thy ===== *)
theory Pid
  imports Prelude
begin

text \<open>
  Process and thread identifiers, sessions and process groups (\<open>proc/pid.c\<close>). A pid is one more than
  the index of its descriptor in \<open>pid_table\<close>. Processes, sessions and groups are numbered by their
  tables; the session a terminal controls is kept per vnode.
\<close>

section \<open>State\<close>

definition INVALID_PID :: int where "INVALID_PID = -1"

record piddesc =
  pd_proc :: "nat option"
  pd_thread :: "nat option"
  pd_session :: "nat option"
  pd_pgrp :: "nat option"

record session =
  s_sid :: int
  controlling_tty :: "nat option"
  foreground_pgrp :: int
  s_process_list :: "nat list"

record pgrp =
  g_sid :: int
  g_process_list :: "nat list"

record pid_proc =
  pid :: int
  sid :: int
  pgid :: int
  parent :: "nat option"

record pids =
  max_pid :: nat
  pid_table :: "nat \<Rightarrow> piddesc"
  free_piddesc_list :: "nat list"
  sessions :: "nat \<Rightarrow> session"
  free_session_list :: "nat list"
  pgrps :: "nat \<Rightarrow> pgrp"
  free_pgrp_list :: "nat list"
  procs :: "nat \<Rightarrow> pid_proc"
  tty_sids :: "nat \<Rightarrow> int"

definition no_piddesc :: piddesc where
  "no_piddesc = \<lparr>pd_proc = None, pd_thread = None, pd_session = None, pd_pgrp = None\<rparr>"

definition upd_pd :: "nat \<Rightarrow> (piddesc \<Rightarrow> piddesc) \<Rightarrow> pids \<Rightarrow> pids" where
  "upd_pd i f s = s\<lparr>pid_table := (pid_table s)(i := f (pid_table s i))\<rparr>"

definition upd_proc :: "nat \<Rightarrow> (pid_proc \<Rightarrow> pid_proc) \<Rightarrow> pids \<Rightarrow> pids" where
  "upd_proc p f s = s\<lparr>procs := (procs s)(p := f (procs s p))\<rparr>"

definition upd_session :: "nat \<Rightarrow> (session \<Rightarrow> session) \<Rightarrow> pids \<Rightarrow> pids" where
  "upd_session i f s = s\<lparr>sessions := (sessions s)(i := f (sessions s i))\<rparr>"

definition upd_pgrp :: "nat \<Rightarrow> (pgrp \<Rightarrow> pgrp) \<Rightarrow> pids \<Rightarrow> pids" where
  "upd_pgrp i f s = s\<lparr>pgrps := (pgrps s)(i := f (pgrps s i))\<rparr>"

lemmas upd_defs = upd_pd_def upd_proc_def upd_session_def upd_pgrp_def

section \<open>Lookup\<close>

definition get_process :: "int \<Rightarrow> pids \<Rightarrow> nat option" where
  "get_process n s = (if n \<le> 0 \<or> n \<ge> int (max_pid s) then None else pd_proc (pid_table s (nat (n - 1))))"

definition get_thread :: "int \<Rightarrow> pids \<Rightarrow> nat option" where
  "get_thread n s = (if n \<le> 0 \<or> n \<ge> int (max_pid s) then None else pd_thread (pid_table s (nat (n - 1))))"

definition get_process_pid :: "nat \<Rightarrow> pids \<Rightarrow> int" where "get_process_pid p s = pid (procs s p)"

text \<open>A negative pid gives an entry before the table.\<close>

definition get_piddesc :: "nat \<Rightarrow> pids \<Rightarrow> nat option" where
  "get_piddesc p s = (if pid (procs s p) \<ge> 1 \<and> pid (procs s p) \<le> int (max_pid s)
     then Some (nat (pid (procs s p) - 1)) else None)"

definition pid_to_piddesc :: "int \<Rightarrow> pids \<Rightarrow> nat option" where
  "pid_to_piddesc n s = (if n \<le> 0 \<or> n \<ge> int (max_pid s) then None else Some (nat (n - 1)))"

definition piddesc_to_pid :: "nat \<Rightarrow> int" where "piddesc_to_pid i = int i + 1"

definition get_session :: "int \<Rightarrow> pids \<Rightarrow> nat option" where
  "get_session n s = (case pid_to_piddesc n s of None \<Rightarrow> None | Some i \<Rightarrow> pd_session (pid_table s i))"

definition get_pgrp :: "int \<Rightarrow> pids \<Rightarrow> nat option" where
  "get_pgrp n s = (case pid_to_piddesc n s of None \<Rightarrow> None | Some i \<Rightarrow> pd_pgrp (pid_table s i))"

section \<open>Allocation\<close>

definition alloc_pid_proc :: "nat \<Rightarrow> pids \<Rightarrow> int result \<times> pids" where
  "alloc_pid_proc p s =
     (case free_piddesc_list s of
        [] \<Rightarrow> (Inl ENOMEM, s)
      | i # is \<Rightarrow> (Inr (piddesc_to_pid i),
          upd_pd i (\<lambda>_. no_piddesc\<lparr>pd_proc := Some p\<rparr>) (s\<lparr>free_piddesc_list := is\<rparr>)))"

definition alloc_pid_thread :: "nat \<Rightarrow> pids \<Rightarrow> int result \<times> pids" where
  "alloc_pid_thread t s =
     (case free_piddesc_list s of
        [] \<Rightarrow> (Inl ENOMEM, s)
      | i # is \<Rightarrow> (Inr (piddesc_to_pid i),
          upd_pd i (\<lambda>_. no_piddesc\<lparr>pd_thread := Some t\<rparr>) (s\<lparr>free_piddesc_list := is\<rparr>)))"

definition alloc_session :: "pids \<Rightarrow> nat option \<times> pids" where
  "alloc_session s =
     (case free_session_list s of
        [] \<Rightarrow> (None, s)
      | i # is \<Rightarrow> (Some i, upd_session i (\<lambda>_. \<lparr>s_sid = 0, controlling_tty = None, foreground_pgrp = INVALID_PID,
                       s_process_list = []\<rparr>) (s\<lparr>free_session_list := is\<rparr>)))"

definition free_session :: "nat \<Rightarrow> pids \<Rightarrow> pids" where
  "free_session i s =
     (let s1 = (case controlling_tty (sessions s i) of
                  None \<Rightarrow> s
                | Some v \<Rightarrow> s\<lparr>tty_sids := (tty_sids s)(v := INVALID_PID)\<rparr>)
      in s1\<lparr>free_session_list := free_session_list s1 @ [i]\<rparr>)"

definition alloc_pgrp :: "pids \<Rightarrow> nat option \<times> pids" where
  "alloc_pgrp s =
     (case free_pgrp_list s of
        [] \<Rightarrow> (None, s)
      | i # is \<Rightarrow> (Some i, upd_pgrp i (\<lambda>_. \<lparr>g_sid = 0, g_process_list = []\<rparr>) (s\<lparr>free_pgrp_list := is\<rparr>)))"

definition free_pgrp :: "nat \<Rightarrow> pids \<Rightarrow> pids" where
  "free_pgrp i s = s\<lparr>free_pgrp_list := free_pgrp_list s @ [i]\<rparr>"

definition free_pid :: "int \<Rightarrow> pids \<Rightarrow> pids option" where
  "free_pid n s = do {
     i \<leftarrow> pid_to_piddesc n s;
     let s1 = upd_pd i (\<lambda>d. d\<lparr>pd_proc := None, pd_thread := None\<rparr>) s;
     let s2 = (case pd_session (pid_table s1 i) of
                 Some x \<Rightarrow> if s_process_list (sessions s1 x) = []
                          then upd_pd i (\<lambda>d. d\<lparr>pd_session := None\<rparr>) (free_session x s1) else s1
               | None \<Rightarrow> s1);
     let s3 = (case pd_pgrp (pid_table s1 i) of
                 Some g \<Rightarrow> if g_process_list (pgrps s2 g) = []
                          then upd_pd i (\<lambda>d. d\<lparr>pd_pgrp := None\<rparr>) (free_pgrp g s2) else s2
               | None \<Rightarrow> s2);
     Some (if pd_session (pid_table s3 i) = None \<and> pd_pgrp (pid_table s3 i) = None
           then s3\<lparr>free_piddesc_list := free_piddesc_list s3 @ [i]\<rparr> else s3) }"

section \<open>Membership\<close>

text \<open>The process leaves the group \<open>g\<close> of descriptor \<open>i\<close>; an empty group is freed.\<close>

definition leave_pgrp :: "nat \<Rightarrow> nat \<Rightarrow> nat \<Rightarrow> pids \<Rightarrow> pids" where
  "leave_pgrp i g p s =
     (let s1 = upd_pgrp g (\<lambda>x. x\<lparr>g_process_list := remove1 p (g_process_list x)\<rparr>) s;
          session = get_session (g_sid (pgrps s1 g)) s1;
          s2 = (if g_process_list (pgrps s1 g) = []
                then upd_pd i (\<lambda>d. d\<lparr>pd_pgrp := None\<rparr>) (free_pgrp g s1) else s1)
      in case session of
           Some x \<Rightarrow> if foreground_pgrp (sessions s2 x) = pgid (procs s2 p)
                    then upd_session x (\<lambda>y. y\<lparr>foreground_pgrp := INVALID_PID\<rparr>) s2 else s2
         | None \<Rightarrow> s2)"

definition remove_from_pgrp :: "nat \<Rightarrow> pids \<Rightarrow> pids option" where
  "remove_from_pgrp p s =
     (case pid_to_piddesc (pgid (procs s p)) s of
        None \<Rightarrow> Some s
      | Some i \<Rightarrow>
          (case pd_pgrp (pid_table s i) of
             None \<Rightarrow> Some s
           | Some g \<Rightarrow> do {
               let s1 = leave_pgrp i g p s;
               s2 \<leftarrow> free_pid (pgid (procs s1 p)) s1;
               Some (upd_proc p (\<lambda>x. x\<lparr>pgid := INVALID_PID\<rparr>) s2) }))"

definition remove_from_session :: "nat \<Rightarrow> pids \<Rightarrow> pids option" where
  "remove_from_session p s =
     (case pid_to_piddesc (sid (procs s p)) s of
        None \<Rightarrow> Some s
      | Some i \<Rightarrow>
          (case pd_session (pid_table s i) of
             None \<Rightarrow> Some s
           | Some x \<Rightarrow> do {
               let s1 = upd_session x (\<lambda>y. y\<lparr>s_process_list := remove1 p (s_process_list y)\<rparr>) s;
               let s2 = (if s_process_list (sessions s1 x) = []
                         then upd_pd i (\<lambda>d. d\<lparr>pd_session := None\<rparr>) (free_session x s1) else s1);
               s3 \<leftarrow> free_pid (sid (procs s2 p)) s2;
               Some (upd_proc p (\<lambda>y. y\<lparr>sid := INVALID_PID\<rparr>) s3) }))"

definition init_session_pgrp :: "nat \<Rightarrow> pids \<Rightarrow> pids" where
  "init_session_pgrp p s = upd_proc p (\<lambda>x. x\<lparr>pgid := INVALID_PID, sid := INVALID_PID\<rparr>) s"

definition fork_session_pgrp :: "nat \<Rightarrow> nat \<Rightarrow> pids \<Rightarrow> pids" where
  "fork_session_pgrp new_proc old_proc s =
     (let s1 = upd_proc new_proc (\<lambda>x. x\<lparr>sid := sid (procs s old_proc), pgid := pgid (procs s old_proc)\<rparr>) s;
          session = get_session (sid (procs s1 new_proc)) s1;
          pgrp = get_pgrp (pgid (procs s1 new_proc)) s1;
          s2 = (case session of
                  Some x \<Rightarrow> upd_session x (\<lambda>y. y\<lparr>s_process_list := s_process_list y @ [new_proc]\<rparr>) s1
                | None \<Rightarrow> s1)
      in case pgrp of
           Some g \<Rightarrow> upd_pgrp g (\<lambda>y. y\<lparr>g_process_list := g_process_list y @ [new_proc]\<rparr>) s2
         | None \<Rightarrow> s2)"

definition fini_session_pgrp :: "nat \<Rightarrow> pids \<Rightarrow> pids option" where
  "fini_session_pgrp p s = do { s1 \<leftarrow> remove_from_pgrp p s; remove_from_session p s1 }"

section \<open>System calls\<close>

definition sys_getppid :: "nat \<Rightarrow> pids \<Rightarrow> int result" where
  "sys_getppid current s =
     (case parent (procs s current) of None \<Rightarrow> Inl EINVAL | Some q \<Rightarrow> Inr (pid (procs s q)))"

definition target :: "int \<Rightarrow> nat \<Rightarrow> pids \<Rightarrow> nat option" where
  "target n current s = (if n = 0 then Some current else get_process n s)"

definition sys_getsid :: "int \<Rightarrow> nat \<Rightarrow> pids \<Rightarrow> int result" where
  "sys_getsid n current s =
     (case target n current s of
        None \<Rightarrow> Inl ESRCH
      | Some p \<Rightarrow> if sid (procs s current) \<noteq> sid (procs s p) then Inl EPERM else Inr (sid (procs s p)))"

definition sys_getpgid :: "int \<Rightarrow> nat \<Rightarrow> pids \<Rightarrow> int result" where
  "sys_getpgid n current s =
     (case target n current s of
        None \<Rightarrow> Inl ESRCH
      | Some p \<Rightarrow> if sid (procs s current) \<noteq> sid (procs s p) then Inl EPERM else Inr (pgid (procs s p)))"

definition sys_getpgrp :: "nat \<Rightarrow> pids \<Rightarrow> int" where "sys_getpgrp current s = pgid (procs s current)"

definition sys_setpgid :: "int \<Rightarrow> int \<Rightarrow> nat \<Rightarrow> pids \<Rightarrow> unit result \<times> pids" where
  "sys_setpgid n g current s =
     (case target n current s of
        None \<Rightarrow> (Inl ESRCH, s)
      | Some p \<Rightarrow>
          if sid (procs s current) \<noteq> sid (procs s p) then (Inl EPERM, s)
          else (case get_pgrp g s of
                  None \<Rightarrow> (Inl EPERM, s)
                | Some x \<Rightarrow> if g_sid (pgrps s x) \<noteq> sid (procs s current) then (Inl EPERM, s)
                           else (Inr (), upd_proc p (\<lambda>y. y\<lparr>pgid := g\<rparr>) s)))"

definition sys_setsid :: "nat \<Rightarrow> pids \<Rightarrow> (int result \<times> pids) option" where
  "sys_setsid current s =
     (if sid (procs s current) = pid (procs s current) then Some (Inl EPERM, s)
      else if pgid (procs s current) = pid (procs s current) then Some (Inl EPERM, s)
      else do {
        s1 \<leftarrow> (if get_session (sid (procs s current)) s \<noteq> None
               then do { t \<leftarrow> remove_from_pgrp current s; remove_from_session current t } else Some s);
        let (xo, s2) = alloc_session s1;
        (case xo of
           None \<Rightarrow> Some (Inl ENOMEM, s2)
         | Some x \<Rightarrow> do {
             let s3 = upd_session x (\<lambda>y. y\<lparr>s_sid := pid (procs s2 current),
                        s_process_list := s_process_list y @ [current]\<rparr>) s2;
             let s4 = upd_proc current (\<lambda>y. y\<lparr>sid := pid (procs s3 current), pgid := INVALID_PID\<rparr>) s3;
             i \<leftarrow> pid_to_piddesc (sid (procs s4 current)) s4;
             Some (Inr (sid (procs s4 current)), upd_pd i (\<lambda>d. d\<lparr>pd_session := Some x, pd_pgrp := None\<rparr>) s4) }) })"

definition sys_setpgrp :: "nat \<Rightarrow> pids \<Rightarrow> (unit result \<times> pids) option" where
  "sys_setpgrp current s =
     (if pgid (procs s current) = pid (procs s current) then Some (Inl EINVAL, s)
      else do {
        i \<leftarrow> get_piddesc current s;
        s1 \<leftarrow> (if pgid (procs s current) \<noteq> INVALID_PID then remove_from_pgrp current s else Some s);
        let s2 = upd_proc current (\<lambda>y. y\<lparr>pgid := pid y\<rparr>) s1;
        let (go, s3) = alloc_pgrp s2;
        (case go of
           None \<Rightarrow> Some (Inl ENOMEM, s3)
         | Some g \<Rightarrow>
             (let s4 = upd_pgrp g (\<lambda>x. x\<lparr>g_sid := sid (procs s3 current),
                         g_process_list := g_process_list x @ [current]\<rparr>) s3
              in Some (Inr (), upd_pd i (\<lambda>d. d\<lparr>pd_pgrp := Some g\<rparr>) s4))) })"

section \<open>Allocating and freeing identifiers\<close>

text \<open>The free list holds descriptors of the table, each once and all clear.\<close>

definition pids_ok :: "pids \<Rightarrow> bool" where
  "pids_ok s \<longleftrightarrow> distinct (free_piddesc_list s) \<and> (\<forall>i \<in> set (free_piddesc_list s). i < max_pid s)"

text \<open>
  C23. Identifiers. A process that is given a pid is found under it, the pid is positive, was free
  and is free no longer, and freeing it makes the lookup fail and puts it back at the end of the
  free list - but for the last pid of the table, which the lookups take to be out of range: the
  process is never found, and freeing the pid stops the kernel.
\<close>

theorem pid_roundtrip:
  assumes "pids_ok s" and "alloc_pid_proc p s = (Inr n, s')"
  shows "0 < n \<and> pids_ok s' \<and> nat (n - 1) \<in> set (free_piddesc_list s) - set (free_piddesc_list s')
     \<and> (if n < int (max_pid s)
        then get_process n s' = Some p
          \<and> (\<exists>s''. free_pid n s' = Some s'' \<and> pids_ok s'' \<and> get_process n s'' = None
               \<and> free_piddesc_list s'' = free_piddesc_list s' @ [nat (n - 1)])
        else get_process n s' = None \<and> free_pid n s' = None)"
proof -
  obtain i "is" where i: "free_piddesc_list s = i # is" "n = int i + 1"
      "s' = upd_pd i (\<lambda>_. no_piddesc\<lparr>pd_proc := Some p\<rparr>) (s\<lparr>free_piddesc_list := is\<rparr>)"
    using assms(2) by (auto simp: alloc_pid_proc_def piddesc_to_pid_def split: list.splits)
  with assms(1) show ?thesis
    by (auto simp: pids_ok_def upd_pd_def get_process_def free_pid_def pid_to_piddesc_def no_piddesc_def Let_def)
qed

text \<open>A table of three pids.\<close>

definition three_pids :: pids where
  "three_pids = \<lparr>max_pid = 3, pid_table = (\<lambda>_. no_piddesc), free_piddesc_list = [0, 1, 2],
     sessions = (\<lambda>_. \<lparr>s_sid = 0, controlling_tty = None, foreground_pgrp = -1, s_process_list = []\<rparr>),
     free_session_list = [0, 1, 2], pgrps = (\<lambda>_. \<lparr>g_sid = 0, g_process_list = []\<rparr>), free_pgrp_list = [0, 1, 2],
     procs = (\<lambda>_. \<lparr>pid = -1, sid = -1, pgid = -1, parent = None\<rparr>), tty_sids = (\<lambda>_. -1)\<rparr>"

theorem pid_roundtrip_witness:
  "\<exists>s'. alloc_pid_proc 7 three_pids = (Inr 1, s') \<and> get_process 1 s' = Some 7"
proof -
  have "\<exists>s'. alloc_pid_proc 7 three_pids = (Inr 1, s')"
    by (simp add: alloc_pid_proc_def three_pids_def piddesc_to_pid_def)
  then obtain s' where a: "alloc_pid_proc 7 three_pids = (Inr 1, s')" ..
  have "pids_ok three_pids" by (auto simp: pids_ok_def three_pids_def)
  with pid_roundtrip [OF _ a] a show ?thesis by (auto simp: three_pids_def)
qed

lemma free_pid_unfound:
  "free_pid n s = Some s' \<Longrightarrow> get_process n s' = None"
  by (auto simp: free_pid_def get_process_def pid_to_piddesc_def upd_pd_def free_session_def free_pgrp_def Let_def
      split: if_splits option.splits)

lemma free_pid_freed:
  "free_pid n s = Some s' \<Longrightarrow> get_session n s = None \<Longrightarrow> get_pgrp n s = None \<Longrightarrow>
     nat (n - 1) \<in> set (free_piddesc_list s')"
  by (auto simp: free_pid_def get_session_def get_pgrp_def pid_to_piddesc_def upd_pd_def split: if_splits)

text \<open>
  A process that leaves its process group takes the leader of the group with it: the pid of the
  group is freed although the process with that pid is alive, so that the leader is no longer found
  by its pid; and if the group was the last use of the pid, the pid is free for another process.
\<close>

theorem leaving_group_loses_leader:
  assumes "remove_from_pgrp p s = Some s'" and "0 < pgid (procs s p)" "pgid (procs s p) < int (max_pid s)"
    and "get_pgrp (pgid (procs s p)) s = Some g"
  shows "get_process (pgid (procs s p)) s' = None
     \<and> (g_process_list (pgrps s g) = [p] \<and> get_session (pgid (procs s p)) s = None
        \<longrightarrow> nat (pgid (procs s p) - 1) \<in> set (free_piddesc_list s'))"
proof -
  let ?n = "pgid (procs s p)"
  have i: "pid_to_piddesc ?n s = Some (nat (?n - 1))" "pd_pgrp (pid_table s (nat (?n - 1))) = Some g"
    using assms(2-4) by (auto simp: get_pgrp_def pid_to_piddesc_def split: if_splits)
  let ?s3 = "leave_pgrp (nat (?n - 1)) g p s"
  have s3: "pgid (procs ?s3 p) = ?n" "get_session ?n ?s3 = get_session ?n s"
    "g_process_list (pgrps s g) = [p] \<Longrightarrow> get_pgrp ?n ?s3 = None"
    by (auto simp: leave_pgrp_def Let_def upd_defs free_pgrp_def get_session_def get_pgrp_def pid_to_piddesc_def
        split: option.splits)
  obtain s4 where f: "free_pid ?n ?s3 = Some s4" "s' = upd_proc p (\<lambda>x. x\<lparr>pgid := INVALID_PID\<rparr>) s4"
    using assms(1) i s3(1) by (auto simp: remove_from_pgrp_def split: bind_splits)
  have "get_process ?n s' = get_process ?n s4" "free_piddesc_list s' = free_piddesc_list s4"
    using f(2) by (simp_all add: upd_proc_def get_process_def)
  then show ?thesis using free_pid_unfound [OF f(1)] free_pid_freed [OF f(1)] s3 by auto
qed

text \<open>Process 0 leads the group with pid 1, to which process 1 belongs.\<close>

definition group_of_two :: pids where
  "group_of_two = three_pids\<lparr>free_piddesc_list := [2],
     pid_table := (\<lambda>_. no_piddesc)(0 := no_piddesc\<lparr>pd_proc := Some 0, pd_pgrp := Some 0\<rparr>, 1 := no_piddesc\<lparr>pd_proc := Some 1\<rparr>),
     pgrps := (\<lambda>_. \<lparr>g_sid = -1, g_process_list = [0, 1]\<rparr>),
     procs := (\<lambda>p. \<lparr>pid = int p + 1, sid = -1, pgid = 1, parent = None\<rparr>)\<rparr>"

theorem leaving_group_loses_leader_witness:
  "get_process 1 group_of_two = Some 0 \<and> (\<exists>s'. remove_from_pgrp 1 group_of_two = Some s' \<and> get_process 1 s' = None)"
proof -
  have "\<exists>s'. remove_from_pgrp 1 group_of_two = Some s'"
    by (simp add: remove_from_pgrp_def leave_pgrp_def group_of_two_def three_pids_def pid_to_piddesc_def free_pid_def
        upd_defs get_session_def no_piddesc_def Let_def)
  then obtain s' where r: "remove_from_pgrp 1 group_of_two = Some s'" ..
  have "get_process 1 s' = None"
    using leaving_group_loses_leader [OF r, of 0]
    by (simp add: group_of_two_def three_pids_def get_pgrp_def pid_to_piddesc_def no_piddesc_def)
  with r show ?thesis by (simp add: group_of_two_def three_pids_def get_process_def no_piddesc_def)
qed

end
