(* ===== verification/Events.thy ===== *)
theory Events
  imports Kernel_Lock Pid
begin

text \<open>
  Thread events (\<open>proc/thread_events.c\<close>): a set of pending events per thread, signalled by other
  threads, by message ports and by interrupt handlers, and waited for with a mask. Waiting may put
  the caller to sleep; what it does afterwards is a definition of its own.
\<close>

unbundle bit_operations_syntax

section \<open>Operations\<close>

definition INTRF_ALL :: u32 where "INTRF_ALL = 15"

text \<open>Take the pending events of a mask.\<close>

definition take_events :: "tid \<Rightarrow> u32 \<Rightarrow> kstate \<Rightarrow> u32 \<times> kstate" where
  "take_events c m s =
     (let caught = pending_events (threads s c) AND m
      in (caught, upd_thread c (\<lambda>th. th\<lparr>pending_events := pending_events th AND NOT caught\<rparr>) s))"

definition sys_thread_event_check :: "u32 \<Rightarrow> tid \<Rightarrow> kstate \<Rightarrow> u32 \<times> kstate" where
  "sys_thread_event_check m c s = take_events c m s"

definition sys_thread_event_wait_return :: "tid \<Rightarrow> kstate \<Rightarrow> u32 \<times> kstate" where
  "sys_thread_event_wait_return c s = take_events c (event_mask (threads s c)) s"

definition sys_thread_event_wait :: "u32 \<Rightarrow> tid \<Rightarrow> kstate \<Rightarrow> (u32 sleep_outcome \<times> kstate) option" where
  "sys_thread_event_wait m c s = do {
     let s1 = upd_thread c (\<lambda>th. th\<lparr>event_mask := m\<rparr>) s;
     if pending_events (threads s1 c) AND event_mask (threads s1 c) = 0 then do {
       (out, s2) \<leftarrow> TaskSleepInterruptible (Rendez_thread c) None INTRF_ALL s1;
       (case out of
          Asleep \<Rightarrow> Some (Asleep, s2)
        | Returned _ \<Rightarrow> (let (w, s3) = sys_thread_event_wait_return c s2 in Some (Returned w, s3))) }
     else (let (w, s2) = sys_thread_event_wait_return c s1 in Some (Returned w, s2)) }"

text \<open>The timeout is \<open>None\<close> for a null pointer and \<open>Some (Inl _)\<close> when copying it in fails.\<close>

definition sys_thread_event_timedwait ::
    "u32 \<Rightarrow> (int \<times> int) result option \<Rightarrow> tid \<Rightarrow> kstate \<Rightarrow> (u32 result sleep_outcome \<times> kstate) option" where
  "sys_thread_event_timedwait m timeout c s =
     (case timeout of
        Some (Inl _) \<Rightarrow> Some (Returned (Inl EFAULT), s)
      | _ \<Rightarrow> do {
          let ts = (case timeout of Some (Inr t) \<Rightarrow> Some t | _ \<Rightarrow> None);
          let s1 = upd_thread c (\<lambda>th. th\<lparr>event_mask := m\<rparr>) s;
          if pending_events (threads s1 c) AND event_mask (threads s1 c) = 0 then do {
            (out, s2) \<leftarrow> TaskSleepInterruptible (Rendez_thread c) ts INTRF_ALL s1;
            (case out of
               Asleep \<Rightarrow> Some (Asleep, s2)
             | Returned _ \<Rightarrow> (let (w, s3) = sys_thread_event_wait_return c s2 in Some (Returned (Inr w), s3))) }
          else (let (w, s2) = sys_thread_event_wait_return c s1 in Some (Returned (Inr w), s2)) })"

text \<open>Set an event and wake the thread if it waits for it.\<close>

definition post_event :: "tid \<Rightarrow> nat \<Rightarrow> kstate \<Rightarrow> kstate option" where
  "post_event t e s =
     (let s1 = upd_thread t (\<lambda>th. th\<lparr>pending_events := pending_events th OR push_bit e 1\<rparr>) s
      in if pending_events (threads s1 t) AND event_mask (threads s1 t) \<noteq> 0
         then TaskWakeupSpecific (Some t) INTRF_EVENT s1 else Some s1)"

definition sys_thread_event_signal :: "pids \<Rightarrow> int \<Rightarrow> int \<Rightarrow> tid \<Rightarrow> kstate \<Rightarrow> (unit result \<times> kstate) option" where
  "sys_thread_event_signal pt n event c s =
     (case get_thread n pt of
        None \<Rightarrow> Some (Inl EPERM, s)
      | Some t \<Rightarrow>
          if t_process (threads s t) \<noteq> t_process (threads s c) then Some (Inl EPERM, s)
          else if event < 0 \<or> event > 31 then Some (Inl EINVAL, s)
          else map_option (Pair (Inr ())) (post_event t (nat event) s))"

definition do_thread_event_signal :: "pids \<Rightarrow> int \<Rightarrow> int \<Rightarrow> kstate \<Rightarrow> (unit result \<times> kstate) option" where
  "do_thread_event_signal pt n event s =
     (case get_thread n pt of
        None \<Rightarrow> Some (Inl ENOENT, s)
      | Some t \<Rightarrow>
          if event < 0 \<or> event > 31 then Some (Inl EINVAL, s)
          else map_option (Pair (Inr ())) (post_event t (nat event) s))"

definition isr_thread_event_signal :: "tid option \<Rightarrow> nat \<Rightarrow> kstate \<Rightarrow> (unit result \<times> kstate) option" where
  "isr_thread_event_signal th e s =
     (case th of
        None \<Rightarrow> Some (Inl EINVAL, s)
      | Some t \<Rightarrow> map_option (Pair (Inr ())) (post_event t e s))"

section \<open>Events are not lost\<close>

text \<open>The invariant of the scheduler and the lock does not depend on the events of a thread.\<close>

lemma kernel_inv_thread_cong:
  assumes th: "\<And>u. t_state (threads s' u) = t_state (threads s u)" "\<And>u. sched_policy (threads s' u) = sched_policy (threads s u)"
      "\<And>u. priority (threads s' u) = priority (threads s u)" "\<And>u. blocking_rendez (threads s' u) = blocking_rendez (threads s u)"
      "\<And>u. desired_priority (threads s' u) = desired_priority (threads s u)"
    and eq: "sched_queue s' = sched_queue s" "blocked_list s' = blocked_list s"
      "bkl_locked s' = bkl_locked s" "bkl_owner s' = bkl_owner s" "bkl_blocked_list s' = bkl_blocked_list s"
      "idle_thread s' = idle_thread s" "current_thread s' = current_thread s"
  shows "kernel_inv s' = kernel_inv s"
  unfolding kernel_defs runnable_def queues_rep_def prio_ok_def th eq by (rule refl)

lemma kernel_inv_events:
  "kernel_inv (upd_thread t (\<lambda>th. th\<lparr>pending_events := f th\<rparr>) s) = kernel_inv s"
  by (rule kernel_inv_thread_cong) (simp_all add: upd_thread_def)

lemma TaskWakeupSpecific_thread:
  assumes "TaskWakeupSpecific (Some t) reason s = Some s'"
  shows "pending_events (threads s' u) = pending_events (threads s u)"
    "t_state (threads s t) = THREAD_STATE_RENDEZ_BLOCKED \<Longrightarrow> intr_flags (threads s t) AND reason \<noteq> 0 \<Longrightarrow>
       t_state (threads s' t) = THREAD_STATE_BKL_BLOCKED \<and> bkl_blocked_list s' = bkl_blocked_list s @ [t]"
  using assms
  by (auto simp: TaskWakeupSpecific_def rendez_to_bkl_def upd_thread_def upd_blocked_def split: if_splits bind_splits)

lemma post_event_ok:
  assumes "kernel_inv s" and "bkl_locked s" and e: "e < 32"
  shows "\<exists>s'. post_event t e s = Some s' \<and> kernel_inv s' \<and> bkl_locked s'
    \<and> (\<forall>u. pending_events (threads s' u) = (if u = t then pending_events (threads s t) OR push_bit e 1 else pending_events (threads s u)))
    \<and> (t_state (threads s t) = THREAD_STATE_RENDEZ_BLOCKED \<and> intr_flags (threads s t) AND INTRF_EVENT \<noteq> 0
         \<and> bit (event_mask (threads s t)) e \<longrightarrow>
       t_state (threads s' t) = THREAD_STATE_BKL_BLOCKED \<and> bkl_blocked_list s' = bkl_blocked_list s @ [t])"
proof -
  let ?s1 = "upd_thread t (\<lambda>th. th\<lparr>pending_events := pending_events th OR push_bit e 1\<rparr>) s"
  have inv: "kernel_inv ?s1" "bkl_locked ?s1" using assms by (simp_all add: kernel_inv_events)
  have th: "t_state (threads ?s1 t) = t_state (threads s t)" "intr_flags (threads ?s1 t) = intr_flags (threads s t)"
    "event_mask (threads ?s1 t) = event_mask (threads s t)" "bkl_blocked_list ?s1 = bkl_blocked_list s"
    "pending_events (threads ?s1 u) = (if u = t then pending_events (threads s t) OR push_bit e 1 else pending_events (threads s u))" for u
    by (simp_all add: upd_thread_def)
  obtain s' where w: "TaskWakeupSpecific (Some t) INTRF_EVENT ?s1 = Some s'" "kernel_inv s'" "wake_frame ?s1 s'"
    using TaskWakeupSpecific_ok [OF inv] by blast
  note w' = TaskWakeupSpecific_thread [OF w(1)]
  have hit: "pending_events (threads ?s1 t) AND event_mask (threads ?s1 t) \<noteq> 0" if "bit (event_mask (threads s t)) e"
  proof
    assume "pending_events (threads ?s1 t) AND event_mask (threads ?s1 t) = 0"
    then have "\<not> bit (pending_events (threads ?s1 t) AND event_mask (threads ?s1 t)) e" by simp
    then show False using that e by (simp add: th bit_simps)
  qed
  show ?thesis
  proof (cases "pending_events (threads ?s1 t) AND event_mask (threads ?s1 t) = 0")
    case True
    then have "post_event t e s = Some ?s1" by (simp add: post_event_def)
    then show ?thesis using inv th True hit by auto
  next
    case False
    then have "post_event t e s = Some s'" using w(1) by (simp add: post_event_def)
    moreover have "bkl_locked s'" using w(3) inv(2) by (simp add: wake_frame_def)
    ultimately show ?thesis using w(2) w' th by auto
  qed
qed

text \<open>
  C24. Events are not lost. Signalling an event that exists to a thread that exists always succeeds
  and keeps the kernel consistent: the event becomes pending and no other event of any thread
  changes; if the thread sleeps waiting for the event it is moved to the end of the list of threads
  waiting for the kernel lock; and if the thread asks for the event afterwards it gets it at once,
  together with exactly the other pending events it asks for, which are then no longer pending.
\<close>

theorem event_not_lost:
  assumes "kernel_inv s" and "bkl_locked s" and "get_thread n pt = Some t" and "0 \<le> e" "e \<le> 31"
  shows "\<exists>s'. do_thread_event_signal pt n e s = Some (Inr (), s') \<and> kernel_inv s'
     \<and> bit (pending_events (threads s' t)) (nat e)
     \<and> (\<forall>u i. bit (pending_events (threads s' u)) i \<noteq> bit (pending_events (threads s u)) i \<longrightarrow> u = t \<and> i = nat e)
     \<and> (t_state (threads s t) = THREAD_STATE_RENDEZ_BLOCKED \<and> intr_flags (threads s t) AND INTRF_EVENT \<noteq> 0
          \<and> bit (event_mask (threads s t)) (nat e) \<longrightarrow>
        t_state (threads s' t) = THREAD_STATE_BKL_BLOCKED \<and> bkl_blocked_list s' = bkl_blocked_list s @ [t])
     \<and> (\<forall>m. bit m (nat e) \<longrightarrow> (\<exists>w s''. sys_thread_event_wait m t s' = Some (Returned w, s'') \<and> bit w (nat e)
          \<and> w = pending_events (threads s' t) AND m
          \<and> pending_events (threads s'' t) = pending_events (threads s' t) AND NOT w))"
proof -
  have e: "nat e < 32" using assms(4,5) by simp
  obtain s' where s': "post_event t (nat e) s = Some s'" "kernel_inv s'"
      "\<And>u. pending_events (threads s' u) = (if u = t then pending_events (threads s t) OR push_bit (nat e) 1 else pending_events (threads s u))"
    and wake: "t_state (threads s t) = THREAD_STATE_RENDEZ_BLOCKED \<and> intr_flags (threads s t) AND INTRF_EVENT \<noteq> 0
         \<and> bit (event_mask (threads s t)) (nat e) \<longrightarrow>
       t_state (threads s' t) = THREAD_STATE_BKL_BLOCKED \<and> bkl_blocked_list s' = bkl_blocked_list s @ [t]"
    using post_event_ok [OF assms(1,2) e, of t] by blast
  have p: "bit (pending_events (threads s' t)) (nat e)" using e by (simp add: s'(3) bit_simps)
  have "\<exists>w s''. sys_thread_event_wait m t s' = Some (Returned w, s'') \<and> bit w (nat e)
      \<and> w = pending_events (threads s' t) AND m \<and> pending_events (threads s'' t) = pending_events (threads s' t) AND NOT w"
    if m: "bit m (nat e)" for m
  proof -
    have "bit (pending_events (threads s' t) AND m) (nat e)" using p m by (simp add: bit_simps)
    moreover from this have "pending_events (threads s' t) AND m \<noteq> 0" by (metis bit_0_eq bot_apply bot_bool_def)
    ultimately show ?thesis
      by (simp add: sys_thread_event_wait_def sys_thread_event_wait_return_def take_events_def upd_thread_def Let_def)
  qed
  moreover have "u = t \<and> i = nat e" if "bit (pending_events (threads s' u)) i \<noteq> bit (pending_events (threads s u)) i" for u i
    using that by (auto simp: s'(3) bit_simps split: if_splits)
  moreover have "do_thread_event_signal pt n e s = Some (Inr (), s')"
    using assms(3-5) s'(1) by (simp add: do_thread_event_signal_def)
  ultimately show ?thesis using s'(2) p wake by blast
qed

theorem event_not_lost_witness:
  "\<exists>s'. do_thread_event_signal (three_pids\<lparr>pid_table := (\<lambda>_. no_piddesc\<lparr>pd_thread := Some 2\<rparr>)\<rparr>) 1 5
        (booted\<lparr>bkl_locked := True, bkl_owner := Some 2\<rparr>) = Some (Inr (), s')
     \<and> bit (pending_events (threads s' 2)) 5"
proof -
  have inv: "kernel_inv (booted\<lparr>bkl_locked := True, bkl_owner := Some 2\<rparr>)"
    using kconfig_invD(1) [OF kreach_booted [OF boot_state_eq booted_enter]] .
  show ?thesis
    using event_not_lost [OF inv, of 1 "three_pids\<lparr>pid_table := (\<lambda>_. no_piddesc\<lparr>pd_thread := Some 2\<rparr>)\<rparr>" 2 5]
    by (auto simp: get_thread_def three_pids_def no_piddesc_def)
qed

end
