(* ===== verification/Msg.thy ===== *)
theory Msg
  imports Events Access
begin

text \<open>
  Messages between the kernel and the servers (\<open>fs/msg.c\<close>, \<open>fs/msgport.c\<close>). A message lives on the
  stack of the thread that sends it, so the thread stands for it. A port belongs to a superblock or
  is the reply port of a thread. A sender sleeps until its message is replied to: \<open>ksendmsg\<close> is the
  part before its loop, \<open>ksendmsg_pass\<close> one pass of the loop up to the sleep, and \<open>ksendmsg_return\<close>
  what the sender does when it runs again. Vectors are lists of an address and a size; sizes and
  offsets are unbounded, so the sums do not wrap. The pending list of a port is a list of messages:
  a message twice on it stands for links that are overwritten while in use.
\<close>

unbundle bit_operations_syntax

section \<open>State\<close>

datatype port = Sb_port nat | Reply_port tid

definition MPF_SHUTDOWN :: u32 where "MPF_SHUTDOWN = 1"

type_synonym iov = "nat \<times> nat"

text \<open>
  \<open>req_abort\<close> tells that the command of the request has been overwritten with \<open>CMD_ABORT\<close>,
  \<open>has_reply\<close> that the sender has a buffer for a reply, \<open>m_reply\<close> what was copied to it.
\<close>

record msg =
  msgid :: int
  m_port :: "port option"
  reply_port :: port
  m_ipc :: ipc
  src_as :: "nat option"
  m_req :: iorequest
  req_abort :: bool
  has_reply :: bool
  m_reply :: "ioreply option"
  reply_status :: "int result"
  siov :: "iov list"
  riov :: "iov list"

record msgport =
  pending_msg_list :: "tid list"
  received_msg_list :: "tid list"
  mp_flags :: u32
  target_tid :: int
  target_event :: int

record msgstate =
  mks :: kstate
  mpids :: pids
  msgs :: "tid \<Rightarrow> msg"
  thread_msg :: "tid \<Rightarrow> tid option"
  thread_tid :: "tid \<Rightarrow> int"
  ports :: "port \<Rightarrow> msgport"

definition port_rendez :: "port \<Rightarrow> rendez" where
  "port_rendez p = (case p of Sb_port b \<Rightarrow> Rendez_obj (4 * (2 * b) + 3) | Reply_port t \<Rightarrow> Rendez_obj (4 * (2 * t + 1) + 3))"

definition upd_msg :: "tid \<Rightarrow> (msg \<Rightarrow> msg) \<Rightarrow> msgstate \<Rightarrow> msgstate" where
  "upd_msg m f s = s\<lparr>msgs := (msgs s)(m := f (msgs s m))\<rparr>"

definition upd_port :: "port \<Rightarrow> (msgport \<Rightarrow> msgport) \<Rightarrow> msgstate \<Rightarrow> msgstate" where
  "upd_port p f s = s\<lparr>ports := (ports s)(p := f (ports s p))\<rparr>"

lemmas msg_upd_defs = upd_msg_def upd_port_def

section \<open>Ports\<close>

definition init_msgport :: "int \<Rightarrow> int \<Rightarrow> msgport" where
  "init_msgport n event = \<lparr>pending_msg_list = [], received_msg_list = [], mp_flags = 0, target_tid = n,
     target_event = event\<rparr>"

text \<open>The owner of a port is told of a new message by an event; the result is not looked at.\<close>

definition notify :: "port \<Rightarrow> msgstate \<Rightarrow> msgstate option" where
  "notify p s = map_option (\<lambda>(_, k). s\<lparr>mks := k\<rparr>)
     (do_thread_event_signal (mpids s) (target_tid (ports s p)) (target_event (ports s p)) (mks s))"

definition kputmsg :: "port \<Rightarrow> tid \<Rightarrow> msgstate \<Rightarrow> (unit result \<times> msgstate) option" where
  "kputmsg p m s =
     (if mp_flags (ports s p) AND MPF_SHUTDOWN \<noteq> 0 then Some (Inl ECONNABORTED, s)
      else map_option (Pair (Inr ()))
        (notify p (upd_port p (\<lambda>q. q\<lparr>pending_msg_list := pending_msg_list q @ [m]\<rparr>)
           (upd_msg m (\<lambda>x. x\<lparr>m_port := Some p\<rparr>) s))))"

definition kreplymsg :: "tid \<Rightarrow> msgstate \<Rightarrow> msgstate option" where
  "kreplymsg m s = do {
     let p = reply_port (msgs s m);
     let s1 = upd_port p (\<lambda>q. q\<lparr>pending_msg_list := pending_msg_list q @ [m]\<rparr>)
                (upd_msg m (\<lambda>x. x\<lparr>m_port := Some p\<rparr>) s);
     k \<leftarrow> TaskWakeup (port_rendez p) (mks s1);
     Some (s1\<lparr>mks := k\<rparr>) }"

definition kgetmsg :: "port \<Rightarrow> msgstate \<Rightarrow> tid option \<times> msgstate" where
  "kgetmsg p s =
     (if mp_flags (ports s p) AND MPF_SHUTDOWN \<noteq> 0 then (None, s)
      else case pending_msg_list (ports s p) of
             [] \<Rightarrow> (None, s)
           | m # ms \<Rightarrow> (Some m, upd_port p (\<lambda>q. q\<lparr>pending_msg_list := ms\<rparr>) s))"

definition kpeekmsg :: "port \<Rightarrow> msgstate \<Rightarrow> tid option" where
  "kpeekmsg p s = hd_opt (pending_msg_list (ports s p))"

definition kremovemsg :: "port \<Rightarrow> tid \<Rightarrow> msgstate \<Rightarrow> msgstate" where
  "kremovemsg p m s = upd_port p (\<lambda>q. q\<lparr>pending_msg_list := remove1 m (pending_msg_list q)\<rparr>) s"

definition kabortmsg :: "port \<Rightarrow> tid \<Rightarrow> tid \<Rightarrow> msgstate \<Rightarrow> (unit result \<times> msgstate) option" where
  "kabortmsg p m current s =
     (let interrupted = (\<lambda>s. (Inl EINTR, (upd_msg m (\<lambda>x. x\<lparr>m_port := None, msgid := INVALID_PID,
                reply_status := Inl EINTR\<rparr>) s)\<lparr>thread_msg := (thread_msg s)(current := None)\<rparr>))
      in if msgid (msgs s m) \<noteq> INVALID_PID then
           (if req_abort (msgs s m) then Some (interrupted s)
            else map_option (Pair (Inr ()))
              (notify p (upd_port p (\<lambda>q. q\<lparr>pending_msg_list := pending_msg_list q @ [m]\<rparr>)
                 (upd_msg m (\<lambda>x. x\<lparr>req_abort := True\<rparr>) s))))
         else if m_port (msgs s m) = Some p then Some (interrupted (kremovemsg p m s))
         else Some (Inr (), s))"

text \<open>Give every message of a list back to its sender, as a port is shut down.\<close>

fun abort_all :: "tid list \<Rightarrow> msgstate \<Rightarrow> msgstate option" where
  "abort_all [] s = Some s"
| "abort_all (m # ms) s = do {
     let p = reply_port (msgs s m);
     let s1 = upd_msg m (\<lambda>x. x\<lparr>msgid := INVALID_PID, reply_status := Inl ECONNABORTED, m_port := Some p\<rparr>) s;
     let s2 = upd_port p (\<lambda>q. q\<lparr>pending_msg_list := pending_msg_list q @ [m]\<rparr>) s1;
     k \<leftarrow> TaskWakeup (port_rendez p) (mks s2);
     abort_all ms (s2\<lparr>mks := k\<rparr>) }"

definition fini_msgport :: "nat \<Rightarrow> msgstate \<Rightarrow> msgstate option" where
  "fini_msgport b s = do {
     let p = Sb_port b;
     let s1 = upd_port p (\<lambda>q. q\<lparr>mp_flags := mp_flags q OR MPF_SHUTDOWN\<rparr>) s;
     s2 \<leftarrow> abort_all (received_msg_list (ports s1 p)) (upd_port p (\<lambda>q. q\<lparr>received_msg_list := []\<rparr>) s1);
     abort_all (pending_msg_list (ports s2 p)) (upd_port p (\<lambda>q. q\<lparr>pending_msg_list := []\<rparr>) s2) }"

section \<open>Sending\<close>

definition kwaitport :: "port \<Rightarrow> (int \<times> int) option \<Rightarrow> msgstate \<Rightarrow> (unit result sleep_outcome \<times> msgstate) option" where
  "kwaitport p timeout s =
     (if pending_msg_list (ports s p) = [] then do {
        (out, k) \<leftarrow> TaskSleepInterruptible (port_rendez p) timeout 0 (mks s);
        (case out of
           Asleep \<Rightarrow> Some (Asleep, s\<lparr>mks := k\<rparr>)
         | Returned sc \<Rightarrow> Some (Returned (if pending_msg_list (ports s p) = [] then sc else Inr ()), s\<lparr>mks := k\<rparr>)) }
      else Some (Returned (Inr ()), s))"

definition kwaitport_return :: "port \<Rightarrow> (int \<times> int) option \<Rightarrow> tid \<Rightarrow> msgstate \<Rightarrow> (unit result \<times> msgstate) option" where
  "kwaitport_return p timeout c s = do {
     (sc, k) \<leftarrow> TaskSleepInterruptible_return c timeout 0 (mks s);
     Some (if sc \<noteq> Inr () \<and> pending_msg_list (ports s p) = [] then sc else Inr (), s\<lparr>mks := k\<rparr>) }"

definition ksendmsg ::
    "port \<Rightarrow> ipc \<Rightarrow> iorequest \<Rightarrow> bool \<Rightarrow> iov list \<Rightarrow> iov list \<Rightarrow> tid \<Rightarrow> nat \<Rightarrow> msgstate
       \<Rightarrow> (unit result \<times> msgstate) option" where
  "ksendmsg p ipc req has_rep si ri c proc s =
     kputmsg p c ((upd_msg c (\<lambda>x. \<lparr>msgid = thread_tid s c, m_port = m_port x, reply_port = Reply_port c, m_ipc = ipc,
         src_as = (if ipc = IPCOPY then Some proc else None), m_req = req, req_abort = False, has_reply = has_rep,
         m_reply = None, reply_status = Inr 0, siov = si, riov = ri\<rparr>) s)
       \<lparr>thread_msg := (thread_msg s)(c := Some c)\<rparr>)"

text \<open>The body of the loop, with the result of \<open>kwaitport\<close>.\<close>

definition ksendmsg_woken :: "port \<Rightarrow> tid \<Rightarrow> unit result \<Rightarrow> msgstate \<Rightarrow> (int result pass \<times> msgstate) option" where
  "ksendmsg_woken p c sc s =
     (case sc of
        Inr _ \<Rightarrow>
          (let (_, s1) = kgetmsg (Reply_port c) s
           in Some (Return (reply_status (msgs s1 c)), s1\<lparr>thread_msg := (thread_msg s1)(c := None)\<rparr>))
      | Inl _ \<Rightarrow> do {
          (ab, s1) \<leftarrow> kabortmsg p c c s;
          Some (case ab of Inl e \<Rightarrow> Return (Inl e) | Inr _ \<Rightarrow> Again, s1) })"

definition ksendmsg_pass :: "port \<Rightarrow> tid \<Rightarrow> msgstate \<Rightarrow> (int result pass \<times> msgstate) option" where
  "ksendmsg_pass p c s = do {
     (out, s1) \<leftarrow> kwaitport (Reply_port c) None s;
     (case out of Asleep \<Rightarrow> Some (Sleep, s1) | Returned sc \<Rightarrow> ksendmsg_woken p c sc s1) }"

definition ksendmsg_return :: "port \<Rightarrow> tid \<Rightarrow> msgstate \<Rightarrow> (int result pass \<times> msgstate) option" where
  "ksendmsg_return p c s = do {
     (sc, s1) \<leftarrow> kwaitport_return (Reply_port c) None c s;
     ksendmsg_woken p c sc s1 }"

section \<open>Serving\<close>

definition msgid_to_msg :: "port \<Rightarrow> int \<Rightarrow> msgstate \<Rightarrow> tid option" where
  "msgid_to_msg p n s =
     (case get_thread n (mpids s) of
        None \<Rightarrow> None
      | Some t \<Rightarrow>
          (case thread_msg s t of
             None \<Rightarrow> None
           | Some m \<Rightarrow> if m_port (msgs s m) \<noteq> Some p then None else Some m))"

text \<open>
  The calls of a server, on the port of the superblock \<open>sb\<close> its descriptor stands for (\<open>None\<close> if
  it stands for none: \<open>get_superblock\<close>). \<open>args_ok\<close> is the check of the sizes and addresses. The
  result of \<open>sys_getmsg\<close> is the identifier and the request, \<open>None\<close> for the return value 0; the
  outcome of copying them out is not looked at.
\<close>

definition sys_getmsg ::
    "bool \<Rightarrow> nat option \<Rightarrow> msgstate \<Rightarrow> (int \<times> iorequest \<times> bool) option result \<times> msgstate" where
  "sys_getmsg args_ok sb s =
     (let header = (\<lambda>m s. (msgid (msgs s m), m_req (msgs s m), req_abort (msgs s m)))
      in if \<not> args_ok then (Inl EINVAL, s)
         else case sb of
                None \<Rightarrow> (Inl EINVAL, s)
              | Some b \<Rightarrow>
                  (case kpeekmsg (Sb_port b) s of
                     None \<Rightarrow> (Inr None, s)
                   | Some m \<Rightarrow>
                       if \<not> req_abort (msgs s m) then
                         (case kgetmsg (Sb_port b) s of
                            (None, s1) \<Rightarrow> (Inr None, s1)
                          | (Some m', s1) \<Rightarrow> (Inr (Some (header m' s1)), s1))
                       else (let s1 = kremovemsg (Sb_port b) m s in (Inr (Some (header m s1)), s1))))"

text \<open>The reply is \<open>None\<close> for a null pointer, \<open>Some None\<close> when copying it in fails.\<close>

definition sys_replymsg ::
    "bool \<Rightarrow> nat option \<Rightarrow> int \<Rightarrow> int result \<Rightarrow> ioreply option option \<Rightarrow> msgstate
       \<Rightarrow> (unit result \<times> msgstate) option" where
  "sys_replymsg size_ok sb n status rep s =
     (if rep \<noteq> None \<and> \<not> size_ok then Some (Inl EINVAL, s)
      else case sb of
             None \<Rightarrow> Some (Inl EINVAL, s)
           | Some b \<Rightarrow>
               (case msgid_to_msg (Sb_port b) n s of
                  None \<Rightarrow> Some (Inl EINVAL, s)
                | Some m \<Rightarrow>
                    (let s1 = upd_msg m (\<lambda>x.
                           if \<not> has_reply x then x\<lparr>reply_status := status\<rparr>
                           else (case rep of
                                   Some (Some r) \<Rightarrow> x\<lparr>reply_status := status, m_reply := Some r\<rparr>
                                 | _ \<Rightarrow> x\<lparr>reply_status := Inl EFAULT\<rparr>)) s
                     in map_option (Pair (Inr ())) (kreplymsg m s1))))"

section \<open>Reading and writing the vectors of a message\<close>

text \<open>The vector, what is left of it and the offset in it, for an offset in the message.\<close>

fun seek_from :: "nat \<Rightarrow> int \<Rightarrow> iov list \<Rightarrow> int \<Rightarrow> (nat \<times> nat \<times> nat) option" where
  "seek_from i base [] off = None"
| "seek_from i base ((a, sz) # vs) off =
     (if off \<ge> base \<and> off < base + int sz then Some (i, nat (base + int sz - off), nat (off - base))
      else seek_from (Suc i) (base + int sz) vs off)"

definition seekiov :: "iov list \<Rightarrow> int \<Rightarrow> (nat \<times> nat \<times> nat) result option" where
  "seekiov vs off =
     (if off < 0 then Some (Inl EINVAL)
      else do {
        kassert (vs \<noteq> []);
        Some (case seek_from 0 0 vs off of None \<Rightarrow> Inl EINVAL | Some r \<Rightarrow> Inr r) })"

text \<open>
  The copying loop of \<open>sys_readmsg\<close> and \<open>sys_writemsg\<close>: the transfers it makes, each a position in
  the caller's buffer, an address in a vector and a length, and whether all of them succeed.
  \<open>ok\<close> is the outcome of a copy. A vector of size 0 makes an empty transfer.
\<close>

function msg_loop ::
    "(nat \<times> nat \<times> nat \<Rightarrow> bool) \<Rightarrow> iov list \<Rightarrow> nat \<Rightarrow> nat \<Rightarrow> nat \<Rightarrow> nat \<Rightarrow> nat
       \<Rightarrow> bool \<times> (nat \<times> nat \<times> nat) list \<times> nat" where
  "msg_loop ok vs i rem off n buf_sz =
     (if i < length vs \<and> n < buf_sz then
        (let k = min (buf_sz - n) rem; tr = (n, fst (vs ! i) + off, k)
         in if \<not> ok tr then (False, [], n)
            else (let (b, trs, n') =
                    (if rem - k = 0
                     then msg_loop ok vs (Suc i) (if Suc i < length vs then snd (vs ! Suc i) else 0) 0 (n + k) buf_sz
                     else msg_loop ok vs i (rem - k) (off + k) (n + k) buf_sz)
                  in (b, tr # trs, n')))
      else (True, [], n))"
  by pat_completeness auto
termination
  by (relation "measures [\<lambda>(ok, vs, i, rem, off, n, b). length vs - i, \<lambda>(ok, vs, i, rem, off, n, b). b - n]") auto

declare msg_loop.simps [simp del]

text \<open>\<open>msg_copy\<close> is what \<open>sys_readmsg\<close> and \<open>sys_writemsg\<close> do with the message's vectors.\<close>

definition msg_copy ::
    "(nat \<times> nat \<times> nat \<Rightarrow> bool) \<Rightarrow> iov list \<Rightarrow> nat \<Rightarrow> int \<Rightarrow> (nat result \<times> (nat \<times> nat \<times> nat) list) option" where
  "msg_copy ok vs buf_sz off = do {
     r \<leftarrow> seekiov vs off;
     Some (case r of
             Inl _ \<Rightarrow> (Inl EINVAL, [])
           | Inr (i, rem, o') \<Rightarrow>
               (let (b, trs, n) = msg_loop ok vs i rem o' 0 buf_sz in (if b then Inr n else Inl EFAULT, trs))) }"

definition sys_readmsg ::
    "nat \<Rightarrow> (nat \<times> nat \<times> nat \<Rightarrow> bool) \<Rightarrow> nat option \<Rightarrow> int \<Rightarrow> nat \<Rightarrow> int \<Rightarrow> msgstate
       \<Rightarrow> (nat result \<times> (nat \<times> nat \<times> nat) list) option" where
  "sys_readmsg IOV_MAX ok sb n buf_sz off s =
     (case sb of
        None \<Rightarrow> Some (Inl EINVAL, [])
      | Some b \<Rightarrow>
          (case msgid_to_msg (Sb_port b) n s of
             None \<Rightarrow> Some (Inl EINVAL, [])
           | Some m \<Rightarrow>
               if siov (msgs s m) = [] \<or> length (siov (msgs s m)) \<ge> IOV_MAX then Some (Inl EINVAL, [])
               else msg_copy ok (siov (msgs s m)) buf_sz off))"

definition sys_writemsg ::
    "nat \<Rightarrow> (nat \<times> nat \<times> nat \<Rightarrow> bool) \<Rightarrow> nat option \<Rightarrow> int \<Rightarrow> nat \<Rightarrow> int \<Rightarrow> msgstate
       \<Rightarrow> (nat result \<times> (nat \<times> nat \<times> nat) list) option" where
  "sys_writemsg IOV_MAX ok sb n buf_sz off s =
     (case sb of
        None \<Rightarrow> Some (Inl EINVAL, [])
      | Some b \<Rightarrow>
          (case msgid_to_msg (Sb_port b) n s of
             None \<Rightarrow> Some (Inl EINVAL, [])
           | Some m \<Rightarrow>
               if riov (msgs s m) = [] \<or> length (riov (msgs s m)) > IOV_MAX then Some (Inl EINVAL, [])
               else msg_copy ok (riov (msgs s m)) buf_sz off))"

text \<open>
  The loop of \<open>sys_readmsgiov\<close>, which may run forever (\<open>None\<close>). Both of its tests are of the
  vector of the caller. A transfer is two addresses and a length. The size of the vector after the
  last, which is read but not used, is 0.
\<close>

definition iov_size :: "iov list \<Rightarrow> nat \<Rightarrow> nat" where
  "iov_size vs i = (if i < length vs then snd (vs ! i) else 0)"

partial_function (option) readmsgiov_loop ::
    "(nat \<times> nat \<times> nat \<Rightarrow> bool) \<Rightarrow> iov list \<Rightarrow> iov list \<Rightarrow> nat \<times> nat \<times> nat \<Rightarrow> nat \<times> nat \<times> nat \<Rightarrow> nat \<Rightarrow> nat option" where
  "readmsgiov_loop ok sv xv sp xp n =
     (case sp of (si, srem, soff) \<Rightarrow> case xp of (xi, xrem, xoff) \<Rightarrow>
      if si < length sv \<and> xi < length xv then
        (let k = min srem xrem
         in if \<not> ok (fst (xv ! xi) + xoff, fst (sv ! si) + soff, k) then Some n
            else
              (let xp' = (if xrem - k = 0 then (Suc xi, iov_size xv (Suc xi), 0) else (xi, xrem - k, xoff + k));
                   sp' = (if fst (snd xp') = 0 then (Suc si, iov_size sv (Suc si), 0) else (si, srem - k, soff + k))
               in readmsgiov_loop ok sv xv sp' xp' (n + k)))
      else Some n)"

text \<open>
  The loop of \<open>sys_writemsgiov\<close>. The next vector of the caller gets the size of the message's vector
  of that index, which is \<open>None\<close> (read outside the array) if there is none and it is used.
\<close>

function writemsgiov_loop ::
    "(nat \<times> nat \<times> nat \<Rightarrow> bool) \<Rightarrow> iov list \<Rightarrow> iov list \<Rightarrow> nat \<times> nat \<times> nat \<Rightarrow> nat \<times> nat \<times> nat \<Rightarrow> nat \<Rightarrow> nat option" where
  "writemsgiov_loop ok rv xv (ri, rrem, roff) (xi, xrem, xoff) n =
     (if ri < length rv \<and> xi < length xv then
        (let k = min rrem xrem
         in if \<not> ok (fst (rv ! ri) + roff, fst (xv ! xi) + xoff, k) then Some n
            else
              (let rp' = (if rrem - k = 0 then (Suc ri, iov_size rv (Suc ri), 0) else (ri, rrem - k, roff + k))
               in if xrem - k \<noteq> 0 then writemsgiov_loop ok rv xv rp' (xi, xrem - k, xoff + k) (n + k)
                  else if fst rp' < length rv \<and> Suc xi < length xv \<and> Suc xi \<ge> length rv then None
                  else writemsgiov_loop ok rv xv rp' (Suc xi, iov_size rv (Suc xi), 0) (n + k)))
      else Some n)"
  by pat_completeness auto
termination
  by (relation "measure (\<lambda>(ok, rv, xv, (ri, _), (xi, _), n). (length rv - ri) + (length xv - xi))")
    (auto simp: min_def split: if_splits)

declare writemsgiov_loop.simps [simp del]

text \<open>The vectors of the caller are \<open>Inl\<close> the error of copying them in, or their list.\<close>

definition sys_readmsgiov ::
    "nat \<Rightarrow> (nat \<times> nat \<times> nat \<Rightarrow> bool) \<Rightarrow> nat option \<Rightarrow> int \<Rightarrow> int \<Rightarrow> iov list option \<Rightarrow> int \<Rightarrow> msgstate
       \<Rightarrow> nat result option" where
  "sys_readmsgiov IOV_MAX ok sb n cnt user_iov off s =
     (if cnt < 1 \<or> cnt > int IOV_MAX then Some (Inl EINVAL)
      else case user_iov of
             None \<Rightarrow> Some (Inl EFAULT)
           | Some xv \<Rightarrow>
               (case sb of
                  None \<Rightarrow> Some (Inl EINVAL)
                | Some b \<Rightarrow>
                    (case msgid_to_msg (Sb_port b) n s of
                       None \<Rightarrow> Some (Inl EINVAL)
                     | Some m \<Rightarrow>
                         (let sv = siov (msgs s m)
                          in if sv = [] \<or> length sv > IOV_MAX then Some (Inl EINVAL)
                             else do {
                               r \<leftarrow> seekiov sv off;
                               (case r of
                                  Inl _ \<Rightarrow> Some (Inl EINVAL)
                                | Inr sp \<Rightarrow> map_option Inr (readmsgiov_loop ok sv xv sp (0, iov_size xv 0, 0) 0)) }))))"

definition sys_writemsgiov ::
    "nat \<Rightarrow> (nat \<times> nat \<times> nat \<Rightarrow> bool) \<Rightarrow> nat option \<Rightarrow> int \<Rightarrow> int \<Rightarrow> iov list option \<Rightarrow> int \<Rightarrow> msgstate
       \<Rightarrow> nat result option" where
  "sys_writemsgiov IOV_MAX ok sb n cnt user_iov off s =
     (if cnt < 1 \<or> cnt > int IOV_MAX then Some (Inl EINVAL)
      else case user_iov of
             None \<Rightarrow> Some (Inl EFAULT)
           | Some xv \<Rightarrow>
               (case sb of
                  None \<Rightarrow> Some (Inl EINVAL)
                | Some b \<Rightarrow>
                    (case msgid_to_msg (Sb_port b) n s of
                       None \<Rightarrow> Some (Inl EINVAL)
                     | Some m \<Rightarrow>
                         (let rv = riov (msgs s m)
                          in if rv = [] then Some (Inr 0)
                             else do {
                               r \<leftarrow> seekiov rv off;
                               (case r of
                                  Inl _ \<Rightarrow> Some (Inl EINVAL)
                                | Inr rp \<Rightarrow> map_option Inr (writemsgiov_loop ok rv xv rp (0, iov_size xv 0, 0) 0)) }))))"

text \<open>
  \<open>sys_sendio\<close>: the vectors are copied in (\<open>None\<close> when that fails) as what they hold and as sizes.
  The size of the reply is summed over the vectors sent: \<open>junk\<close> is what the uninitialised entries
  of the array hold.
\<close>

definition sys_sendio ::
    "nat \<Rightarrow> ksend \<Rightarrow> (nat \<Rightarrow> nat) \<Rightarrow> int \<Rightarrow> int \<Rightarrow> int \<Rightarrow> string list option \<Rightarrow> int \<Rightarrow> nat list option \<Rightarrow> nat \<Rightarrow> fs
       \<Rightarrow> (nat result \<times> fs) option" where
  "sys_sendio IOV_MAX ksend junk fd subclass siov_cnt user_siov riov_cnt user_riov current s =
     (if siov_cnt < 1 \<or> siov_cnt > int IOV_MAX \<or> riov_cnt < 0 \<or> riov_cnt > int IOV_MAX then Some (Inl EINVAL, s)
      else case user_siov of
             None \<Rightarrow> Some (Inl EFAULT, s)
           | Some sv \<Rightarrow>
               (case (if riov_cnt > 0 then user_riov else Some []) of
                  None \<Rightarrow> Some (Inl EFAULT, s)
                | Some rv \<Rightarrow> do {
                    let sbuf = sum_list (map length sv) mod 2 ^ 32;
                    let rbuf = sum_list (map (\<lambda>t. if t < length rv then rv ! t else junk t) [0..<length sv]) mod 2 ^ 32;
                    f \<leftarrow> filp_get current fd s;
                    (case f of
                       None \<Rightarrow> Some (Inl EBADF, s)
                     | Some _ \<Rightarrow>
                         (case vnode_get_from_filp f s of
                            None \<Rightarrow> Some (Inl EBADF, s)
                          | Some v \<Rightarrow>
                              if check_access v f X_OK current s \<noteq> Inr () then Some (Inl EACCES, s)
                              else do {
                                (n, _, s1) \<leftarrow> vfs_sendmsg ksend v subclass (map Some sv) rv sbuf rbuf s;
                                Some (n, s1) })) }))"

section \<open>A message and its reply\<close>

lemma mks_upd_simps [simp]:
  "mks (upd_port p f s) = mks s" "msgs (upd_port p f s) = msgs s" "thread_msg (upd_port p f s) = thread_msg s"
  "thread_tid (upd_port p f s) = thread_tid s" "mpids (upd_port p f s) = mpids s"
  "ports (upd_port p f s) = (ports s)(p := f (ports s p))"
  "mks (upd_msg m g s) = mks s" "ports (upd_msg m g s) = ports s" "thread_msg (upd_msg m g s) = thread_msg s"
  "thread_tid (upd_msg m g s) = thread_tid s" "mpids (upd_msg m g s) = mpids s"
  "msgs (upd_msg m g s) = (msgs s)(m := g (msgs s m))"
  by (simp_all add: msg_upd_defs)

lemma notify_ok:
  assumes "kernel_inv (mks s)" "bkl_locked (mks s)"
  shows "\<exists>k. notify p s = Some (s\<lparr>mks := k\<rparr>) \<and> kernel_inv k \<and> bkl_locked k"
proof (cases "get_thread (target_tid (ports s p)) (mpids s)")
  case None
  with assms show ?thesis by (auto simp: notify_def do_thread_event_signal_def intro!: exI [of _ "mks s"])
next
  case (Some t)
  show ?thesis
  proof (cases "target_event (ports s p) < 0 \<or> target_event (ports s p) > 31")
    case True
    with Some assms show ?thesis
      by (auto simp: notify_def do_thread_event_signal_def intro!: exI [of _ "mks s"])
  next
    case False
    then have "nat (target_event (ports s p)) < 32" by linarith
    from post_event_ok [OF assms this, of t] Some False show ?thesis
      by (auto simp: notify_def do_thread_event_signal_def)
  qed
qed

definition sent_msg :: "ipc \<Rightarrow> iorequest \<Rightarrow> bool \<Rightarrow> iov list \<Rightarrow> iov list \<Rightarrow> port \<Rightarrow> tid \<Rightarrow> nat \<Rightarrow> msgstate \<Rightarrow> msg" where
  "sent_msg ipc req hr si ri p c proc s = \<lparr>msgid = thread_tid s c, m_port = Some p, reply_port = Reply_port c, m_ipc = ipc,
     src_as = (if ipc = IPCOPY then Some proc else None), m_req = req, req_abort = False, has_reply = hr,
     m_reply = None, reply_status = Inr 0, siov = si, riov = ri\<rparr>"

lemma ksendmsg_ok:
  assumes "kernel_inv (mks s)" "bkl_locked (mks s)" "mp_flags (ports s p) AND MPF_SHUTDOWN = 0"
  shows "\<exists>k. ksendmsg p ipc req hr si ri c proc s = Some (Inr (), s\<lparr>thread_msg := (thread_msg s)(c := Some c),
       msgs := (msgs s)(c := sent_msg ipc req hr si ri p c proc s),
       ports := (ports s)(p := (ports s p)\<lparr>pending_msg_list := pending_msg_list (ports s p) @ [c]\<rparr>), mks := k\<rparr>)
     \<and> kernel_inv k \<and> bkl_locked k"
proof -
  let ?s = "s\<lparr>thread_msg := (thread_msg s)(c := Some c), msgs := (msgs s)(c := sent_msg ipc req hr si ri p c proc s),
       ports := (ports s)(p := (ports s p)\<lparr>pending_msg_list := pending_msg_list (ports s p) @ [c]\<rparr>)\<rparr>"
  have "kernel_inv (mks ?s)" "bkl_locked (mks ?s)" using assms by simp_all
  from notify_ok [OF this, of p] obtain k where "notify p ?s = Some (?s\<lparr>mks := k\<rparr>)" "kernel_inv k" "bkl_locked k" by blast
  moreover have "ksendmsg p ipc req hr si ri c proc s = map_option (Pair (Inr ())) (notify p ?s)"
    using assms(3) by (simp add: ksendmsg_def kputmsg_def msg_upd_defs sent_msg_def)
  ultimately show ?thesis by auto
qed

lemma sender_sleeps:
  assumes "pending_msg_list (ports s (Reply_port c)) = []" "ksendmsg_pass p c s = Some (r, s')"
  shows "r = Sleep"
  using assms
  by (auto simp: ksendmsg_pass_def kwaitport_def TaskSleepInterruptible_def TaskCheckInterruptible_def
      split: bind_splits option.splits)

lemma getmsg_head:
  assumes "pending_msg_list (ports s (Sb_port b)) = c # rest" "mp_flags (ports s (Sb_port b)) AND MPF_SHUTDOWN = 0"
    and "\<not> req_abort (msgs s c)"
  shows "sys_getmsg True (Some b) s = (Inr (Some (msgid (msgs s c), m_req (msgs s c), False)),
     upd_port (Sb_port b) (\<lambda>q. q\<lparr>pending_msg_list := rest\<rparr>) s)"
  using assms by (simp add: sys_getmsg_def kpeekmsg_def kgetmsg_def Let_def)

definition replied :: "int result \<Rightarrow> ioreply \<Rightarrow> tid \<Rightarrow> msg \<Rightarrow> msg" where
  "replied st rep c x =
     (if has_reply x then x\<lparr>reply_status := st, m_reply := Some rep\<rparr> else x\<lparr>reply_status := st\<rparr>)
       \<lparr>m_port := Some (Reply_port c)\<rparr>"

lemma replied_simps [simp]:
  "reply_status (replied st rep c x) = st" "m_port (replied st rep c x) = Some (Reply_port c)"
  "m_reply (replied st rep c x) = (if has_reply x then Some rep else m_reply x)"
  by (simp_all add: replied_def)

lemma replymsg_ok:
  assumes "kernel_inv (mks s)" "bkl_locked (mks s)" "blocked_list (mks s) (port_rendez (Reply_port c)) = [c]"
    and "msgid_to_msg (Sb_port b) n s = Some c" "reply_port (msgs s c) = Reply_port c"
  shows "\<exists>k. sys_replymsg True (Some b) n st (Some (Some rep)) s
       = Some (Inr (), s\<lparr>msgs := (msgs s)(c := replied st rep c (msgs s c)),
       ports := (ports s)(Reply_port c := (ports s (Reply_port c))\<lparr>pending_msg_list :=
         pending_msg_list (ports s (Reply_port c)) @ [c]\<rparr>), mks := k\<rparr>)
     \<and> kernel_inv k \<and> bkl_blocked_list k = bkl_blocked_list (mks s) @ [c]"
proof -
  obtain k where "TaskWakeup (port_rendez (Reply_port c)) (mks s) = Some k" "kernel_inv k"
      "bkl_blocked_list k = bkl_blocked_list (mks s) @ [c]"
    using TaskWakeup_ok [OF assms(1,2), of "port_rendez (Reply_port c)"] assms(3) by auto
  then show ?thesis
    using assms(4,5) by (intro exI [of _ k]) (simp add: sys_replymsg_def kreplymsg_def msg_upd_defs replied_def Let_def)
qed

lemma return_reply:
  assumes "pending_msg_list (ports s (Reply_port c)) = [c]" "mp_flags (ports s (Reply_port c)) AND MPF_SHUTDOWN = 0"
  shows "\<exists>k. ksendmsg_return p c s = Some (Return (reply_status (msgs s c)), s\<lparr>mks := k,
     ports := (ports s)(Reply_port c := (ports s (Reply_port c))\<lparr>pending_msg_list := []\<rparr>),
     thread_msg := (thread_msg s)(c := None)\<rparr>)"
  using assms by (simp add: ksendmsg_return_def kwaitport_return_def TaskSleepInterruptible_return_def
      ksendmsg_woken_def kgetmsg_def upd_port_def Let_def) blast


text \<open>A server with one port and a thread that calls it.\<close>

definition one_port :: msgstate where
  "one_port = \<lparr>mks = booted\<lparr>bkl_locked := True, bkl_owner := Some 2\<rparr>,
     mpids = three_pids\<lparr>pid_table := (\<lambda>_. no_piddesc\<lparr>pd_thread := Some 2\<rparr>)\<rparr>,
     msgs = (\<lambda>c. \<lparr>msgid = INVALID_PID, m_port = None, reply_port = Reply_port c, m_ipc = KUCOPY, src_as = None,
       m_req = CMD_STAT 0, req_abort = False, has_reply = False, m_reply = None, reply_status = Inr 0, siov = [], riov = []\<rparr>),
     thread_msg = (\<lambda>_. None), thread_tid = (\<lambda>_. 1), ports = (\<lambda>_. init_msgport 1 0)\<rparr>"

definition blank_reply :: ioreply where
  "blank_reply = \<lparr>r_inode_nr = 0, r_size = 0, r_uid = 0, r_gid = 0, r_mode = 0, r_offset = 0, r_revents = 0, r_data = []\<rparr>"


section \<open>Reading and writing a message\<close>

text \<open>The addresses of the bytes of a list of vectors, and the bytes that transfers move.\<close>

definition iov_bytes :: "iov list \<Rightarrow> nat list" where
  "iov_bytes vs = concat (map (\<lambda>(a, sz). map ((+) a) [0..<sz]) vs)"

definition moved :: "(nat \<times> nat \<times> nat) list \<Rightarrow> (nat \<times> nat) list" where
  "moved trs = concat (map (\<lambda>(p, a, k). map (\<lambda>j. (p + j, a + j)) [0..<k]) trs)"

lemma iov_bytes_simps [simp]:
  "iov_bytes [] = []" "iov_bytes ((a, sz) # vs) = map ((+) a) [0..<sz] @ iov_bytes vs"
  "moved [] = []" "moved ((p, a, k) # trs) = map (\<lambda>j. (p + j, a + j)) [0..<k] @ moved trs"
  by (simp_all add: iov_bytes_def moved_def)

lemma length_iov_bytes: "length (iov_bytes vs) = sum_list (map snd vs)"
  by (induction vs) auto

text \<open>What is left of the vectors from offset \<open>off\<close> in vector \<open>i\<close>.\<close>

definition iov_rest :: "iov list \<Rightarrow> nat \<Rightarrow> nat \<Rightarrow> nat list" where
  "iov_rest vs i off = drop off (iov_bytes (drop i vs))"

lemma iov_rest_Suc:
  "i < length vs \<Longrightarrow> off \<le> snd (vs ! i) \<Longrightarrow>
     iov_rest vs i off = map ((+) (fst (vs ! i))) [off..<snd (vs ! i)] @ iov_rest vs (Suc i) 0"
  by (cases "vs ! i") (simp add: iov_rest_def Cons_nth_drop_Suc [symmetric] drop_map)

lemma zip_upt_append:
  "zip [n..<b] (xs @ ys) = zip [n..<min b (n + length xs)] xs @ zip [n + length xs..<b] ys"
proof (cases "n + length xs \<le> b")
  case True
  then have "[n..<b] = [n..<n + length xs] @ [n + length xs..<b]"
    by (auto simp: le_iff_add upt_add_eq_append [of n "n + length xs"])
  with True show ?thesis by (simp add: zip_append min_def)
next
  case False
  then show ?thesis by (simp add: zip_append2 min_def)
qed

lemma zip_upt_map: "zip [n..<n + k] (map ((+) a) [off..<off + k]) = map (\<lambda>j. (n + j, a + off + j)) [0..<k]"
  by (rule nth_equalityI) auto

lemma msg_loop_spec:
  assumes "i < length vs" "off + rem = snd (vs ! i)" "n \<le> buf_sz"
  shows "\<exists>trs. msg_loop (\<lambda>_. True) vs i rem off n buf_sz = (True, trs, n + min (buf_sz - n) (length (iov_rest vs i off)))
     \<and> moved trs = zip [n..<buf_sz] (iov_rest vs i off)"
  using assms
proof (induction "\<lambda>_ :: nat \<times> nat \<times> nat. True" vs i rem off n buf_sz rule: msg_loop.induct)
  case (1 vs i rem off n buf_sz)
  let ?a = "fst (vs ! i)"
  have rest: "iov_rest vs i off = map ((+) ?a) [off..<off + rem] @ iov_rest vs (Suc i) 0"
    using 1(3,4) by (simp add: iov_rest_Suc)
  consider "n = buf_sz" | "n < buf_sz" "rem \<le> buf_sz - n" | "n < buf_sz" "buf_sz - n < rem"
    using 1(5) by linarith
  then show ?case
  proof cases
    case 1
    then show ?thesis by (simp add: msg_loop.simps [of _ vs i])
  next
    case 2
    have m: "min (buf_sz - n) rem = rem" "min buf_sz (n + rem) = n + rem" using 2 by simp_all
    let ?r = "if Suc i < length vs then snd (vs ! Suc i) else 0"
    have "\<exists>trs. msg_loop (\<lambda>_. True) vs (Suc i) ?r 0 (n + rem) buf_sz
          = (True, trs, n + rem + min (buf_sz - (n + rem)) (length (iov_rest vs (Suc i) 0)))
        \<and> moved trs = zip [n + rem..<buf_sz] (iov_rest vs (Suc i) 0)"
    proof (cases "Suc i < length vs")
      case True
      with "1.hyps"(1) [OF _ refl refl] "1.prems" 2 m(1) show ?thesis by simp
    next
      case False
      then show ?thesis by (simp add: msg_loop.simps [of _ vs "Suc i"] iov_rest_def)
    qed
    then obtain trs where trs: "msg_loop (\<lambda>_. True) vs (Suc i) ?r 0 (n + rem) buf_sz
          = (True, trs, n + rem + min (buf_sz - (n + rem)) (length (iov_rest vs (Suc i) 0)))"
        "moved trs = zip [n + rem..<buf_sz] (iov_rest vs (Suc i) 0)" by blast
    have "msg_loop (\<lambda>_. True) vs i rem off n buf_sz = (True, (n, ?a + off, rem) # trs,
        n + min (buf_sz - n) (length (iov_rest vs i off)))"
      using 2 "1.prems"(1) trs(1) m(1) by (simp add: msg_loop.simps [of _ vs i] Let_def rest)
    then show ?thesis
      unfolding rest zip_upt_append by (simp add: trs(2) zip_upt_map m(2))
  next
    case 3
    have "msg_loop (\<lambda>_. True) vs i rem off n buf_sz = (True, [(n, ?a + off, buf_sz - n)], buf_sz)"
      using 3 "1.prems"(1) by (simp add: msg_loop.simps [of _ vs i rem] msg_loop.simps [of _ vs i _ _ buf_sz] Let_def)
    moreover have "zip [n..<buf_sz] (iov_rest vs i off) = map (\<lambda>j. (n + j, ?a + off + j)) [0..<buf_sz - n]"
      using 3 unfolding rest by (intro nth_equalityI) (auto simp: nth_append)
    moreover have "n + min (buf_sz - n) (length (iov_rest vs i off)) = buf_sz" using 3 rest by simp
    ultimately show ?thesis by simp
  qed
qed

lemma seek_from_spec:
  assumes "seek_from i base vs off = r" "base \<le> off"
  shows "case r of
     None \<Rightarrow> length (iov_bytes vs) \<le> nat (off - base)
   | Some (j, rem, o') \<Rightarrow> i \<le> j \<and> j - i < length vs \<and> o' + rem = snd (vs ! (j - i))
       \<and> iov_rest vs (j - i) o' = drop (nat (off - base)) (iov_bytes vs) \<and> nat (off - base) < length (iov_bytes vs)"
  using assms
proof (induction i base vs off arbitrary: r rule: seek_from.induct)
  case (1 i base off)
  then show ?case by auto
next
  case (2 i base a sz vs off)
  show ?case
  proof (cases "off < base + int sz")
    case True
    with 2(2,3) show ?thesis by (auto simp: iov_rest_def)
  next
    case False
    with 2(2) have r: "seek_from (Suc i) (base + int sz) vs off = r" by auto
    have "nat (off - base) = sz + nat (off - (base + int sz))" using False by simp
    with 2(1) [OF _ r] False show ?thesis
      by (auto simp: iov_rest_def nth_Cons' Suc_diff_le drop_Cons' split: option.splits)
  qed
qed

lemma msg_copy_spec:
  assumes "vs \<noteq> []" "0 \<le> off"
  shows "\<exists>trs. msg_copy (\<lambda>_. True) vs buf_sz off =
       Some (if nat off < length (iov_bytes vs) then Inr (min buf_sz (length (iov_bytes vs) - nat off)) else Inl EINVAL, trs)
     \<and> moved trs = zip [0..<buf_sz] (drop (nat off) (iov_bytes vs))"
proof (cases "seek_from 0 0 vs off")
  case None
  with seek_from_spec [OF None] assms show ?thesis by (simp add: msg_copy_def seekiov_def)
next
  case (Some p)
  then obtain i rem o' where p: "seek_from 0 0 vs off = Some (i, rem, o')" by (cases p) auto
  from seek_from_spec [OF p] assms(2) have i: "i < length vs" "o' + rem = snd (vs ! i)"
    "iov_rest vs i o' = drop (nat off) (iov_bytes vs)" "nat off < length (iov_bytes vs)" by auto
  from msg_loop_spec [OF i(1,2), of 0 buf_sz] i(3,4) p assms show ?thesis
    by (auto simp: msg_copy_def seekiov_def)
qed


text \<open>A message of two vectors that the server of \<open>one_port\<close> has received.\<close>

definition two_vectors :: msgstate where
  "two_vectors = (upd_msg 2 (\<lambda>x. x\<lparr>m_port := Some (Sb_port 0), siov := [(100, 2), (200, 3)], riov := [(300, 4)]\<rparr>) one_port)
     \<lparr>thread_msg := (\<lambda>_. Some 2)\<rparr>"


section \<open>A loop that does not end\<close>

definition stuck :: "iov list \<Rightarrow> iov list \<Rightarrow> nat \<times> nat \<times> nat \<Rightarrow> nat \<times> nat \<times> nat \<Rightarrow> bool" where
  "stuck sv xv sp xp \<longleftrightarrow> fst sp < length sv \<and> fst xp < length xv \<and> fst (snd sp) = 0 \<and> 0 < fst (snd xp)"

lemma readmsgiov_stuck:
  assumes "\<And>t. ok t" "stuck sv xv sp xp"
  shows "readmsgiov_loop ok sv xv sp xp n = None"
proof (rule ccontr)
  assume "readmsgiov_loop ok sv xv sp xp n \<noteq> None"
  then obtain r where r: "readmsgiov_loop ok sv xv sp xp n = Some r" by blast
  have "(\<forall>t. ok t) \<longrightarrow> \<not> stuck sv xv sp xp"
  proof (rule readmsgiov_loop.raw_induct [OF _ r, where P = "\<lambda>ok sv xv sp xp n r. (\<forall>t. ok t) \<longrightarrow> \<not> stuck sv xv sp xp"])
    fix loop ok sv xv sp xp n r
    assume IH: "\<And>ok sv xv sp xp n r. loop ok sv xv sp xp n = Some r \<Longrightarrow> (\<forall>t. ok t) \<longrightarrow> \<not> stuck sv xv sp xp"
      and body: "(case sp of (si, srem, soff) \<Rightarrow> case xp of (xi, xrem, xoff) \<Rightarrow>
        if si < length sv \<and> xi < length xv then
          (let k = min srem xrem
           in if \<not> ok (fst (xv ! xi) + xoff, fst (sv ! si) + soff, k) then Some n
              else
                (let xp' = (if xrem - k = 0 then (Suc xi, iov_size xv (Suc xi), 0) else (xi, xrem - k, xoff + k));
                     sp' = (if fst (snd xp') = 0 then (Suc si, iov_size sv (Suc si), 0) else (si, srem - k, soff + k))
                 in loop ok sv xv sp' xp' (n + k)))
        else Some n) = Some r"
    show "(\<forall>t. ok t) \<longrightarrow> \<not> stuck sv xv sp xp"
      using body IH [of ok sv xv sp xp n r] by (cases sp; cases xp; cases "fst (snd sp)"; cases "fst (snd xp)") (auto simp: stuck_def Let_def)
  qed
  with assms show False by blast
qed

text \<open>
  C27. \<open>sys_readmsgiov\<close> does not return when the first vector of a message is shorter than the first
  vector of the server's buffer, even if the message has more vectors: once the vector of the
  message is used up it is not left, because the second test of the loop is of the buffer's vector
  again, and every further pass copies nothing.
\<close>

theorem readmsgiov_never_returns:
  assumes "msgid_to_msg (Sb_port b) n s = Some m" "\<forall>t. ok t"
    and "siov (msgs s m) = (a, sz) # vs" "length (siov (msgs s m)) \<le> IOV_MAX"
    and "0 < sz" "sz < xsz" "1 \<le> cnt" "cnt \<le> int IOV_MAX"
  shows "sys_readmsgiov IOV_MAX ok (Some b) n cnt (Some ((x, xsz) # xv)) 0 s = None"
proof -
  let ?sv = "(a, sz) # vs" and ?xv = "(x, xsz) # xv"
  have "readmsgiov_loop ok ?sv ?xv (0, 0, sz) (0, xsz - sz, sz) sz = None"
    using assms(2,5,6) by (intro readmsgiov_stuck) (auto simp: stuck_def)
  then have "readmsgiov_loop ok ?sv ?xv (0, sz, 0) (0, xsz, 0) 0 = None"
    using assms(2,5,6) by (subst readmsgiov_loop.simps) (simp add: Let_def)
  then show ?thesis
    using assms by (simp add: sys_readmsgiov_def seekiov_def iov_size_def)
qed

theorem readmsgiov_never_returns_witness:
  "sys_readmsgiov 8 (\<lambda>_. True) (Some 0) 1 1 (Some [(500, 5)]) 0 two_vectors = None"
proof -
  have "msgid_to_msg (Sb_port 0) 1 two_vectors = Some 2" "siov (msgs two_vectors 2) = [(100, 2), (200, 3)]"
    by (simp_all add: two_vectors_def one_port_def msgid_to_msg_def get_thread_def three_pids_def no_piddesc_def upd_msg_def)
  with readmsgiov_never_returns [of 0 1 two_vectors 2 "\<lambda>_. True" 100 2 "[(200, 3)]" 8 5 1 500 "[]"] show ?thesis by simp
qed

section \<open>Shutting down a port\<close>

lemma abort_all_ok:
  assumes "kernel_inv (mks s)" "bkl_locked (mks s)" "distinct ms" "\<And>m. m \<in> set ms \<Longrightarrow> reply_port (msgs s m) = Reply_port m"
  shows "\<exists>s'. abort_all ms s = Some s' \<and> kernel_inv (mks s') \<and> bkl_locked (mks s')
     \<and> (\<forall>m. msgs s' m = (if m \<in> set ms then (msgs s m)\<lparr>msgid := INVALID_PID, reply_status := Inl ECONNABORTED,
            m_port := Some (Reply_port m)\<rparr> else msgs s m))
     \<and> (\<forall>b. ports s' (Sb_port b) = ports s (Sb_port b))
     \<and> (\<forall>m. ports s' (Reply_port m) = (if m \<in> set ms
            then (ports s (Reply_port m))\<lparr>pending_msg_list := pending_msg_list (ports s (Reply_port m)) @ [m]\<rparr>
            else ports s (Reply_port m)))"
  using assms
proof (induction ms arbitrary: s)
  case Nil
  then show ?case by simp
next
  case (Cons m ms)
  let ?s2 = "upd_port (Reply_port m) (\<lambda>q. q\<lparr>pending_msg_list := pending_msg_list q @ [m]\<rparr>)
    (upd_msg m (\<lambda>x. x\<lparr>msgid := INVALID_PID, reply_status := Inl ECONNABORTED, m_port := Some (Reply_port m)\<rparr>) s)"
  obtain k where k: "TaskWakeup (port_rendez (Reply_port m)) (mks s) = Some k" "kernel_inv k" "wake_frame (mks s) k"
    using TaskWakeup_ok [OF Cons.prems(1,2)] by blast
  have lk: "bkl_locked k" using k(3) Cons.prems(2) by (simp add: wake_frame_def lock_frame_def)
  have "\<And>m'. m' \<in> set ms \<Longrightarrow> reply_port (msgs (?s2\<lparr>mks := k\<rparr>) m') = Reply_port m'"
    using Cons.prems(3,4) by auto
  with Cons.IH [of "?s2\<lparr>mks := k\<rparr>"] k(2) lk Cons.prems(3)
  obtain s' where s': "abort_all ms (?s2\<lparr>mks := k\<rparr>) = Some s'" "kernel_inv (mks s')" "bkl_locked (mks s')"
     "\<forall>m'. msgs s' m' = (if m' \<in> set ms then (msgs (?s2\<lparr>mks := k\<rparr>) m')\<lparr>msgid := INVALID_PID, reply_status := Inl ECONNABORTED,
            m_port := Some (Reply_port m')\<rparr> else msgs (?s2\<lparr>mks := k\<rparr>) m')"
     "\<forall>b. ports s' (Sb_port b) = ports (?s2\<lparr>mks := k\<rparr>) (Sb_port b)"
     "\<forall>m'. ports s' (Reply_port m') = (if m' \<in> set ms
            then (ports (?s2\<lparr>mks := k\<rparr>) (Reply_port m'))\<lparr>pending_msg_list := pending_msg_list (ports (?s2\<lparr>mks := k\<rparr>) (Reply_port m')) @ [m']\<rparr>
            else ports (?s2\<lparr>mks := k\<rparr>) (Reply_port m'))" by auto
  have "abort_all (m # ms) s = Some s'" using s'(1) k(1) Cons.prems(4) by (simp add: Let_def)
  with s'(2-) Cons.prems(3) show ?case by (intro exI [of _ s']) auto
qed



end
