(* ===== verification/Timer.thy ===== *)
theory Timer
  imports Kernel_Lock
begin

text \<open>
  The clock and the timers (\<open>proc/timer.c\<close>). Timers hang in a wheel of one list per jiffy of a
  second. The interrupt handler advances \<open>hardclock_time\<close> (\<open>TimerTopHalf\<close>); the timer task lets
  \<open>softclock_time\<close> catch up and expires the timers it passes (\<open>catch_up\<close>). A call that sleeps is its
  part before the loop and one pass of the loop. Callbacks given to \<open>SetTimeout\<close> are the parameter
  \<open>cb\<close>; the busy wait and the raw clock of the board are arguments.
\<close>

section \<open>Reading the clock\<close>

definition MICROSECONDS_PER_JIFFY :: int where "MICROSECONDS_PER_JIFFY = 10000"

definition get_hardclock :: "kstate \<Rightarrow> int" where "get_hardclock s = hardclock_time s"

text \<open>The microseconds are a number of jiffies.\<close>

definition sys_gettimeofday :: "kstate \<Rightarrow> int \<times> int" where
  "sys_gettimeofday s = (c_div (hardclock_time s) JIFFIES_PER_SECOND, c_mod (hardclock_time s) JIFFIES_PER_SECOND)"

datatype clock_id = CLOCK_REALTIME | CLOCK_MONOTONIC | CLOCK_MONOTONIC_RAW | CLOCK_UNKNOWN int

definition hardclock_timespec :: "kstate \<Rightarrow> int \<times> int" where
  "hardclock_timespec s = (c_div (hardclock_time s) JIFFIES_PER_SECOND,
     c_mod (hardclock_time s) JIFFIES_PER_SECOND * NANOSECONDS_PER_JIFFY)"

text \<open>\<open>raw\<close> is what \<open>arch_clock_gettime\<close> returns; \<open>null\<close> and \<open>fault\<close> tell of the caller's pointer.\<close>

definition sys_clock_gettime ::
    "(int \<times> int) result \<Rightarrow> clock_id \<Rightarrow> bool \<Rightarrow> bool \<Rightarrow> kstate \<Rightarrow> (int \<times> int) result" where
  "sys_clock_gettime raw clk null fault s =
     (if null then Inl EINVAL
      else
        (let r = (case clk of
                    CLOCK_REALTIME \<Rightarrow> Inr (hardclock_timespec s)
                  | CLOCK_MONOTONIC \<Rightarrow> Inr (hardclock_timespec s)
                  | CLOCK_MONOTONIC_RAW \<Rightarrow> raw
                  | CLOCK_UNKNOWN _ \<Rightarrow> Inl EINVAL)
         in case r of Inl e \<Rightarrow> Inl e | Inr ts \<Rightarrow> if fault then Inl EFAULT else Inr ts))"

definition sys_settimeofday :: "unit result" where "sys_settimeofday = Inr ()"
definition sys_clock_settime :: "unit result" where "sys_clock_settime = Inl ENOSYS"
definition sys_alarm :: "unit result" where "sys_alarm = Inl ENOSYS"

text \<open>The conversions to ticks multiply the fraction where they should divide, modulo 2 to the 64.\<close>

definition timeval_to_ticks :: "int \<times> int \<Rightarrow> u64" where
  "timeval_to_ticks tv = of_int (fst tv) * of_int JIFFIES_PER_SECOND + of_int (snd tv) * of_int MICROSECONDS_PER_JIFFY"

definition timespec_to_ticks :: "int \<times> int \<Rightarrow> u64" where
  "timespec_to_ticks ts = of_int (fst ts) * of_int JIFFIES_PER_SECOND + of_int (snd ts) * of_int NANOSECONDS_PER_JIFFY"

section \<open>Sleeping\<close>

definition arm_sleep :: "tid \<Rightarrow> int \<Rightarrow> kstate \<Rightarrow> kstate option" where
  "arm_sleep c e s =
     wheel_add (Sleep_timer c)
       (upd_timer (Sleep_timer c) (\<lambda>tm. tm\<lparr>tm_thread := Some c, armed := True, tm_callback := Some SleepCallback,
          expiration_time := e\<rparr>) s)"

text \<open>One pass of the loop that sleeps until the timer is no longer armed.\<close>

definition sleep_pass :: "tid \<Rightarrow> kstate \<Rightarrow> (unit pass \<times> kstate) option" where
  "sleep_pass c s =
     (if armed (timers s (Sleep_timer c)) then map_option (Pair Sleep) (TaskSleep (Rendez_thread c) s)
      else Some (Return (), s))"

definition sys_sleep :: "int \<Rightarrow> tid \<Rightarrow> kstate \<Rightarrow> (unit pass \<times> kstate) option" where
  "sys_sleep seconds c s = do {
     s1 \<leftarrow> arm_sleep c (hardclock_time s + seconds * JIFFIES_PER_SECOND) s;
     sleep_pass c s1 }"

text \<open>
  The request is \<open>Inl\<close> when copying it in fails; \<open>priv\<close> is the privilege for short waits and \<open>spun\<close>
  whether the board's busy wait did them.
\<close>

definition sys_nanosleep ::
    "(int \<times> int) result \<Rightarrow> bool \<Rightarrow> bool \<Rightarrow> tid \<Rightarrow> kstate \<Rightarrow> (unit result pass \<times> kstate) option" where
  "sys_nanosleep req priv spun c s =
     (case req of
        Inl _ \<Rightarrow> Some (Return (Inl EFAULT), s)
      | Inr (sec, nsec) \<Rightarrow>
          if priv \<and> sec = 0 \<and> nsec < 10000000 \<and> spun then Some (Return (Inr ()), s)
          else do {
            s1 \<leftarrow> arm_sleep c (hardclock_time s + sec * JIFFIES_PER_SECOND + c_div nsec NANOSECONDS_PER_JIFFY) s;
            (r, s2) \<leftarrow> sleep_pass c s1;
            Some (case r of Return u \<Rightarrow> Return (Inr u) | Sleep \<Rightarrow> Sleep | Again \<Rightarrow> Again, s2) })"

definition sleep_ticks :: "int \<Rightarrow> tid \<Rightarrow> kstate \<Rightarrow> (unit pass \<times> kstate) option" where
  "sleep_ticks n c s = do {
     s1 \<leftarrow> arm_sleep c (hardclock_time s + n) s;
     sleep_pass c s1 }"

definition SetTimeout :: "int \<Rightarrow> timer_callback \<Rightarrow> rendez option \<Rightarrow> tid \<Rightarrow> kstate \<Rightarrow> (int \<times> kstate) option" where
  "SetTimeout ms f arg c s = do {
     let tm = Timeout_timer c;
     (rem, s1) \<leftarrow>
       (if armed (timers s tm) then do {
          s1 \<leftarrow> wheel_remove tm s;
          Some (hardclock_time s - c_div (expiration_time (timers s tm)) JIFFIES_PER_SECOND,
            upd_timer tm (\<lambda>x. x\<lparr>armed := False\<rparr>) s1) }
        else Some (0, s));
     if ms > 0 then do {
       s2 \<leftarrow> wheel_add tm (upd_timer tm (\<lambda>x. x\<lparr>
          expiration_time := hardclock_time s1 + c_div ms (c_div 1000 JIFFIES_PER_SECOND) + 1,
          tm_thread := Some c, tm_callback := Some f, tm_arg := arg, armed := True\<rparr>) s1);
       Some (rem, s2) }
     else Some (rem, s1) }"

section \<open>The timer interrupt and the timer task\<close>

definition TimerTopHalf :: "kstate \<Rightarrow> kstate option" where
  "TimerTopHalf s =
     (let s1 = (case current_thread s of None \<Rightarrow> s | Some c \<Rightarrow> upd_thread c (\<lambda>th. th\<lparr>quanta_used := quanta_used th + 1\<rparr>) s);
          s2 = s1\<lparr>hardclock_time := hardclock_time s1 + 1\<rparr>
      in TaskWakeup Rendez_timer s2)"

text \<open>The callback of a timer; \<open>SleepCallback\<close> goes through the timer's thread.\<close>

definition run_callback :: "(nat \<Rightarrow> timer_id \<Rightarrow> kstate \<Rightarrow> kstate option) \<Rightarrow> timer_id \<Rightarrow> kstate \<Rightarrow> kstate option" where
  "run_callback cb tm s =
     (case tm_callback (timers s tm) of
        None \<Rightarrow> Some s
      | Some SleepCallback \<Rightarrow> do { t \<leftarrow> tm_thread (timers s tm); TaskWakeup (Rendez_thread t) s }
      | Some TaskTimedSleepCallback \<Rightarrow> do_TaskTimedSleepCallback tm s
      | Some (Callback n) \<Rightarrow> cb n tm s)"

definition expire_timer ::
    "(nat \<Rightarrow> timer_id \<Rightarrow> kstate \<Rightarrow> kstate option) \<Rightarrow> timer_id \<Rightarrow> kstate \<Rightarrow> kstate option" where
  "expire_timer cb tm s =
     (if expiration_time (timers s tm) \<le> softclock_time s then do {
        i \<leftarrow> wheel_index (softclock_time s);
        run_callback cb tm (upd_timer tm (\<lambda>x. x\<lparr>armed := False\<rparr>)
          (s\<lparr>timing_wheel := (timing_wheel s)(i := remove1 tm (timing_wheel s i))\<rparr>)) }
      else Some s)"

fun expire_list ::
    "(nat \<Rightarrow> timer_id \<Rightarrow> kstate \<Rightarrow> kstate option) \<Rightarrow> timer_id list \<Rightarrow> kstate \<Rightarrow> kstate option" where
  "expire_list cb [] s = Some s"
| "expire_list cb (tm # tms) s = do { s1 \<leftarrow> expire_timer cb tm s; expire_list cb tms s1 }"

definition soft_tick :: "(nat \<Rightarrow> timer_id \<Rightarrow> kstate \<Rightarrow> kstate option) \<Rightarrow> kstate \<Rightarrow> kstate option" where
  "soft_tick cb s = do {
     i \<leftarrow> wheel_index (softclock_time s);
     s1 \<leftarrow> expire_list cb (timing_wheel s i) s;
     Some (s1\<lparr>softclock_time := softclock_time s1 + 1\<rparr>) }"

partial_function (option) catch_up ::
    "(nat \<Rightarrow> timer_id \<Rightarrow> kstate \<Rightarrow> kstate option) \<Rightarrow> kstate \<Rightarrow> kstate option" where
  "catch_up cb s =
     (if softclock_time s < hardclock_time s then do { s1 \<leftarrow> soft_tick cb s; catch_up cb s1 } else Some s)"

text \<open>The timer task up to its sleep, and what it does when it runs again.\<close>

definition timer_bottom_half_sleep :: "tid \<Rightarrow> kstate \<Rightarrow> kstate option" where
  "timer_bottom_half_sleep timer_thread s = do {
     kassert (bkl_locked s);
     kassert (bkl_owner s = Some timer_thread);
     TaskSleep Rendez_timer s }"

definition timer_bottom_half_return ::
    "(nat \<Rightarrow> timer_id \<Rightarrow> kstate \<Rightarrow> kstate option) \<Rightarrow> kstate \<Rightarrow> kstate option" where
  "timer_bottom_half_return cb s = catch_up cb s"

section \<open>The wheel\<close>

definition bucket :: "int \<Rightarrow> nat" where "bucket e = nat (e mod JIFFIES_PER_SECOND)"

definition wheel_ok :: "kstate \<Rightarrow> bool" where
  "wheel_ok s \<longleftrightarrow> 0 \<le> softclock_time s \<and> softclock_time s \<le> hardclock_time s
     \<and> (\<forall>i. distinct (timing_wheel s i))
     \<and> (\<forall>tm i. tm \<in> set (timing_wheel s i) \<longleftrightarrow>
          armed (timers s tm) \<and> i = bucket (expiration_time (timers s tm)))
     \<and> (\<forall>tm. armed (timers s tm) \<longrightarrow> softclock_time s \<le> expiration_time (timers s tm))"

text \<open>A timer whose callback can run: one of the kernel's own, with what it needs.\<close>

definition callback_ok :: "kstate \<Rightarrow> timer_id \<Rightarrow> bool" where
  "callback_ok s tm \<longleftrightarrow>
     (case tm_callback (timers s tm) of
        None \<Rightarrow> True
      | Some SleepCallback \<Rightarrow> tm_thread (timers s tm) \<noteq> None
      | Some TaskTimedSleepCallback \<Rightarrow>
          (\<forall>t. tm_thread (timers s tm) = Some t \<and> t_state (threads s t) = THREAD_STATE_RENDEZ_BLOCKED \<longrightarrow>
             tm_arg (timers s tm) \<noteq> None \<and> blocking_rendez (threads s t) = tm_arg (timers s tm))
      | Some (Callback _) \<Rightarrow> False)"

lemma wheel_index_pos: "0 \<le> e \<Longrightarrow> wheel_index e = Some (bucket e)"
  by (simp add: wheel_index_def bucket_def JIFFIES_PER_SECOND_def c_mod_nonneg Let_def)

text \<open>A thread that sleeps alone on its own condition variable, or has been moved to wait for the lock.\<close>

definition waits :: "tid \<Rightarrow> kstate \<Rightarrow> bool" where
  "waits t s \<longleftrightarrow> blocked_list s (Rendez_thread t) = [t] \<or> t \<in> set (bkl_blocked_list s)"

text \<open>What a callback does to the threads: it moves sleepers to the waiters for the lock.\<close>

definition wakes :: "kstate \<Rightarrow> kstate \<Rightarrow> bool" where
  "wakes s s' \<longleftrightarrow> kernel_inv s' \<and> wake_frame s s'
     \<and> (\<forall>t. threads s' t = threads s t \<or> t_state (threads s' t) = THREAD_STATE_BKL_BLOCKED)
     \<and> (\<forall>t. waits t s \<longrightarrow> waits t s')"

lemma wakes_refl: "kernel_inv s \<Longrightarrow> wakes s s"
  by (simp add: wakes_def)

lemma rendez_to_bkl_wakes:
  assumes "kernel_inv s" "bkl_locked s" "t \<in> set (blocked_list s r)"
    and "set (g (blocked_list s r)) = set (blocked_list s r) - {t}" "distinct (g (blocked_list s r))"
  shows "wakes s (rendez_to_bkl t (upd_blocked r g s))"
proof -
  have "waits u (rendez_to_bkl t (upd_blocked r g s))" if "waits u s" for u
  proof (cases "r = Rendez_thread u \<and> blocked_list s r = [u]")
    case True
    with assms(3) have "t = u" by auto
    then show ?thesis by (simp add: waits_def rendez_to_bkl_def)
  next
    case False
    with that show ?thesis by (auto simp: waits_def rendez_to_bkl_def)
  qed
  then show ?thesis
    using rendez_to_bkl_ok [where g = g, OF assms] by (auto simp: wakes_def rendez_to_bkl_def)
qed

lemma TaskWakeup_wakes:
  assumes "kernel_inv s" "bkl_locked s"
  shows "\<exists>s'. TaskWakeup r s = Some s' \<and> wakes s s' \<and> set (take 1 (blocked_list s r)) \<subseteq> set (bkl_blocked_list s')"
proof (cases "blocked_list s r")
  case Nil
  then show ?thesis using assms by (simp add: TaskWakeup_def wakes_refl)
next
  case (Cons t ts)
  then have t: "t \<in> set (blocked_list s r)" by simp
  moreover from kernel_inv_lists [OF assms(1)] t
  have "blocking_rendez (threads s t) = Some r" "t_state (threads s t) = THREAD_STATE_RENDEZ_BLOCKED"
    "distinct (blocked_list s r)" by auto
  ultimately show ?thesis
    using rendez_to_bkl_wakes [OF assms t, of tl] Cons
    by (auto simp: TaskWakeup_def rendez_to_bkl_def)
qed

lemma run_callback_ok:
  assumes "kernel_inv s" "bkl_locked s" "callback_ok s tm"
  shows "\<exists>s'. run_callback cb tm s = Some s' \<and> wakes s s'
     \<and> (\<forall>t. tm_callback (timers s tm) = Some SleepCallback \<and> tm_thread (timers s tm) = Some t \<and> waits t s \<longrightarrow>
          t \<in> set (bkl_blocked_list s'))"
proof (cases "tm_callback (timers s tm)")
  case None
  then show ?thesis using assms(1) by (simp add: run_callback_def wakes_refl)
next
  case (Some f)
  show ?thesis
  proof (cases f)
    case SleepCallback
    with Some assms(3) obtain t where t: "tm_thread (timers s tm) = Some t" by (auto simp: callback_ok_def)
    obtain s' where s': "TaskWakeup (Rendez_thread t) s = Some s'" "wakes s s'"
      "set (take 1 (blocked_list s (Rendez_thread t))) \<subseteq> set (bkl_blocked_list s')"
      using TaskWakeup_wakes [OF assms(1,2)] by blast
    have "t \<in> set (bkl_blocked_list s')" if "waits t s"
      using that s'(2,3) by (auto simp: waits_def wakes_def wake_frame_def)
    with s' Some SleepCallback t show ?thesis by (simp add: run_callback_def)
  next
    case TaskTimedSleepCallback
    show ?thesis
    proof (cases "\<exists>t. tm_thread (timers s tm) = Some t \<and> t_state (threads s t) = THREAD_STATE_RENDEZ_BLOCKED")
      case True
      then obtain t where t: "tm_thread (timers s tm) = Some t" "t_state (threads s t) = THREAD_STATE_RENDEZ_BLOCKED" by blast
      with Some TaskTimedSleepCallback assms(3) obtain r where
        a: "blocking_rendez (threads s t) = tm_arg (timers s tm)" "tm_arg (timers s tm) = Some r"
        by (auto simp: callback_ok_def)
      with kernel_inv_lists [OF assms(1)] t(2) have r: "t \<in> set (blocked_list s r)" "distinct (blocked_list s r)" by auto
      from r have "wakes s (rendez_to_bkl t (upd_blocked r (remove1 t) s))"
        by (intro rendez_to_bkl_wakes [OF assms(1,2)]) auto
      with t a r Some TaskTimedSleepCallback show ?thesis
        by (auto simp: run_callback_def do_TaskTimedSleepCallback_def)
    next
      case False
      then show ?thesis using Some TaskTimedSleepCallback assms(1)
        by (auto simp: run_callback_def do_TaskTimedSleepCallback_def wakes_refl split: option.splits)
    qed
  next
    case (Callback n)
    with Some assms(3) show ?thesis by (simp add: callback_ok_def)
  qed
qed

text \<open>What expiring timers does: clocks stay, sleepers are moved to the waiters, timers are disarmed.\<close>

definition expires :: "kstate \<Rightarrow> kstate \<Rightarrow> bool" where
  "expires s s' \<longleftrightarrow> kernel_inv s' \<and> bkl_locked s'
     \<and> hardclock_time s' = hardclock_time s
     \<and> (\<forall>tm. expiration_time (timers s' tm) = expiration_time (timers s tm) \<and> tm_arg (timers s' tm) = tm_arg (timers s tm)
          \<and> tm_callback (timers s' tm) = tm_callback (timers s tm) \<and> tm_thread (timers s' tm) = tm_thread (timers s tm))
     \<and> (\<forall>t. threads s' t = threads s t \<or> t_state (threads s' t) = THREAD_STATE_BKL_BLOCKED)
     \<and> (\<forall>t. waits t s \<longrightarrow> waits t s') \<and> set (bkl_blocked_list s) \<subseteq> set (bkl_blocked_list s')"

lemma expires_refl: "kernel_inv s \<Longrightarrow> bkl_locked s \<Longrightarrow> expires s s"
  by (simp add: expires_def)

lemma expires_trans:
  assumes "expires s s1" "expires s1 s2"
  shows "expires s s2"
proof -
  have "threads s2 t = threads s t \<or> t_state (threads s2 t) = THREAD_STATE_BKL_BLOCKED" for t
    using assms unfolding expires_def by metis
  then show ?thesis using assms unfolding expires_def by auto
qed

lemma expires_timer:
  assumes "expires s s'"
  shows "expiration_time (timers s' tm) = expiration_time (timers s tm)" "tm_callback (timers s' tm) = tm_callback (timers s tm)"
    "tm_thread (timers s' tm) = tm_thread (timers s tm)" "tm_arg (timers s' tm) = tm_arg (timers s tm)"
  using assms by (simp_all add: expires_def)

lemma expires_callback_ok: "expires s s' \<Longrightarrow> callback_ok s tm \<Longrightarrow> callback_ok s' tm"
  unfolding callback_ok_def expires_timer
  by (auto simp: expires_def split: option.splits timer_callback.splits) (metis thread_state.distinct)+

lemma expire_timer_ok:
  assumes "kernel_inv s" "bkl_locked s" "callback_ok s tm" "0 \<le> softclock_time s" "expiration_time (timers s tm) \<le> softclock_time s"
  shows "\<exists>s'. expire_timer cb tm s = Some s' \<and> expires s s' \<and> softclock_time s' = softclock_time s
     \<and> (\<forall>u. armed (timers s' u) \<longleftrightarrow> armed (timers s u) \<and> u \<noteq> tm)
     \<and> timing_wheel s' = (timing_wheel s)(bucket (softclock_time s) := remove1 tm (timing_wheel s (bucket (softclock_time s))))
     \<and> (\<forall>t. tm_callback (timers s tm) = Some SleepCallback \<and> tm_thread (timers s tm) = Some t \<and> waits t s \<longrightarrow>
          t \<in> set (bkl_blocked_list s'))"
proof -
  let ?i = "bucket (softclock_time s)"
  let ?s = "upd_timer tm (\<lambda>x. x\<lparr>armed := False\<rparr>) (s\<lparr>timing_wheel := (timing_wheel s)(?i := remove1 tm (timing_wheel s ?i))\<rparr>)"
  have same: "threads ?s = threads s" "blocked_list ?s = blocked_list s" "bkl_blocked_list ?s = bkl_blocked_list s"
    "bkl_locked ?s = bkl_locked s" "hardclock_time ?s = hardclock_time s" "softclock_time ?s = softclock_time s"
    "tm_callback (timers ?s tm) = tm_callback (timers s tm)" "tm_thread (timers ?s tm) = tm_thread (timers s tm)"
    "\<And>u. expiration_time (timers ?s u) = expiration_time (timers s u) \<and> tm_arg (timers ?s u) = tm_arg (timers s u)
       \<and> tm_callback (timers ?s u) = tm_callback (timers s u) \<and> tm_thread (timers ?s u) = tm_thread (timers s u)"
    by (simp_all add: upd_timer_def)
  have inv: "kernel_inv ?s"
    using assms(1) by (subst kernel_inv_cong(1) [of ?s s]) (simp_all add: upd_timer_def)
  have "callback_ok ?s tm" using assms(3)
    by (auto simp: callback_ok_def upd_timer_def split: option.splits timer_callback.splits)
  from run_callback_ok [OF inv _ this, of cb] assms(2) obtain s' where s': "run_callback cb tm ?s = Some s'" "wakes ?s s'"
    "\<forall>t. tm_callback (timers s tm) = Some SleepCallback \<and> tm_thread (timers s tm) = Some t \<and> waits t s \<longrightarrow> t \<in> set (bkl_blocked_list s')"
    unfolding same waits_def by auto
  have fr: "timers s' = timers ?s" "timing_wheel s' = timing_wheel ?s" "hardclock_time s' = hardclock_time s"
    "softclock_time s' = softclock_time s"
    using s'(2) same(5,6) by (simp_all add: wakes_def wake_frame_def lock_frame_def)
  have "expires s s'"
    using s'(2) assms(2) unfolding expires_def fr(1,3) wakes_def wake_frame_def same(1-6) waits_def
    by (elim conjE, intro conjI) (use same(9) in auto)
  moreover have "expire_timer cb tm s = Some s'"
    using s'(1) assms(4,5) by (simp add: expire_timer_def wheel_index_pos)
  ultimately show ?thesis
    using s'(3) fr by (auto simp: upd_timer_def)
qed

lemma expire_list_ok:
  assumes "kernel_inv s" "bkl_locked s" "\<And>tm. tm \<in> set tms \<Longrightarrow> callback_ok s tm" "0 \<le> softclock_time s"
  shows "\<exists>s'. expire_list cb tms s = Some s' \<and> expires s s' \<and> softclock_time s' = softclock_time s
     \<and> (\<forall>u. armed (timers s' u) \<longleftrightarrow> armed (timers s u) \<and> \<not> (u \<in> set tms \<and> expiration_time (timers s u) \<le> softclock_time s))
     \<and> timing_wheel s' = (timing_wheel s)(bucket (softclock_time s) :=
          fold remove1 (filter (\<lambda>tm. expiration_time (timers s tm) \<le> softclock_time s) tms) (timing_wheel s (bucket (softclock_time s))))
     \<and> (\<forall>tm t. tm \<in> set tms \<and> expiration_time (timers s tm) \<le> softclock_time s \<and> tm_callback (timers s tm) = Some SleepCallback
          \<and> tm_thread (timers s tm) = Some t \<and> waits t s \<longrightarrow> t \<in> set (bkl_blocked_list s'))"
  using assms
proof (induction tms arbitrary: s)
  case Nil
  then show ?case by (simp add: expires_refl)
next
  case (Cons tm tms)
  let ?i = "bucket (softclock_time s)"
  have "\<exists>s1. expire_timer cb tm s = Some s1 \<and> expires s s1 \<and> softclock_time s1 = softclock_time s
     \<and> (\<forall>u. armed (timers s1 u) \<longleftrightarrow> armed (timers s u) \<and> \<not> (u = tm \<and> expiration_time (timers s tm) \<le> softclock_time s))
     \<and> timing_wheel s1 = (timing_wheel s)(?i := fold remove1 (filter (\<lambda>tm. expiration_time (timers s tm) \<le> softclock_time s) [tm]) (timing_wheel s ?i))
     \<and> (\<forall>t. expiration_time (timers s tm) \<le> softclock_time s \<and> tm_callback (timers s tm) = Some SleepCallback
          \<and> tm_thread (timers s tm) = Some t \<and> waits t s \<longrightarrow> t \<in> set (bkl_blocked_list s1))"
  proof (cases "expiration_time (timers s tm) \<le> softclock_time s")
    case True
    with expire_timer_ok [OF Cons.prems(1,2) _ Cons.prems(4) True, of cb] Cons.prems(3) show ?thesis by auto
  next
    case False
    then show ?thesis using Cons.prems(1,2) by (simp add: expire_timer_def expires_refl)
  qed
  then obtain s1 where s1: "expire_timer cb tm s = Some s1" "expires s s1" "softclock_time s1 = softclock_time s"
     "\<forall>u. armed (timers s1 u) \<longleftrightarrow> armed (timers s u) \<and> \<not> (u = tm \<and> expiration_time (timers s tm) \<le> softclock_time s)"
     "timing_wheel s1 = (timing_wheel s)(?i := fold remove1 (filter (\<lambda>tm. expiration_time (timers s tm) \<le> softclock_time s) [tm]) (timing_wheel s ?i))"
     "\<forall>t. expiration_time (timers s tm) \<le> softclock_time s \<and> tm_callback (timers s tm) = Some SleepCallback
          \<and> tm_thread (timers s tm) = Some t \<and> waits t s \<longrightarrow> t \<in> set (bkl_blocked_list s1)" by blast
  have pre: "kernel_inv s1" "bkl_locked s1" "\<And>u. u \<in> set tms \<Longrightarrow> callback_ok s1 u" "0 \<le> softclock_time s1"
    using s1(2,3) Cons.prems expires_callback_ok [OF s1(2)] by (auto simp: expires_def)
  from Cons.IH [OF pre] obtain s2 where s2: "expire_list cb tms s1 = Some s2" "expires s1 s2" "softclock_time s2 = softclock_time s"
     "\<forall>u. armed (timers s2 u) \<longleftrightarrow> armed (timers s1 u) \<and> \<not> (u \<in> set tms \<and> expiration_time (timers s u) \<le> softclock_time s)"
     "timing_wheel s2 = (timing_wheel s1)(?i :=
          fold remove1 (filter (\<lambda>tm. expiration_time (timers s tm) \<le> softclock_time s) tms) (timing_wheel s1 ?i))"
     "\<forall>u t. u \<in> set tms \<and> expiration_time (timers s u) \<le> softclock_time s \<and> tm_callback (timers s u) = Some SleepCallback
          \<and> tm_thread (timers s u) = Some t \<and> waits t s1 \<longrightarrow> t \<in> set (bkl_blocked_list s2)"
    unfolding s1(3) expires_timer [OF s1(2)] by blast
  have wait: "waits t s1" if "waits t s" for t using s1(2) that by (simp add: expires_def)
  have sub: "set (bkl_blocked_list s1) \<subseteq> set (bkl_blocked_list s2)" using s2(2) by (simp add: expires_def)
  show ?case
    using s1(1,4-6) s2(1,3-6) wait sub expires_trans [OF s1(2) s2(2)]
    by (intro exI [of _ s2] conjI) (auto split: if_splits)
qed

lemma fold_remove1:
  "distinct xs \<Longrightarrow> distinct (fold remove1 ys xs) \<and> set (fold remove1 ys xs) = set xs - set ys"
  by (induction ys arbitrary: xs) auto

lemma soft_tick_ok:
  assumes inv: "kernel_inv s" "bkl_locked s" and w: "wheel_ok s" and lt: "softclock_time s < hardclock_time s"
    and cb: "\<And>tm. armed (timers s tm) \<Longrightarrow> callback_ok s tm"
  shows "\<exists>s'. soft_tick cb s = Some s' \<and> expires s s' \<and> softclock_time s' = softclock_time s + 1 \<and> wheel_ok s'
     \<and> (\<forall>u. armed (timers s' u) \<longleftrightarrow> armed (timers s u) \<and> softclock_time s < expiration_time (timers s u))
     \<and> (\<forall>tm t. armed (timers s tm) \<and> expiration_time (timers s tm) \<le> softclock_time s \<and> tm_callback (timers s tm) = Some SleepCallback
          \<and> tm_thread (timers s tm) = Some t \<and> waits t s \<longrightarrow> t \<in> set (bkl_blocked_list s'))"
proof -
  let ?c = "softclock_time s" and ?e = "\<lambda>tm. expiration_time (timers s tm)"
  let ?b = "timing_wheel s (bucket ?c)"
  have pos: "0 \<le> ?c" and dist: "\<And>i. distinct (timing_wheel s i)"
    and mem: "\<And>tm i. tm \<in> set (timing_wheel s i) \<longleftrightarrow> armed (timers s tm) \<and> i = bucket (?e tm)"
    and late: "\<And>tm. armed (timers s tm) \<Longrightarrow> ?c \<le> ?e tm"
    using w by (auto simp: wheel_ok_def)
  have due: "tm \<in> set ?b \<and> ?e tm \<le> ?c \<longleftrightarrow> armed (timers s tm) \<and> ?e tm \<le> ?c" for tm
    using mem late by (metis order_antisym)
  from expire_list_ok [OF inv _ pos, of ?b cb] mem cb obtain s1 where s1: "expire_list cb ?b s = Some s1" "expires s s1"
     "softclock_time s1 = ?c"
     "\<forall>u. armed (timers s1 u) \<longleftrightarrow> armed (timers s u) \<and> \<not> (u \<in> set ?b \<and> ?e u \<le> ?c)"
     "timing_wheel s1 = (timing_wheel s)(bucket ?c := fold remove1 (filter (\<lambda>tm. ?e tm \<le> ?c) ?b) ?b)"
     "\<forall>tm t. tm \<in> set ?b \<and> ?e tm \<le> ?c \<and> tm_callback (timers s tm) = Some SleepCallback
          \<and> tm_thread (timers s tm) = Some t \<and> waits t s \<longrightarrow> t \<in> set (bkl_blocked_list s1)" by blast
  let ?s = "s1\<lparr>softclock_time := ?c + 1\<rparr>"
  have arm: "armed (timers s1 u) \<longleftrightarrow> armed (timers s u) \<and> ?c < ?e u" for u using s1(4) due by auto
  have later: "armed (timers s tm) \<Longrightarrow> bucket (?e tm) \<noteq> bucket ?c \<Longrightarrow> ?c < ?e tm" for tm
    using late [of tm] by (cases "?e tm = ?c") auto
  note rem = fold_remove1 [OF dist [of "bucket ?c"], of "filter (\<lambda>tm. ?e tm \<le> ?c) ?b"]
  have "wheel_ok ?s"
    unfolding wheel_ok_def
  proof (intro conjI allI)
    show "0 \<le> softclock_time ?s" "softclock_time ?s \<le> hardclock_time ?s"
      using pos lt s1(2) by (auto simp: expires_def)
    show "distinct (timing_wheel ?s i)" for i using dist rem by (simp add: s1(5))
    show "tm \<in> set (timing_wheel ?s i) \<longleftrightarrow> armed (timers ?s tm) \<and> i = bucket (expiration_time (timers ?s tm))" for tm i
      using mem rem due arm later by (auto simp: s1(5) expires_timer [OF s1(2)])
    show "armed (timers ?s tm) \<longrightarrow> softclock_time ?s \<le> expiration_time (timers ?s tm)" for tm
      using arm by (auto simp: expires_timer [OF s1(2)])
  qed
  moreover have "expires s ?s"
  proof -
    have "kernel_inv ?s = kernel_inv s1" by (rule kernel_inv_cong) simp_all
    with s1(2) show ?thesis by (auto simp: expires_def waits_def)
  qed
  moreover have "soft_tick cb s = Some ?s" using s1(1,3) pos by (simp add: soft_tick_def wheel_index_pos)
  ultimately show ?thesis using s1(6) arm due by (intro exI [of _ ?s]) auto
qed

lemma catch_up_ok:
  assumes "kernel_inv s" "bkl_locked s" "wheel_ok s" "\<And>tm. armed (timers s tm) \<Longrightarrow> callback_ok s tm"
  shows "\<exists>s'. catch_up cb s = Some s' \<and> expires s s' \<and> softclock_time s' = hardclock_time s \<and> wheel_ok s'
     \<and> (\<forall>u. armed (timers s' u) \<longleftrightarrow> armed (timers s u) \<and> hardclock_time s \<le> expiration_time (timers s u))
     \<and> (\<forall>tm t. armed (timers s tm) \<and> expiration_time (timers s tm) < hardclock_time s \<and> tm_callback (timers s tm) = Some SleepCallback
          \<and> tm_thread (timers s tm) = Some t \<and> waits t s \<longrightarrow> t \<in> set (bkl_blocked_list s'))"
  using assms
proof (induction "nat (hardclock_time s - softclock_time s)" arbitrary: s)
  case 0
  then have "softclock_time s = hardclock_time s" by (simp add: wheel_ok_def)
  with 0 show ?case by (subst catch_up.simps) (auto simp: expires_refl wheel_ok_def)
next
  case (Suc n)
  then have lt: "softclock_time s < hardclock_time s" by linarith
  from soft_tick_ok [OF Suc.prems(1-3) lt Suc.prems(4), of cb] obtain s1 where s1: "soft_tick cb s = Some s1" "expires s s1"
     "softclock_time s1 = softclock_time s + 1" "wheel_ok s1"
     "\<forall>u. armed (timers s1 u) \<longleftrightarrow> armed (timers s u) \<and> softclock_time s < expiration_time (timers s u)"
     "\<forall>tm t. armed (timers s tm) \<and> expiration_time (timers s tm) \<le> softclock_time s \<and> tm_callback (timers s tm) = Some SleepCallback
          \<and> tm_thread (timers s tm) = Some t \<and> waits t s \<longrightarrow> t \<in> set (bkl_blocked_list s1)" by blast
  have hard: "hardclock_time s1 = hardclock_time s" and "kernel_inv s1" "bkl_locked s1" using s1(2) by (auto simp: expires_def)
  moreover have "n = nat (hardclock_time s1 - softclock_time s1)" using Suc.hyps(2) s1(3) hard by simp
  moreover have "callback_ok s1 tm" if "armed (timers s1 tm)" for tm
    using that s1(5) expires_callback_ok [OF s1(2)] Suc.prems(4) by blast
  ultimately have "\<exists>s2. catch_up cb s1 = Some s2 \<and> expires s1 s2 \<and> softclock_time s2 = hardclock_time s \<and> wheel_ok s2
     \<and> (\<forall>u. armed (timers s2 u) \<longleftrightarrow> armed (timers s1 u) \<and> hardclock_time s \<le> expiration_time (timers s u))
     \<and> (\<forall>tm t. armed (timers s1 tm) \<and> expiration_time (timers s tm) < hardclock_time s \<and> tm_callback (timers s tm) = Some SleepCallback
          \<and> tm_thread (timers s tm) = Some t \<and> waits t s1 \<longrightarrow> t \<in> set (bkl_blocked_list s2))"
    using Suc.hyps(1) [of s1] s1(4) by (simp add: expires_timer [OF s1(2)])
  then obtain s2 where s2: "catch_up cb s1 = Some s2" "expires s1 s2" "softclock_time s2 = hardclock_time s" "wheel_ok s2"
     "\<forall>u. armed (timers s2 u) \<longleftrightarrow> armed (timers s1 u) \<and> hardclock_time s \<le> expiration_time (timers s u)"
     "\<forall>tm t. armed (timers s1 tm) \<and> expiration_time (timers s tm) < hardclock_time s \<and> tm_callback (timers s tm) = Some SleepCallback
          \<and> tm_thread (timers s tm) = Some t \<and> waits t s1 \<longrightarrow> t \<in> set (bkl_blocked_list s2)"
    by blast
  have woken: "t \<in> set (bkl_blocked_list s2)"
    if "armed (timers s tm)" "expiration_time (timers s tm) < hardclock_time s" "tm_callback (timers s tm) = Some SleepCallback"
      "tm_thread (timers s tm) = Some t" "waits t s" for tm t
  proof (cases "expiration_time (timers s tm) \<le> softclock_time s")
    case True
    with s1(6) that have "t \<in> set (bkl_blocked_list s1)" by blast
    with s2(2) show ?thesis by (auto simp: expires_def)
  next
    case False
    with that s1(5) have "armed (timers s1 tm)" by simp
    moreover have "waits t s1" using s1(2) that(5) by (simp add: expires_def)
    ultimately show ?thesis using s2(6) that by blast
  qed
  have "catch_up cb s = Some s2" using s1(1) s2(1) lt by (subst catch_up.simps) simp
  moreover have "armed (timers s2 u) \<longleftrightarrow> armed (timers s u) \<and> hardclock_time s \<le> expiration_time (timers s u)" for u
    using s1(5) s2(5) lt by fastforce
  ultimately show ?case
    using s2(3,4) expires_trans [OF s1(2) s2(2)] woken by (intro exI [of _ s2]) auto
qed

text \<open>
  C29. Timers expire on time and in the same run. When the timer task runs, the soft clock catches up
  with the hard clock (the loop ends), exactly the timers whose time has passed are disarmed and
  taken off the wheel, the others stay armed in their lists, and every thread that slept until such
  a time is moved to the threads waiting for the kernel lock; no assertion fails.
\<close>

theorem timers_expire:
  assumes "kernel_inv s" "bkl_locked s" "wheel_ok s" "\<forall>tm. armed (timers s tm) \<longrightarrow> callback_ok s tm"
  shows "\<exists>s'. timer_bottom_half_return cb s = Some s' \<and> kernel_inv s' \<and> wheel_ok s' \<and> softclock_time s' = hardclock_time s
     \<and> (\<forall>tm. armed (timers s' tm) \<longleftrightarrow> armed (timers s tm) \<and> hardclock_time s \<le> expiration_time (timers s tm))
     \<and> (\<forall>tm t. armed (timers s tm) \<and> expiration_time (timers s tm) < hardclock_time s
          \<and> tm_callback (timers s tm) = Some SleepCallback \<and> tm_thread (timers s tm) = Some t
          \<and> blocked_list s (Rendez_thread t) = [t] \<longrightarrow> t \<in> set (bkl_blocked_list s'))"
proof -
  obtain s' where s': "catch_up cb s = Some s'" "expires s s'" "softclock_time s' = hardclock_time s" "wheel_ok s'"
     "\<forall>u. armed (timers s' u) \<longleftrightarrow> armed (timers s u) \<and> hardclock_time s \<le> expiration_time (timers s u)"
     "\<forall>tm t. armed (timers s tm) \<and> expiration_time (timers s tm) < hardclock_time s \<and> tm_callback (timers s tm) = Some SleepCallback
          \<and> tm_thread (timers s tm) = Some t \<and> waits t s \<longrightarrow> t \<in> set (bkl_blocked_list s')"
    using catch_up_ok [OF assms(1-3), of cb] assms(4) by blast
  then show ?thesis
    unfolding timer_bottom_half_return_def waits_def by (intro exI [of _ s'] conjI) (auto simp: expires_def)
qed

text \<open>A thread asleep until a time that the hard clock has passed.\<close>

theorem timers_expire_witness:
  "\<exists>s s'. timer_bottom_half_return (\<lambda>_ _. Some) s = Some s' \<and> softclock_time s < softclock_time s'
     \<and> 2 \<notin> set (bkl_blocked_list s) \<and> 2 \<in> set (bkl_blocked_list s')"
proof -
  obtain k where k: "kernel_inv k" "bkl_locked k" "blocked_list k (Rendez_thread 2) = [2]" using asleep_on by blast
  define s where "s = k\<lparr>hardclock_time := 5, softclock_time := 0, timing_wheel := (\<lambda>_. [])(3 := [Sleep_timer 2]),
    timers := (\<lambda>_. \<lparr>armed = False, expiration_time = 0, tm_arg = None, tm_callback = None, tm_thread = None\<rparr>)(Sleep_timer 2 :=
      \<lparr>armed = True, expiration_time = 3, tm_arg = None, tm_callback = Some SleepCallback, tm_thread = Some 2\<rparr>)\<rparr>"
  have inv: "kernel_inv s"
    using k(1) kernel_inv_cong(1) [of s k] by (simp add: s_def)
  have "wheel_ok s" by (auto simp: wheel_ok_def s_def bucket_def JIFFIES_PER_SECOND_def)
  moreover have "\<forall>tm. armed (timers s tm) \<longrightarrow> callback_ok s tm" by (simp add: s_def callback_ok_def)
  moreover have new: "2 \<notin> set (bkl_blocked_list s)"
    using kernel_inv_lists(1) [OF k(1), of 2] kernel_inv_lists(2) [OF k(1), of 2 "Rendez_thread 2"] k(3) by (auto simp: s_def)
  moreover have "bkl_locked s" using k(2) by (simp add: s_def)
  ultimately obtain s' where s': "timer_bottom_half_return (\<lambda>_ _. Some) s = Some s'" "softclock_time s' = hardclock_time s"
    "\<forall>tm t. armed (timers s tm) \<and> expiration_time (timers s tm) < hardclock_time s
          \<and> tm_callback (timers s tm) = Some SleepCallback \<and> tm_thread (timers s tm) = Some t
          \<and> blocked_list s (Rendez_thread t) = [t] \<longrightarrow> t \<in> set (bkl_blocked_list s')"
    using timers_expire [OF inv, of "\<lambda>_ _. Some"] by blast
  from s'(3) [rule_format, of "Sleep_timer 2" 2] have "2 \<in> set (bkl_blocked_list s')" using k(3) by (simp add: s_def)
  moreover have "softclock_time s < softclock_time s'" using s'(2) by (simp add: s_def)
  ultimately show ?thesis using s'(1) new by blast
qed

end
