(* ===== verification/Memregion.thy ===== *)
theory Memregion
  imports Prelude
begin

text \<open>
  The regions of an address space (\<open>vm/memregion.c\<close>, \<open>vm/bounds.c\<close>). The sorted list of an address
  space divides its user part into regions; the free ones are also on its free list; regions in use
  by no address space are on one unused list. Addresses and sizes are naturals below 2 to the 32
  with the wrap-around of the additions written out.
\<close>

unbundle bit_operations_syntax

section \<open>State\<close>

definition PAGE_SIZE :: nat where "PAGE_SIZE = 4096"
definition VM_USER_BASE :: nat where "VM_USER_BASE = 0x00400000"
definition VM_USER_CEILING :: nat where "VM_USER_CEILING = 0x7F000000"

definition plus32 :: "nat \<Rightarrow> nat \<Rightarrow> nat" where "plus32 a b = (a + b) mod 2 ^ 32"
definition ALIGN_UP :: "nat \<Rightarrow> nat" where "ALIGN_UP v = plus32 v (PAGE_SIZE - 1) div PAGE_SIZE * PAGE_SIZE"
definition ALIGN_DOWN :: "nat \<Rightarrow> nat" where "ALIGN_DOWN v = v - v mod PAGE_SIZE"

datatype mr_type = MR_TYPE_UNALLOCATED | MR_TYPE_FREE | MR_TYPE_ALLOC | MR_TYPE_PHYS

record memregion =
  base_addr :: nat
  ceiling_addr :: nat
  mr_as :: "nat option"
  mr_type :: mr_type
  mr_flags :: u32
  phys_base_addr :: nat

record address_space =
  sorted_memregion_list :: "nat list"
  free_memregion_list :: "nat list"
  hint :: "nat option"

record vm =
  memregions :: "nat \<Rightarrow> memregion"
  unused_memregion_list :: "nat list"
  spaces :: "nat \<Rightarrow> address_space"

definition upd_mr :: "nat \<Rightarrow> (memregion \<Rightarrow> memregion) \<Rightarrow> vm \<Rightarrow> vm" where
  "upd_mr r f s = s\<lparr>memregions := (memregions s)(r := f (memregions s r))\<rparr>"

definition upd_as :: "nat \<Rightarrow> (address_space \<Rightarrow> address_space) \<Rightarrow> vm \<Rightarrow> vm" where
  "upd_as a f s = s\<lparr>spaces := (spaces s)(a := f (spaces s a))\<rparr>"

lemma upd_vm_simps [simp]:
  "memregions (upd_mr r f s) = (memregions s)(r := f (memregions s r))"
  "unused_memregion_list (upd_mr r f s) = unused_memregion_list s" "spaces (upd_mr r f s) = spaces s"
  "memregions (upd_as a g s) = memregions s" "unused_memregion_list (upd_as a g s) = unused_memregion_list s"
  "spaces (upd_as a g s) = (spaces s)(a := g (spaces s a))"
  by (simp_all add: upd_mr_def upd_as_def)

text \<open>\<open>DLIST_INSERT_BEFORE\<close>, \<open>DLIST_INSERT_AFTER\<close> and \<open>DLIST_PREV\<close> on the sequence of a list.\<close>

fun insert_before :: "'a \<Rightarrow> 'a \<Rightarrow> 'a list \<Rightarrow> 'a list" where
  "insert_before x y [] = []"
| "insert_before x y (z # zs) = (if z = x then y # z # zs else z # insert_before x y zs)"

fun insert_after :: "'a \<Rightarrow> 'a \<Rightarrow> 'a list \<Rightarrow> 'a list" where
  "insert_after x y [] = []"
| "insert_after x y (z # zs) = (if z = x then z # y # zs else z # insert_after x y zs)"

definition prev_of :: "'a \<Rightarrow> 'a list \<Rightarrow> 'a option" where
  "prev_of x xs = last_opt (takeWhile (\<lambda>y. y \<noteq> x) xs)"

section \<open>Operations\<close>

definition covers :: "vm \<Rightarrow> nat \<Rightarrow> nat \<Rightarrow> bool" where
  "covers s addr r \<longleftrightarrow> base_addr (memregions s r) \<le> addr \<and> addr < ceiling_addr (memregions s r)"

definition find_region :: "(address_space \<Rightarrow> nat list) \<Rightarrow> nat \<Rightarrow> nat \<Rightarrow> vm \<Rightarrow> nat option \<times> vm" where
  "find_region sel a addr s =
     (case hint (spaces s a) of
        Some h \<Rightarrow>
          if covers s addr h then (Some h, s)
          else (case find (covers s addr) (sel (spaces s a)) of
                  None \<Rightarrow> (None, s) | Some r \<Rightarrow> (Some r, upd_as a (\<lambda>x. x\<lparr>hint := Some r\<rparr>) s))
      | None \<Rightarrow>
          (case find (covers s addr) (sel (spaces s a)) of
             None \<Rightarrow> (None, s) | Some r \<Rightarrow> (Some r, upd_as a (\<lambda>x. x\<lparr>hint := Some r\<rparr>) s)))"

definition memregion_find_free :: "nat \<Rightarrow> nat \<Rightarrow> vm \<Rightarrow> nat option \<times> vm" where
  "memregion_find_free = find_region free_memregion_list"

definition memregion_find_sorted :: "nat \<Rightarrow> nat \<Rightarrow> vm \<Rightarrow> nat option \<times> vm" where
  "memregion_find_sorted = find_region sorted_memregion_list"

text \<open>The region to take and the address in it; \<open>fixed\<close> is the flag \<open>MAP_FIXED\<close>.\<close>

definition fits :: "vm \<Rightarrow> nat \<Rightarrow> nat \<Rightarrow> bool" where
  "fits s sz r \<longleftrightarrow>
     (let m = memregions s r; b = ALIGN_UP (base_addr m)
      in mr_type m = MR_TYPE_FREE \<and> base_addr m \<le> b \<and> b < ceiling_addr m \<and> sz \<le> ceiling_addr m - b)"

definition choose_region :: "bool \<Rightarrow> nat \<Rightarrow> nat \<Rightarrow> nat \<Rightarrow> vm \<Rightarrow> (nat \<times> nat) option \<times> vm" where
  "choose_region fixed a addr sz s =
     (if fixed then
        (case memregion_find_free a addr s of
           (None, s1) \<Rightarrow> (None, s1)
         | (Some r, s1) \<Rightarrow>
             if plus32 addr sz > ceiling_addr (memregions s1 r) \<or> mr_type (memregions s1 r) \<noteq> MR_TYPE_FREE
             then (None, s1) else (Some (r, addr), s1))
      else
        (case find (fits s sz) (free_memregion_list (spaces s a)) of
           None \<Rightarrow> (None, s)
         | Some r \<Rightarrow> (Some (r, ALIGN_UP (base_addr (memregions s r))), s)))"

text \<open>The free part below the new region, and the one above it.\<close>

definition keep_base :: "nat \<Rightarrow> nat \<Rightarrow> nat \<Rightarrow> nat \<Rightarrow> vm \<Rightarrow> vm" where
  "keep_base a r addr nb s =
     (if base_addr (memregions s r) < addr then
        upd_mr nb (\<lambda>m. m\<lparr>base_addr := base_addr (memregions s r), ceiling_addr := addr, mr_as := Some a,
            mr_type := MR_TYPE_FREE, mr_flags := 0\<rparr>)
          (upd_as a (\<lambda>x. x\<lparr>free_memregion_list := nb # free_memregion_list x,
               sorted_memregion_list := insert_before r nb (sorted_memregion_list x)\<rparr>) s)
      else s\<lparr>unused_memregion_list := nb # unused_memregion_list s\<rparr>)"

text \<open>The address space is stored in \<open>mrbase\<close> a second time, not in \<open>mrtail\<close>.\<close>

definition keep_tail :: "nat \<Rightarrow> nat \<Rightarrow> nat \<Rightarrow> nat \<Rightarrow> nat \<Rightarrow> vm \<Rightarrow> vm" where
  "keep_tail a r hi nb nt s =
     (if hi < ceiling_addr (memregions s r) then
        upd_mr nt (\<lambda>m. m\<lparr>base_addr := hi, ceiling_addr := ceiling_addr (memregions s r),
            mr_type := MR_TYPE_FREE, mr_flags := 0\<rparr>)
          (upd_mr nb (\<lambda>m. m\<lparr>mr_as := Some a\<rparr>)
            (upd_as a (\<lambda>x. x\<lparr>free_memregion_list := nt # free_memregion_list x,
                 sorted_memregion_list := insert_after r nt (sorted_memregion_list x)\<rparr>) s))
      else s\<lparr>unused_memregion_list := nt # unused_memregion_list s\<rparr>)"

definition memregion_create ::
    "bool \<Rightarrow> nat \<Rightarrow> nat \<Rightarrow> nat \<Rightarrow> u32 \<Rightarrow> mr_type \<Rightarrow> vm \<Rightarrow> nat option \<times> vm" where
  "memregion_create fixed a addr0 sz flags ty s =
     (case choose_region fixed a addr0 sz s of
        (None, s1) \<Rightarrow> (None, s1)
      | (Some (r, addr), s1) \<Rightarrow>
          (case unused_memregion_list s1 of
             nb # nt # us \<Rightarrow>
               (let s2 = keep_base a r addr nb (s1\<lparr>unused_memregion_list := us\<rparr>);
                    s3 = keep_tail a r (plus32 addr sz) nb nt s2;
                    s4 = upd_as a (\<lambda>x. x\<lparr>free_memregion_list := remove1 r (free_memregion_list x)\<rparr>) s3
                in (Some r, upd_mr r (\<lambda>m. m\<lparr>base_addr := addr, ceiling_addr := plus32 addr sz, mr_as := Some a,
                      mr_type := ty, mr_flags := flags\<rparr>) s4))
           | _ \<Rightarrow> (None, s1)))"

definition memregion_split :: "nat \<Rightarrow> nat \<Rightarrow> vm \<Rightarrow> unit result \<times> vm" where
  "memregion_split a addr s =
     (case memregion_find_sorted a addr s of
        (None, s1) \<Rightarrow> (Inl EINVAL, s1)
      | (Some r, s1) \<Rightarrow>
          (let m = memregions s1 r
           in if addr = base_addr m \<or> addr = ceiling_addr m then (Inr (), s1)
              else case unused_memregion_list s1 of
                     [] \<Rightarrow> (Inl ENOMEM, s1)
                   | n # us \<Rightarrow>
                       (Inr (),
                        upd_mr r (\<lambda>x. x\<lparr>ceiling_addr := addr\<rparr>)
                         (upd_mr n (\<lambda>x. x\<lparr>base_addr := addr, ceiling_addr := ceiling_addr m, mr_type := mr_type m,
                              mr_flags := mr_flags m, mr_as := Some a,
                              phys_base_addr := (if mr_type m = MR_TYPE_PHYS
                                 then plus32 (phys_base_addr m) (addr - base_addr m) else 0)\<rparr>)
                          (upd_as a (\<lambda>x. x\<lparr>hint := None,
                               sorted_memregion_list := insert_after r n (sorted_memregion_list x),
                               free_memregion_list := (if mr_type m = MR_TYPE_FREE then n # free_memregion_list x
                                 else free_memregion_list x)\<rparr>)
                            (s1\<lparr>unused_memregion_list := us\<rparr>))))))"

text \<open>Give a region's addresses to the free region before it and drop the region.\<close>

definition merge_into :: "nat \<Rightarrow> nat \<Rightarrow> nat \<Rightarrow> vm \<Rightarrow> vm" where
  "merge_into a p r s =
     (let s1 = upd_mr p (\<lambda>m. m\<lparr>ceiling_addr := ceiling_addr (memregions s r)\<rparr>) s;
          s2 = upd_mr r (\<lambda>m. m\<lparr>mr_as := None, mr_type := MR_TYPE_UNALLOCATED\<rparr>) s1;
          s3 = upd_as a (\<lambda>x. x\<lparr>sorted_memregion_list := remove1 r (sorted_memregion_list x)\<rparr>) s2
      in s3\<lparr>unused_memregion_list := r # unused_memregion_list s3\<rparr>)"

text \<open>The loop over the regions from the one at \<open>addr\<close>, and the regions it leaves.\<close>

fun free_loop :: "nat \<Rightarrow> nat \<Rightarrow> nat \<Rightarrow> nat list \<Rightarrow> vm \<Rightarrow> nat list \<times> vm" where
  "free_loop a addr hi [] s = ([], s)"
| "free_loop a addr hi (r # rs) s =
     (if base_addr (memregions s r) < hi then
        (if base_addr (memregions s r) \<ge> addr \<and> ceiling_addr (memregions s r) \<le> hi then
           (case prev_of r (sorted_memregion_list (spaces s a)) of
              Some p \<Rightarrow>
                if mr_type (memregions s p) = MR_TYPE_FREE then free_loop a addr hi rs (merge_into a p r s)
                else free_loop a addr hi rs
                  (upd_as a (\<lambda>x. x\<lparr>free_memregion_list := r # free_memregion_list x\<rparr>)
                    (upd_mr r (\<lambda>m. m\<lparr>mr_type := MR_TYPE_FREE, mr_flags := 0\<rparr>) s))
            | None \<Rightarrow> free_loop a addr hi rs
                (upd_as a (\<lambda>x. x\<lparr>free_memregion_list := r # free_memregion_list x\<rparr>)
                  (upd_mr r (\<lambda>m. m\<lparr>mr_type := MR_TYPE_FREE, mr_flags := 0\<rparr>) s)))
         else free_loop a addr hi rs s)
      else (r # rs, s))"

definition memregion_free :: "nat \<Rightarrow> nat \<Rightarrow> nat \<Rightarrow> vm \<Rightarrow> unit result \<times> vm" where
  "memregion_free a addr sz s =
     (let (sc1, s1) = memregion_split a addr s;
          (sc2, s2) = memregion_split a (plus32 addr sz) s1
      in if sc1 \<noteq> Inr () \<or> sc2 \<noteq> Inr () then (Inl ENOMEM, s2)
         else case memregion_find_sorted a addr s2 of
                (None, s3) \<Rightarrow> (Inl EINVAL, s3)
              | (Some r, s3) \<Rightarrow>
                  (let s4 = upd_as a (\<lambda>x. x\<lparr>hint := None\<rparr>) s3;
                       (rest, s5) = free_loop a addr (plus32 addr sz)
                         (dropWhile (\<lambda>y. y \<noteq> r) (sorted_memregion_list (spaces s4 a))) s4
                   in case rest of
                        [] \<Rightarrow> (Inr (), s5)
                      | q # _ \<Rightarrow>
                          if mr_type (memregions s5 q) = MR_TYPE_FREE then
                            (case prev_of q (sorted_memregion_list (spaces s5 a)) of
                               Some p \<Rightarrow> if mr_type (memregions s5 p) = MR_TYPE_FREE then (Inr (), merge_into a p q s5) else (Inr (), s5)
                             | None \<Rightarrow> (Inr (), s5))
                          else (Inr (), s5)))"

definition memregion_protect :: "vm \<Rightarrow> unit result \<times> vm" where
  "memregion_protect s = (Inr (), s)"

fun drop_regions :: "nat \<Rightarrow> nat list \<Rightarrow> vm \<Rightarrow> vm" where
  "drop_regions a [] s = s"
| "drop_regions a (r # rs) s =
     (let s1 = (if mr_type (memregions s r) = MR_TYPE_FREE
                then upd_as a (\<lambda>x. x\<lparr>free_memregion_list := remove1 r (free_memregion_list x)\<rparr>) s else s);
          s2 = upd_mr r (\<lambda>m. m\<lparr>mr_as := None, mr_type := MR_TYPE_UNALLOCATED\<rparr>)
                (upd_as a (\<lambda>x. x\<lparr>sorted_memregion_list := rs\<rparr>) s1)
      in drop_regions a rs (s2\<lparr>unused_memregion_list := r # unused_memregion_list s2\<rparr>))"

definition memregion_free_all :: "nat \<Rightarrow> vm \<Rightarrow> vm" where
  "memregion_free_all a s =
     upd_as a (\<lambda>x. x\<lparr>hint := None\<rparr>) (drop_regions a (sorted_memregion_list (spaces s a)) s)"

definition init_memregions :: "nat \<Rightarrow> vm \<Rightarrow> unit result \<times> vm" where
  "init_memregions a s =
     (case unused_memregion_list s of
        [] \<Rightarrow> (Inl ENOMEM, upd_as a (\<lambda>_. \<lparr>sorted_memregion_list = [], free_memregion_list = [], hint = None\<rparr>) s)
      | r # us \<Rightarrow> (Inr (),
          upd_mr r (\<lambda>_. \<lparr>base_addr = VM_USER_BASE, ceiling_addr = VM_USER_CEILING, mr_as = Some a,
              mr_type = MR_TYPE_FREE, mr_flags = 0, phys_base_addr = 0\<rparr>)
            (upd_as a (\<lambda>_. \<lparr>sorted_memregion_list = [r], free_memregion_list = [r], hint = None\<rparr>)
              (s\<lparr>unused_memregion_list := us\<rparr>))))"

fun fork_loop :: "nat \<Rightarrow> nat list \<Rightarrow> vm \<Rightarrow> unit result \<times> vm" where
  "fork_loop na [] s = (Inr (), s)"
| "fork_loop na (old # olds) s =
     (case unused_memregion_list s of
        [] \<Rightarrow> (Inl ENOMEM, memregion_free_all na s)
      | n # us \<Rightarrow>
          (let m = memregions s old
           in fork_loop na olds
                (upd_mr n (\<lambda>_. m\<lparr>mr_as := Some na\<rparr>)
                  (upd_as na (\<lambda>x. x\<lparr>sorted_memregion_list := sorted_memregion_list x @ [n],
                      free_memregion_list := (if mr_type m = MR_TYPE_FREE then free_memregion_list x @ [n]
                        else free_memregion_list x)\<rparr>)
                    (s\<lparr>unused_memregion_list := us\<rparr>)))))"

definition fork_memregions :: "nat \<Rightarrow> nat \<Rightarrow> vm \<Rightarrow> unit result \<times> vm" where
  "fork_memregions na oa s =
     fork_loop na (sorted_memregion_list (spaces s oa))
       (upd_as na (\<lambda>_. \<lparr>sorted_memregion_list = [], free_memregion_list = [], hint = None\<rparr>) s)"

section \<open>Bounds\<close>

text \<open>The limits of the kernel's part are those of the board.\<close>

definition range_check :: "nat \<Rightarrow> nat \<Rightarrow> nat \<Rightarrow> nat \<Rightarrow> unit result" where
  "range_check lo hi addr sz =
     (if sz \<ge> 2 ^ 31 then Inl E2BIG
      else if addr < lo \<or> addr \<ge> hi \<or> sz \<ge> hi - addr then Inl EFAULT
      else Inr ())"

definition bounds_check :: "nat \<Rightarrow> nat \<Rightarrow> unit result" where
  "bounds_check addr sz = range_check VM_USER_BASE VM_USER_CEILING addr sz"

definition bounds_check_kernel :: "nat \<Rightarrow> nat \<Rightarrow> nat \<Rightarrow> nat \<Rightarrow> unit result" where
  "bounds_check_kernel VM_KERNEL_BASE VM_KERNEL_CEILING addr sz = range_check VM_KERNEL_BASE VM_KERNEL_CEILING addr sz"

section \<open>Invariant\<close>

text \<open>Regions that follow one another without gaps from \<open>lo\<close> to \<open>hi\<close>.\<close>

fun tiles :: "(nat \<Rightarrow> memregion) \<Rightarrow> nat \<Rightarrow> nat \<Rightarrow> nat list \<Rightarrow> bool" where
  "tiles m lo hi [] \<longleftrightarrow> lo = hi"
| "tiles m lo hi (r # rs) \<longleftrightarrow> base_addr (m r) = lo \<and> lo < ceiling_addr (m r) \<and> tiles m (ceiling_addr (m r)) hi rs"

definition regions_ok :: "nat \<Rightarrow> vm \<Rightarrow> bool" where
  "regions_ok a s \<longleftrightarrow>
     (let rs = sorted_memregion_list (spaces s a); fr = free_memregion_list (spaces s a); m = memregions s
      in tiles m VM_USER_BASE VM_USER_CEILING rs \<and> distinct (rs @ unused_memregion_list s)
         \<and> distinct fr \<and> set fr = {r \<in> set rs. mr_type (m r) = MR_TYPE_FREE}
         \<and> (\<forall>r \<in> set rs. mr_type (m r) \<noteq> MR_TYPE_UNALLOCATED)
         \<and> (\<forall>r \<in> set fr. mr_flags (m r) = 0)
         \<and> set_option (hint (spaces s a)) \<subseteq> set rs)"

text \<open>What the address space says of an address.\<close>

definition region_at :: "(nat \<Rightarrow> memregion) \<Rightarrow> nat list \<Rightarrow> nat \<Rightarrow> (mr_type \<times> u32) option" where
  "region_at m rs x = map_option (\<lambda>r. (mr_type (m r), mr_flags (m r)))
     (find (\<lambda>r. base_addr (m r) \<le> x \<and> x < ceiling_addr (m r)) rs)"

definition mapping :: "nat \<Rightarrow> vm \<Rightarrow> nat \<Rightarrow> (mr_type \<times> u32) option" where
  "mapping a s = region_at (memregions s) (sorted_memregion_list (spaces s a))"

lemma insert_split:
  assumes "r \<notin> set us"
  shows "insert_before r n (us @ r # vs) = us @ n # r # vs" "insert_after r n (us @ r # vs) = us @ r # n # vs"
  using assms by (induction us) auto

lemma tiles_append: "tiles m lo hi (us @ vs) \<longleftrightarrow> (\<exists>mid. tiles m lo mid us \<and> tiles m mid hi vs)"
  by (induction us arbitrary: lo) auto

lemma tiles_le: "tiles m lo hi rs \<Longrightarrow> lo \<le> hi"
  by (induction rs arbitrary: lo) (auto intro: order_trans less_imp_le)

lemma tiles_member: "tiles m lo hi rs \<Longrightarrow> r \<in> set rs \<Longrightarrow> lo \<le> base_addr (m r) \<and> ceiling_addr (m r) \<le> hi"
proof (induction rs arbitrary: lo)
  case (Cons q rs)
  then show ?case using tiles_le [of m "ceiling_addr (m q)" hi rs] by fastforce
qed simp

lemma tiles_cong: "(\<And>r. r \<in> set rs \<Longrightarrow> m r = m' r) \<Longrightarrow> tiles m lo hi rs = tiles m' lo hi rs"
  by (induction rs arbitrary: lo) auto

lemma region_at_simps [simp]:
  "region_at m [] x = None"
  "region_at m (r # rs) x = (if base_addr (m r) \<le> x \<and> x < ceiling_addr (m r) then Some (mr_type (m r), mr_flags (m r)) else region_at m rs x)"
  by (simp_all add: region_at_def)

lemma region_at_append: "region_at m (us @ vs) x = (case region_at m us x of None \<Rightarrow> region_at m vs x | Some y \<Rightarrow> Some y)"
  by (induction us) auto

lemma region_at_cong: "(\<And>r. r \<in> set rs \<Longrightarrow> m r = m' r) \<Longrightarrow> region_at m rs x = region_at m' rs x"
  by (induction rs) auto

lemma region_at_None: "tiles m lo hi rs \<Longrightarrow> region_at m rs x = None \<longleftrightarrow> x < lo \<or> hi \<le> x"
proof (induction rs arbitrary: lo)
  case (Cons r rs)
  then show ?case using tiles_le [of m "ceiling_addr (m r)" hi rs] by auto
qed auto

lemma regions_okD:
  assumes "regions_ok a s"
  defines "rs \<equiv> sorted_memregion_list (spaces s a)" and "m \<equiv> memregions s"
  shows "tiles m VM_USER_BASE VM_USER_CEILING rs" "distinct rs" "distinct (unused_memregion_list s)"
    "set rs \<inter> set (unused_memregion_list s) = {}" "distinct (free_memregion_list (spaces s a))"
    "r \<in> set (free_memregion_list (spaces s a)) \<longleftrightarrow> r \<in> set rs \<and> mr_type (m r) = MR_TYPE_FREE"
    "r \<in> set rs \<Longrightarrow> mr_type (m r) \<noteq> MR_TYPE_UNALLOCATED"
    "r \<in> set rs \<Longrightarrow> mr_type (m r) = MR_TYPE_FREE \<Longrightarrow> mr_flags (m r) = 0"
    "hint (spaces s a) = Some h \<Longrightarrow> h \<in> set rs"
  using assms by (auto simp: regions_ok_def Let_def)

lemma find_covers:
  "find (covers s x) rs = Some r \<Longrightarrow> r \<in> set rs \<and> covers s x r"
  by (auto simp: find_Some_iff)

lemma choose_region_spec:
  assumes ok: "regions_ok a s" and call: "choose_region fixed a addr0 sz s = (Some (r, addr), s1)"
    and no_wrap: "fixed \<Longrightarrow> addr0 + sz < 2 ^ 32"
  shows "\<exists>h. s1 = upd_as a (\<lambda>x. x\<lparr>hint := h\<rparr>) s \<and> set_option h \<subseteq> set (sorted_memregion_list (spaces s a))"
    and "r \<in> set (sorted_memregion_list (spaces s a))" "mr_type (memregions s r) = MR_TYPE_FREE"
    and "base_addr (memregions s r) \<le> addr" "addr < ceiling_addr (memregions s r)" "addr + sz \<le> ceiling_addr (memregions s r)"
    and "if fixed then addr = addr0 else PAGE_SIZE dvd addr"
proof -
  note D = regions_okD [OF ok]
  have id: "s = upd_as a (\<lambda>x. x\<lparr>hint := hint (spaces s a)\<rparr>) s" by (simp add: upd_as_def)
  have hint: "set_option (hint (spaces s a)) \<subseteq> set (sorted_memregion_list (spaces s a))" using D(9) by auto
  have "(\<exists>h. s1 = upd_as a (\<lambda>x. x\<lparr>hint := h\<rparr>) s \<and> set_option h \<subseteq> set (sorted_memregion_list (spaces s a)))
    \<and> r \<in> set (sorted_memregion_list (spaces s a)) \<and> mr_type (memregions s r) = MR_TYPE_FREE
    \<and> base_addr (memregions s r) \<le> addr \<and> addr < ceiling_addr (memregions s r) \<and> addr + sz \<le> ceiling_addr (memregions s r)
    \<and> (if fixed then addr = addr0 else PAGE_SIZE dvd addr)"
  proof (cases fixed)
    case True
    then have t: "memregion_find_free a addr0 s = (Some r, s1)" "addr = addr0"
        "plus32 addr0 sz \<le> ceiling_addr (memregions s1 r)" "mr_type (memregions s1 r) = MR_TYPE_FREE"
      using call by (auto simp: choose_region_def split: prod.splits option.splits if_splits)
    have "plus32 addr0 sz = addr0 + sz" using no_wrap True by (simp add: plus32_def)
    moreover from t(1) consider "s1 = s" "hint (spaces s a) = Some r" "covers s addr0 r"
      | "s1 = upd_as a (\<lambda>x. x\<lparr>hint := Some r\<rparr>) s" "find (covers s addr0) (free_memregion_list (spaces s a)) = Some r"
      by (auto simp: memregion_find_free_def find_region_def split: option.splits if_splits)
    then have "(\<exists>h. s1 = upd_as a (\<lambda>x. x\<lparr>hint := h\<rparr>) s \<and> set_option h \<subseteq> set (sorted_memregion_list (spaces s a)))
        \<and> r \<in> set (sorted_memregion_list (spaces s a)) \<and> covers s addr0 r \<and> memregions s1 = memregions s"
    proof cases
      case 1
      then show ?thesis using id hint D(9) by blast
    next
      case 2
      then show ?thesis using find_covers [OF 2(2)] D(6) by auto
    qed
    ultimately show ?thesis using True t by (auto simp: covers_def)
  next
    case False
    with call have t: "find (fits s sz) (free_memregion_list (spaces s a)) = Some r" "addr = ALIGN_UP (base_addr (memregions s r))" "s1 = s"
      by (auto simp: choose_region_def split: option.splits)
    from t(1) have r: "r \<in> set (free_memregion_list (spaces s a))" "fits s sz r" by (auto simp: find_Some_iff)
    have "r \<in> set (sorted_memregion_list (spaces s a))" "mr_type (memregions s r) = MR_TYPE_FREE" using r(1) D(6) by auto
    moreover have "PAGE_SIZE dvd addr" by (simp add: t(2) ALIGN_UP_def)
    moreover have "base_addr (memregions s r) \<le> addr \<and> addr < ceiling_addr (memregions s r) \<and> addr + sz \<le> ceiling_addr (memregions s r)"
      using r(2) t(2) by (auto simp: fits_def Let_def)
    moreover have "\<exists>h. s1 = upd_as a (\<lambda>x. x\<lparr>hint := h\<rparr>) s \<and> set_option h \<subseteq> set (sorted_memregion_list (spaces s a))"
      using id hint t(3) by blast
    ultimately show ?thesis using False by (simp only: if_False simp_thms)
  qed
  then show "\<exists>h. s1 = upd_as a (\<lambda>x. x\<lparr>hint := h\<rparr>) s \<and> set_option h \<subseteq> set (sorted_memregion_list (spaces s a))"
    "r \<in> set (sorted_memregion_list (spaces s a))" "mr_type (memregions s r) = MR_TYPE_FREE"
    "base_addr (memregions s r) \<le> addr" "addr < ceiling_addr (memregions s r)" "addr + sz \<le> ceiling_addr (memregions s r)"
    "if fixed then addr = addr0 else PAGE_SIZE dvd addr" by blast+
qed

text \<open>The table and the list after a region \<open>r\<close> is cut down to \<open>addr\<close> and \<open>hi\<close>.\<close>

definition cut_regions :: "bool \<Rightarrow> bool \<Rightarrow> nat \<Rightarrow> nat \<Rightarrow> nat \<Rightarrow> nat list \<Rightarrow> nat list \<Rightarrow> nat list" where
  "cut_regions lower upper nb r nt us vs = us @ (if lower then [nb] else []) @ [r] @ (if upper then [nt] else []) @ vs"

text \<open>The address space \<open>s'\<close> that cutting \<open>r\<close> down to \<open>addr\<close> and \<open>hi\<close> makes of \<open>s\<close>.\<close>

definition carved :: "nat \<Rightarrow> nat list \<Rightarrow> nat \<Rightarrow> nat list \<Rightarrow> nat \<Rightarrow> nat \<Rightarrow> nat list \<Rightarrow> nat \<Rightarrow> nat \<Rightarrow> mr_type \<Rightarrow> u32 \<Rightarrow> vm \<Rightarrow> vm \<Rightarrow> bool" where
  "carved a us r vs nb nt un addr hi ty flags s s' \<longleftrightarrow>
     (let lower = base_addr (memregions s r) < addr; upper = hi < ceiling_addr (memregions s r)
      in sorted_memregion_list (spaces s' a) = cut_regions lower upper nb r nt us vs
         \<and> free_memregion_list (spaces s' a) = remove1 r ((if upper then [nt] else []) @ (if lower then [nb] else [])
              @ free_memregion_list (spaces s a))
         \<and> hint (spaces s' a) = hint (spaces s a)
         \<and> unused_memregion_list s' = (if upper then [] else [nt]) @ (if lower then [] else [nb]) @ un
         \<and> (\<forall>q. q \<noteq> r \<and> q \<noteq> nb \<and> q \<noteq> nt \<longrightarrow> memregions s' q = memregions s q)
         \<and> base_addr (memregions s' r) = addr \<and> ceiling_addr (memregions s' r) = hi
         \<and> mr_type (memregions s' r) = ty \<and> mr_flags (memregions s' r) = flags
         \<and> (lower \<longrightarrow> base_addr (memregions s' nb) = base_addr (memregions s r) \<and> ceiling_addr (memregions s' nb) = addr
              \<and> mr_type (memregions s' nb) = MR_TYPE_FREE \<and> mr_flags (memregions s' nb) = 0)
         \<and> (upper \<longrightarrow> base_addr (memregions s' nt) = hi \<and> ceiling_addr (memregions s' nt) = ceiling_addr (memregions s r)
              \<and> mr_type (memregions s' nt) = MR_TYPE_FREE \<and> mr_flags (memregions s' nt) = 0))"

lemma create_regions:
  assumes rs: "sorted_memregion_list (spaces s a) = us @ r # vs" "r \<notin> set us" and un: "unused_memregion_list s = nb # nt # un"
    and new: "nb \<noteq> nt" "nb \<notin> set (us @ r # vs)" "nt \<notin> set (us @ r # vs)"
    and ch: "choose_region fixed a addr0 sz s0 = (Some (r, addr), s)"
  shows "\<exists>s'. memregion_create fixed a addr0 sz flags ty s0 = (Some r, s')
     \<and> carved a us r vs nb nt un addr (plus32 addr sz) ty flags s s'"
proof -
  have ins: "insert_before r nb (us @ r # vs) = us @ nb # r # vs" "insert_after r nt (us @ r # vs) = us @ r # nt # vs"
    "insert_after r nt (us @ nb # r # vs) = us @ nb # r # nt # vs"
    using insert_split [OF rs(2)] insert_split(2) [of r "us @ [nb]" nt vs] new(2) rs(2) by auto
  show ?thesis
    using ch un new ins rs(1)
    by (cases "base_addr (memregions s r) < addr"; cases "plus32 addr sz < ceiling_addr (memregions s r)")
      (simp_all add: memregion_create_def keep_base_def keep_tail_def cut_regions_def carved_def Let_def)
qed

lemma regions_ok_hint:
  assumes "regions_ok a s" "set_option h \<subseteq> set (sorted_memregion_list (spaces s a))"
  shows "regions_ok a (upd_as a (\<lambda>x. x\<lparr>hint := h\<rparr>) s)" "mapping a (upd_as a (\<lambda>x. x\<lparr>hint := h\<rparr>) s) = mapping a s"
  using assms by (auto simp: regions_ok_def mapping_def Let_def)

lemma choose_region_frame:
  assumes "regions_ok a s"
  shows "regions_ok a (snd (choose_region fixed a addr0 sz s)) \<and> mapping a (snd (choose_region fixed a addr0 sz s)) = mapping a s"
proof -
  have "snd (choose_region fixed a addr0 sz s) = s \<or>
     (\<exists>r. find (covers s addr0) (free_memregion_list (spaces s a)) = Some r
       \<and> snd (choose_region fixed a addr0 sz s) = upd_as a (\<lambda>x. x\<lparr>hint := Some r\<rparr>) s)"
    by (auto simp: choose_region_def memregion_find_free_def find_region_def split: option.splits prod.splits if_splits)
  then show ?thesis
  proof (elim disjE exE conjE)
    fix r assume r: "find (covers s addr0) (free_memregion_list (spaces s a)) = Some r"
      "snd (choose_region fixed a addr0 sz s) = upd_as a (\<lambda>x. x\<lparr>hint := Some r\<rparr>) s"
    have "r \<in> set (sorted_memregion_list (spaces s a))" using find_covers [OF r(1)] regions_okD(6) [OF assms] by blast
    then show ?thesis unfolding r(2) using regions_ok_hint [OF assms, of "Some r"] by simp
  qed (simp add: assms)
qed

lemma cut_tiles:
  assumes "tiles m lo hi us" "tiles m top' hi' vs" "\<And>q. q \<in> set us \<union> set vs \<Longrightarrow> m' q = m q"
    and "base_addr (m' r) = addr" "ceiling_addr (m' r) = addr + sz" "0 < sz"
    and "hi \<le> addr" "addr + sz \<le> top'"
    and "hi < addr \<Longrightarrow> base_addr (m' nb) = hi \<and> ceiling_addr (m' nb) = addr"
    and "addr + sz < top' \<Longrightarrow> base_addr (m' nt) = addr + sz \<and> ceiling_addr (m' nt) = top'"
  shows "tiles m' lo hi' (cut_regions (hi < addr) (addr + sz < top') nb r nt us vs)"
proof -
  have "tiles m' lo hi us" "tiles m' top' hi' vs" using assms(1-3) tiles_cong [of us m' m] tiles_cong [of vs m' m] by auto
  then show ?thesis using assms(4-) by (auto simp: cut_regions_def tiles_append)
qed

lemma cut_mapping:
  assumes "tiles m lo hi us" "tiles m top' hi' vs" "\<And>q. q \<in> set us \<union> set vs \<Longrightarrow> m' q = m q"
    and "base_addr (m' r) = addr" "ceiling_addr (m' r) = addr + sz" "mr_type (m' r) = ty" "mr_flags (m' r) = fl"
    and "hi \<le> addr" "addr + sz \<le> top'"
    and old: "base_addr (m r) = hi" "ceiling_addr (m r) = top'" "mr_type (m r) = MR_TYPE_FREE" "mr_flags (m r) = 0"
    and "hi < addr \<Longrightarrow> base_addr (m' nb) = hi \<and> ceiling_addr (m' nb) = addr \<and> mr_type (m' nb) = MR_TYPE_FREE \<and> mr_flags (m' nb) = 0"
    and "addr + sz < top' \<Longrightarrow> base_addr (m' nt) = addr + sz \<and> ceiling_addr (m' nt) = top' \<and> mr_type (m' nt) = MR_TYPE_FREE \<and> mr_flags (m' nt) = 0"
  shows "region_at m' (cut_regions (hi < addr) (addr + sz < top') nb r nt us vs) x =
     (if addr \<le> x \<and> x < addr + sz then Some (ty, fl) else region_at m (us @ r # vs) x)"
proof -
  have eq: "region_at m' us x = region_at m us x" "region_at m' vs x = region_at m vs x"
    using assms(3) by (auto intro: region_at_cong)
  have us: "region_at m us x = None \<longleftrightarrow> x < lo \<or> hi \<le> x" and vs: "region_at m vs x = None \<longleftrightarrow> x < top' \<or> hi' \<le> x"
    using assms(1,2) by (simp_all add: region_at_None)
  show ?thesis
    unfolding cut_regions_def region_at_append eq using us vs assms(4-)
    by (cases "region_at m us x") auto
qed

lemma carved_free:
  assumes ok: "regions_ok a s" and rs: "sorted_memregion_list (spaces s a) = us @ r # vs" and un: "unused_memregion_list s = nb # nt # un"
    and ty: "ty \<notin> {MR_TYPE_FREE, MR_TYPE_UNALLOCATED}" and r: "mr_type (memregions s r) = MR_TYPE_FREE"
    and c: "carved a us r vs nb nt un addr hi ty flags s s'"
  shows "distinct (sorted_memregion_list (spaces s' a) @ unused_memregion_list s')"
    "distinct (free_memregion_list (spaces s' a))"
    "set (free_memregion_list (spaces s' a)) = {q \<in> set (sorted_memregion_list (spaces s' a)). mr_type (memregions s' q) = MR_TYPE_FREE}"
    "\<forall>q \<in> set (sorted_memregion_list (spaces s' a)). mr_type (memregions s' q) \<noteq> MR_TYPE_UNALLOCATED"
    "\<forall>q \<in> set (free_memregion_list (spaces s' a)). mr_flags (memregions s' q) = 0"
    "set_option (hint (spaces s' a)) \<subseteq> set (sorted_memregion_list (spaces s' a))"
proof -
  note D = regions_okD [OF ok, unfolded rs un]
  have dist: "distinct us" "distinct vs" "r \<notin> set us" "r \<notin> set vs" "set us \<inter> set vs = {}" "nb \<noteq> nt" "distinct un"
    "nb \<notin> set us" "nb \<notin> set vs" "nb \<noteq> r" "nt \<notin> set us" "nt \<notin> set vs" "nt \<noteq> r" "nb \<notin> set un" "nt \<notin> set un"
    "set un \<inter> set us = {}" "set un \<inter> set vs = {}" "r \<notin> set un"
    using D(2-4) by auto
  have fr: "distinct (free_memregion_list (spaces s a))"
    "set (free_memregion_list (spaces s a)) = {q \<in> set us \<union> set vs \<union> {r}. mr_type (memregions s q) = MR_TYPE_FREE}"
    using D(5,6) by auto
  then have nfr: "nb \<notin> set (free_memregion_list (spaces s a))" "nt \<notin> set (free_memregion_list (spaces s a))" using dist by auto
  have keep: "memregions s' q = memregions s q" if "q \<in> set us \<union> set vs" for q
    using c dist that unfolding carved_def Let_def by auto
  note c = c [unfolded carved_def Let_def cut_regions_def]
  show "distinct (sorted_memregion_list (spaces s' a) @ unused_memregion_list s')" using c dist by auto
  show "distinct (free_memregion_list (spaces s' a))" using c dist fr nfr by (simp add: distinct_remove1)
  have set_fr: "set (free_memregion_list (spaces s' a)) = (if hi < ceiling_addr (memregions s r) then {nt} else {})
      \<union> (if base_addr (memregions s r) < addr then {nb} else {}) \<union> (set (free_memregion_list (spaces s a)) - {r})"
    using c dist fr nfr by (auto simp: set_remove1_eq)
  show "set (free_memregion_list (spaces s' a)) = {q \<in> set (sorted_memregion_list (spaces s' a)). mr_type (memregions s' q) = MR_TYPE_FREE}"
    unfolding set_fr fr(2) using c ty keep dist(3,4) by (auto split: if_splits)
  show "\<forall>q \<in> set (sorted_memregion_list (spaces s' a)). mr_type (memregions s' q) \<noteq> MR_TYPE_UNALLOCATED"
    using c ty keep D(7) by (auto split: if_splits)
  show "\<forall>q \<in> set (free_memregion_list (spaces s' a)). mr_flags (memregions s' q) = 0"
    unfolding set_fr fr(2) using c keep D(8) by (auto split: if_splits)
  show "set_option (hint (spaces s' a)) \<subseteq> set (sorted_memregion_list (spaces s' a))"
    using c D(9) by (cases "hint (spaces s a)") auto
qed

lemma carved_ok:
  assumes ok: "regions_ok a s" and rs: "sorted_memregion_list (spaces s a) = us @ r # vs" and un: "unused_memregion_list s = nb # nt # un"
    and ty: "ty \<notin> {MR_TYPE_FREE, MR_TYPE_UNALLOCATED}" and r: "mr_type (memregions s r) = MR_TYPE_FREE"
    and c: "carved a us r vs nb nt un addr (addr + sz) ty flags s s'"
    and bounds: "base_addr (memregions s r) \<le> addr" "addr + sz \<le> ceiling_addr (memregions s r)" "0 < sz"
  shows "regions_ok a s'" "mapping a s' x = (if addr \<le> x \<and> x < addr + sz then Some (ty, flags) else mapping a s x)"
    "addr \<le> x \<Longrightarrow> x < addr + sz \<Longrightarrow> mapping a s x = Some (MR_TYPE_FREE, 0)"
proof -
  let ?m = "memregions s" and ?hi = "base_addr (memregions s r)" and ?top = "ceiling_addr (memregions s r)"
  note D = regions_okD [OF ok, unfolded rs un]
  have t: "tiles ?m VM_USER_BASE ?hi us" "tiles ?m ?top VM_USER_CEILING vs" using D(1) by (auto simp: tiles_append)
  have fl: "mr_flags (?m r) = 0" using D(8) [of r] r by simp
  note c' = c [unfolded carved_def Let_def]
  have keep: "\<And>q. q \<in> set us \<union> set vs \<Longrightarrow> memregions s' q = ?m q" using c' D(2-4) by auto
  have "tiles (memregions s') VM_USER_BASE VM_USER_CEILING (cut_regions (?hi < addr) (addr + sz < ?top) nb r nt us vs)"
    using cut_tiles [OF t keep] c' bounds by blast
  then have tl: "tiles (memregions s') VM_USER_BASE VM_USER_CEILING (sorted_memregion_list (spaces s' a))" using c' by metis
  show "regions_ok a s'"
    unfolding regions_ok_def Let_def by (intro conjI tl carved_free [OF ok rs un ty r c])
  show "mapping a s' x = (if addr \<le> x \<and> x < addr + sz then Some (ty, flags) else mapping a s x)"
    unfolding mapping_def rs using cut_mapping [OF t keep] c' bounds r fl by metis
  show "mapping a s x = Some (MR_TYPE_FREE, 0)" if "addr \<le> x" "x < addr + sz"
    using that r fl bounds region_at_None [OF t(1), of x] unfolding mapping_def rs region_at_append by (auto split: option.splits)
qed

text \<open>
  C30. Creating a region. From a consistent address space - regions that cover the user part without
  gaps or overlaps, the free ones and only those on the free list - \<open>memregion_create\<close> either fails
  and changes nothing that can be seen, or gives a region of exactly the size asked for, at the
  address asked for with \<open>MAP_FIXED\<close> and on a page boundary without, all of which was free; what is
  mapped elsewhere stays the same, and the address space stays consistent. With \<open>MAP_FIXED\<close> the end
  of the request must not wrap around.
\<close>

theorem memregion_create_correct:
  assumes "regions_ok a s" "0 < sz" "ty \<in> {MR_TYPE_ALLOC, MR_TYPE_PHYS}" "fixed \<longrightarrow> addr0 + sz < 2 ^ 32"
  shows "case memregion_create fixed a addr0 sz flags ty s of
     (None, s') \<Rightarrow> regions_ok a s' \<and> mapping a s' = mapping a s
   | (Some r, s') \<Rightarrow> regions_ok a s'
       \<and> (let b = base_addr (memregions s' r)
          in (if fixed then b = addr0 else PAGE_SIZE dvd b) \<and> ceiling_addr (memregions s' r) = b + sz
             \<and> (\<forall>x. b \<le> x \<and> x < b + sz \<longrightarrow> mapping a s x = Some (MR_TYPE_FREE, 0))
             \<and> mapping a s' = (\<lambda>x. if b \<le> x \<and> x < b + sz then Some (ty, flags) else mapping a s x))"
proof (cases "choose_region fixed a addr0 sz s")
  case (Pair ra s1)
  with choose_region_frame [OF assms(1), of fixed addr0 sz] have s1: "regions_ok a s1" "mapping a s1 = mapping a s" by auto
  show ?thesis
  proof (cases "\<exists>r addr nb nt un. ra = Some (r, addr) \<and> unused_memregion_list s1 = nb # nt # un")
    case False
    then have "memregion_create fixed a addr0 sz flags ty s = (None, s1)"
      using Pair by (auto simp: memregion_create_def split: option.splits prod.splits list.splits)
    with s1 show ?thesis by simp
  next
    case True
    then obtain r addr nb nt un where ch: "choose_region fixed a addr0 sz s = (Some (r, addr), s1)"
      and un: "unused_memregion_list s1 = nb # nt # un" using Pair by blast
    note C = choose_region_spec [OF assms(1) ch]
    have no: "fixed \<Longrightarrow> addr0 + sz < 2 ^ 32" using assms(4) by blast
    from C(1) [OF no] obtain h where h: "s1 = upd_as a (\<lambda>x. x\<lparr>hint := h\<rparr>) s" by auto
    then have same: "memregions s1 = memregions s" "sorted_memregion_list (spaces s1 a) = sorted_memregion_list (spaces s a)" by simp_all
    note D = regions_okD [OF s1(1)]
    obtain us vs where rs: "sorted_memregion_list (spaces s1 a) = us @ r # vs" "r \<notin> set us"
      using split_list_first [OF C(2) [OF no]] same(2) by auto
    have r: "mr_type (memregions s1 r) = MR_TYPE_FREE" "base_addr (memregions s1 r) \<le> addr" "addr + sz \<le> ceiling_addr (memregions s1 r)"
      using C(3,4,6) [OF no] same(1) by simp_all
    have new: "nb \<noteq> nt" "nb \<notin> set (us @ r # vs)" "nt \<notin> set (us @ r # vs)" using D(3,4) un rs(1) by auto
    have "ceiling_addr (memregions s1 r) \<le> VM_USER_CEILING" using tiles_member [OF D(1), of r] rs(1) by simp
    then have "plus32 addr sz = addr + sz" using r(3) by (simp add: plus32_def VM_USER_CEILING_def)
    then obtain s' where s': "memregion_create fixed a addr0 sz flags ty s = (Some r, s')"
      "carved a us r vs nb nt un addr (addr + sz) ty flags s1 s'"
      using create_regions [OF rs un new ch, of flags ty] by auto
    have ty: "ty \<notin> {MR_TYPE_FREE, MR_TYPE_UNALLOCATED}" using assms(3) by auto
    note K = carved_ok [OF s1(1) rs(1) un ty r(1) s'(2) r(2,3) assms(2)]
    have "base_addr (memregions s' r) = addr" "ceiling_addr (memregions s' r) = addr + sz"
      using s'(2) by (simp_all add: carved_def Let_def)
    moreover have "if fixed then addr = addr0 else PAGE_SIZE dvd addr" using C(7) [OF no] .
    ultimately show ?thesis using s'(1) K s1(2) by (simp add: Let_def fun_eq_iff)
  qed
qed

text \<open>An address space that \<open>init_memregions\<close> has just set up, with three more regions to give out.\<close>

definition one_space :: vm where
  "one_space = snd (init_memregions 0
     \<lparr>memregions = (\<lambda>_. \<lparr>base_addr = 0, ceiling_addr = 0, mr_as = None, mr_type = MR_TYPE_UNALLOCATED, mr_flags = 0, phys_base_addr = 0\<rparr>),
      unused_memregion_list = [0, 1, 2, 3, 4, 5, 6, 7],
      spaces = (\<lambda>_. \<lparr>sorted_memregion_list = [], free_memregion_list = [], hint = None\<rparr>)\<rparr>)"

lemma one_space_ok: "regions_ok 0 one_space"
  by (simp add: regions_ok_def one_space_def init_memregions_def Let_def VM_USER_BASE_def VM_USER_CEILING_def)

lemmas vm_compute =
  memregion_create_def choose_region_def memregion_find_free_def memregion_find_sorted_def find_region_def covers_def fits_def
  keep_base_def keep_tail_def memregion_free_def memregion_split_def merge_into_def prev_of_def plus32_def
  VM_USER_BASE_def VM_USER_CEILING_def mapping_def Let_def

lemma one_space_simps:
  "memregions one_space 0 = \<lparr>base_addr = 0x400000, ceiling_addr = 0x7F000000, mr_as = Some 0, mr_type = MR_TYPE_FREE, mr_flags = 0, phys_base_addr = 0\<rparr>"
  "unused_memregion_list one_space = [1, 2, 3, 4, 5, 6, 7]"
  "spaces one_space 0 = \<lparr>sorted_memregion_list = [0], free_memregion_list = [0], hint = None\<rparr>"
  by (simp_all add: one_space_def init_memregions_def VM_USER_BASE_def VM_USER_CEILING_def)

theorem memregion_create_correct_witness:
  "\<exists>s'. memregion_create True 0 0x500000 8192 3 MR_TYPE_ALLOC one_space = (Some 0, s') \<and> regions_ok 0 s'
     \<and> mapping 0 s' 0x501000 = Some (MR_TYPE_ALLOC, 3) \<and> mapping 0 s' 0x502000 = mapping 0 one_space 0x502000"
proof -
  have "fst (memregion_create True 0 0x500000 8192 3 MR_TYPE_ALLOC one_space) = Some 0"
    "base_addr (memregions (snd (memregion_create True 0 0x500000 8192 3 MR_TYPE_ALLOC one_space)) 0) = 0x500000"
    by (simp_all add: vm_compute one_space_simps)
  then show ?thesis
    using memregion_create_correct [OF one_space_ok, where sz = 8192 and ty = MR_TYPE_ALLOC and fixed = True and ?addr0.0 = "0x500000" and flags = 3]
    by (cases "memregion_create True 0 0x500000 8192 3 MR_TYPE_ALLOC one_space") (auto simp: Let_def)
qed

text \<open>
  Freeing a region that a free one follows gives the second one back while it is still on the free
  list: here region 2, the rest of the address space, is on both lists, and a later search of the
  free list can hand it out while another address space owns it.
\<close>

lemma memregion_free_dangles:
  "let s = snd (memregion_create True 0 0x400000 8192 3 MR_TYPE_ALLOC one_space);
       s' = snd (memregion_free 0 0x400000 8192 s)
   in fst (memregion_free 0 0x400000 8192 s) = Inr () \<and> sorted_memregion_list (spaces s' 0) = [0]
      \<and> free_memregion_list (spaces s' 0) = [0, 2] \<and> 2 \<in> set (unused_memregion_list s')"
  by (simp add: vm_compute one_space_simps)

text \<open>The last page of the user part cannot be freed: its end is in no region.\<close>

lemma memregion_free_at_ceiling:
  "let s = snd (memregion_create True 0 0x7EFFF000 4096 3 MR_TYPE_ALLOC one_space)
   in mapping 0 s 0x7EFFF000 = Some (MR_TYPE_ALLOC, 3) \<and> fst (memregion_free 0 0x7EFFF000 4096 s) = Inl ENOMEM"
  by (simp add: vm_compute one_space_simps)

end
