(* ===== verification/Cache.thy ===== *)
theory Cache
  imports Vfs Memregion Kernel_Lock
begin

text \<open>
  The file cache (\<open>fs/cache.c\<close>) and reading and writing files through it (\<open>fs/file.c\<close>). The entries
  of the cache are the physical pages (\<open>struct Page\<close>), named by their number in \<open>page_table\<close>. A
  call that may sleep is one pass of its loop, as in the other components: after \<open>Sleep\<close> the caller
  runs the pass again. Taking an entry off a list it has just been taken off leaves the list as it
  is (the links of the entry still name its old neighbours), which is what \<open>remove1\<close> does.
\<close>

unbundle bit_operations_syntax

section \<open>Pages\<close>

definition B_VALID :: u32 where "B_VALID = 4"
definition B_BUSY :: u32 where "B_BUSY = 8"
definition B_ERROR :: u32 where "B_ERROR = 16"
definition B_DISCARD :: u32 where "B_DISCARD = 32"
definition PAGE_LOOKUP_HASH_SZ :: u32 where "PAGE_LOOKUP_HASH_SZ = 1024"

text \<open>\<open>pg_data\<close> is the memory at \<open>vaddr\<close>; \<open>vpte_list\<close> is of the page's mappings.\<close>

record page =
  mflags :: u32
  pg_vnode :: "nat option"
  file_offset :: int
  bflags :: u32
  reference_cnt :: int
  vpte_list :: "(nat \<times> nat) list"
  pg_data :: "u8 list"

text \<open>\<open>page_list\<close> has for each vnode the pages of the file in the cache.\<close>

record cache =
  cfs :: fs
  pages :: "nat \<Rightarrow> page"
  free_page_queue :: "nat list"
  free_page_cnt :: int
  page_lookup_hash :: "nat \<Rightarrow> nat list"
  page_list :: "nat \<Rightarrow> nat list"

definition upd_page :: "nat \<Rightarrow> (page \<Rightarrow> page) \<Rightarrow> cache \<Rightarrow> cache" where
  "upd_page p f s = s\<lparr>pages := (pages s)(p := f (pages s p))\<rparr>"

lemma upd_page_simps [simp]:
  "cfs (upd_page p f s) = cfs s" "pages (upd_page p f s) = (pages s)(p := f (pages s p))"
  "free_page_queue (upd_page p f s) = free_page_queue s" "free_page_cnt (upd_page p f s) = free_page_cnt s"
  "page_lookup_hash (upd_page p f s) = page_lookup_hash s" "page_list (upd_page p f s) = page_list s"
  by (simp_all add: upd_page_def)

definition cache_wakeup :: "rendez \<Rightarrow> cache \<Rightarrow> cache option" where
  "cache_wakeup r s = map_option (\<lambda>f. s\<lparr>cfs := f\<rparr>) (wakeup_all r (cfs s))"

definition cache_sleep :: "rendez \<Rightarrow> cache \<Rightarrow> ('a pass \<times> cache) option" where
  "cache_sleep r s = map_option (\<lambda>k. (Sleep, s\<lparr>cfs := (cfs s)\<lparr>ks := k\<rparr>\<rparr>)) (TaskSleep r (ks (cfs s)))"

definition zero_page :: "u8 list" where "zero_page = replicate PAGE_SIZE 0"

section \<open>The lists of the cache\<close>

definition calc_page_lookup_hash :: "int \<Rightarrow> int \<Rightarrow> nat" where
  "calc_page_lookup_hash ino off =
     (let (a, b, c) = hash_final (hash_mix (of_int ino, of_int off, of_int (off div 2 ^ 32)))
      in unat (c mod PAGE_LOOKUP_HASH_SZ))"

definition find_blk :: "nat \<Rightarrow> int \<Rightarrow> cache \<Rightarrow> nat option" where
  "find_blk v off s =
     find (\<lambda>p. pg_vnode (pages s p) = Some v \<and> file_offset (pages s p) = off)
       (page_lookup_hash s (calc_page_lookup_hash (inode_nr (vnodes (cfs s) v)) off))"

definition find_available_blk :: "cache \<Rightarrow> nat option" where
  "find_available_blk s = last_opt (free_page_queue s)"

definition add_to_free_page_queue :: "nat \<Rightarrow> cache \<Rightarrow> cache" where
  "add_to_free_page_queue p s = s\<lparr>free_page_queue := p # free_page_queue s, free_page_cnt := free_page_cnt s + 1\<rparr>"

definition add_to_free_page_queue_tail :: "nat \<Rightarrow> cache \<Rightarrow> cache" where
  "add_to_free_page_queue_tail p s = s\<lparr>free_page_queue := free_page_queue s @ [p], free_page_cnt := free_page_cnt s + 1\<rparr>"

definition remove_from_free_page_queue :: "nat \<Rightarrow> cache \<Rightarrow> cache" where
  "remove_from_free_page_queue p s =
     s\<lparr>free_page_queue := remove1 p (free_page_queue s), free_page_cnt := free_page_cnt s - 1\<rparr>"

definition page_hash_index :: "nat \<Rightarrow> cache \<Rightarrow> nat option" where
  "page_hash_index p s =
     map_option (\<lambda>v. calc_page_lookup_hash (inode_nr (vnodes (cfs s) v)) (file_offset (pages s p))) (pg_vnode (pages s p))"

definition add_to_lookup_page_hash :: "nat \<Rightarrow> cache \<Rightarrow> cache option" where
  "add_to_lookup_page_hash p s = do {
     h \<leftarrow> page_hash_index p s;
     Some (s\<lparr>page_lookup_hash := (page_lookup_hash s)(h := p # page_lookup_hash s h)\<rparr>) }"

definition remove_from_lookup_page_hash :: "nat \<Rightarrow> cache \<Rightarrow> cache option" where
  "remove_from_lookup_page_hash p s = do {
     h \<leftarrow> page_hash_index p s;
     Some (s\<lparr>page_lookup_hash := (page_lookup_hash s)(h := remove1 p (page_lookup_hash s h))\<rparr>) }"

definition add_to_vnode_page_list :: "nat \<Rightarrow> cache \<Rightarrow> cache option" where
  "add_to_vnode_page_list p s = do {
     v \<leftarrow> pg_vnode (pages s p);
     Some (s\<lparr>page_list := (page_list s)(v := p # page_list s v)\<rparr>) }"

definition remove_from_vnode_page_list :: "nat \<Rightarrow> cache \<Rightarrow> cache option" where
  "remove_from_vnode_page_list p s = do {
     v \<leftarrow> pg_vnode (pages s p);
     Some (s\<lparr>page_list := (page_list s)(v := remove1 p (page_list s v))\<rparr>) }"

section \<open>Getting and releasing pages\<close>

text \<open>Take a page that \<open>find_available_blk\<close> has found, out of the file it caches.\<close>

definition take_available :: "nat \<Rightarrow> cache \<Rightarrow> cache option" where
  "take_available p s = do {
     kassert (bflags (pages s p) AND B_BUSY = 0);
     let s1 = remove_from_free_page_queue p (upd_page p (\<lambda>g. g\<lparr>bflags := bflags g OR B_BUSY\<rparr>) s);
     if bflags (pages s1 p) AND B_VALID \<noteq> 0 then do {
       s2 \<leftarrow> remove_from_lookup_page_hash p s1;
       s3 \<leftarrow> remove_from_vnode_page_list p s2;
       Some (upd_page p (\<lambda>g. g\<lparr>bflags := bflags g AND NOT B_VALID\<rparr>) s3) }
     else Some s1 }"

definition getblk :: "nat \<Rightarrow> int \<Rightarrow> cache \<Rightarrow> (nat option pass \<times> cache) option" where
  "getblk v off s =
     (if sb_flags (superblocks (cfs s) (v_superblock (vnodes (cfs s) v))) AND SBF_ABORT \<noteq> 0 then Some (Return None, s)
      else case find_blk v off s of
        Some p \<Rightarrow>
          if bflags (pages s p) AND B_BUSY \<noteq> 0 then cache_sleep (Rendez_page p) s
          else
            (let s1 = remove_from_free_page_queue p (upd_page p (\<lambda>g. g\<lparr>bflags := bflags g OR B_BUSY\<rparr>) s)
             in Some (Return (Some p),
                  if bflags (pages s1 p) AND B_VALID = 0 then upd_page p (\<lambda>g. g\<lparr>pg_data := zero_page\<rparr>) s1 else s1))
      | None \<Rightarrow>
          (case find_available_blk s of
             None \<Rightarrow> cache_sleep Rendez_page_list s
           | Some p \<Rightarrow> do {
               s1 \<leftarrow> take_available p s;
               s2 \<leftarrow> add_to_lookup_page_hash p (upd_page p (\<lambda>g. g\<lparr>pg_vnode := Some v, file_offset := off\<rparr>) s1);
               s3 \<leftarrow> add_to_vnode_page_list p s2;
               Some (Return (Some p), upd_page p (\<lambda>g. g\<lparr>pg_data := zero_page\<rparr>) s3) }))"

definition getblk_anon :: "cache \<Rightarrow> (nat pass \<times> cache) option" where
  "getblk_anon s =
     (case find_available_blk s of
        None \<Rightarrow> cache_sleep Rendez_page_list s
      | Some p \<Rightarrow> do {
          s1 \<leftarrow> take_available p s;
          Some (Return p, upd_page p (\<lambda>g. g\<lparr>pg_vnode := None, file_offset := 0, pg_data := zero_page\<rparr>) s1) })"

definition putblk_anon :: "nat \<Rightarrow> cache \<Rightarrow> cache option" where
  "putblk_anon p s =
     cache_wakeup Rendez_page_list
       (upd_page p (\<lambda>g. g\<lparr>bflags := bflags g AND NOT B_BUSY\<rparr>) (add_to_free_page_queue_tail p s))"

definition brelse :: "nat \<Rightarrow> cache \<Rightarrow> cache option" where
  "brelse p s = do {
     s1 \<leftarrow> (if bflags (pages s p) AND (B_ERROR OR B_DISCARD) \<noteq> 0 then do {
              s1 \<leftarrow> remove_from_lookup_page_hash p s;
              s2 \<leftarrow> remove_from_vnode_page_list p s1;
              Some (add_to_free_page_queue_tail p
                (upd_page p (\<lambda>g. g\<lparr>file_offset := 0, pg_vnode := None, bflags := 0\<rparr>) s2)) }
            else Some (add_to_free_page_queue p (upd_page p (\<lambda>g. g\<lparr>bflags := bflags g AND NOT B_BUSY\<rparr>) s)));
     s2 \<leftarrow> cache_wakeup Rendez_page_list s1;
     cache_wakeup (Rendez_page p) s2 }"

definition bdiscard :: "nat \<Rightarrow> cache \<Rightarrow> cache option" where
  "bdiscard p s = brelse p (upd_page p (\<lambda>g. g\<lparr>bflags := bflags g OR B_DISCARD\<rparr>) s)"

section \<open>Reading and writing blocks\<close>

text \<open>What the server writes to the page, and the zeros after what it says it has written.\<close>

definition put_page :: "u8 list \<Rightarrow> u8 list \<Rightarrow> u8 list" where
  "put_page new old = take PAGE_SIZE new @ drop (length new) old"

definition zero_from :: "nat \<Rightarrow> u8 list \<Rightarrow> u8 list" where
  "zero_from n d = take n d @ replicate (PAGE_SIZE - n) 0"

definition bread :: "ksend \<Rightarrow> nat \<Rightarrow> int \<Rightarrow> cache \<Rightarrow> (nat option pass \<times> cache) option" where
  "bread ksend v off s = do {
     (r, s1) \<leftarrow> getblk v off s;
     (case r of
        Return (Some p) \<Rightarrow>
          if bflags (pages s1 p) AND B_VALID \<noteq> 0 then Some (Return (Some p), s1)
          else do {
            (n, bytes, _, f) \<leftarrow> vfs_read ksend v KUCOPY PAGE_SIZE (Some off) (cfs s1);
            let s2 = upd_page p (\<lambda>g. g\<lparr>pg_data := put_page bytes (pg_data g)\<rparr>) (s1\<lparr>cfs := f\<rparr>);
            (case n of
               Inl _ \<Rightarrow> do {
                 s3 \<leftarrow> brelse p (upd_page p (\<lambda>g. g\<lparr>bflags := bflags g OR B_ERROR\<rparr>) s2);
                 Some (Return None, s3) }
             | Inr xfered \<Rightarrow> do {
                 kassert (xfered \<le> PAGE_SIZE);
                 if xfered = 0 then do {
                   s3 \<leftarrow> brelse p (upd_page p (\<lambda>g. g\<lparr>bflags := bflags g OR B_ERROR\<rparr>) s2);
                   Some (Return None, s3) }
                 else Some (Return (Some p),
                   upd_page p (\<lambda>g. g\<lparr>pg_data := zero_from xfered (pg_data g), bflags := bflags g OR B_VALID\<rparr>) s2) }) }
      | _ \<Rightarrow> Some (r, s1)) }"

text \<open>The page is dereferenced without a test for the null pointer.\<close>

definition bread_zero :: "nat \<Rightarrow> int \<Rightarrow> cache \<Rightarrow> (nat option pass \<times> cache) option" where
  "bread_zero v off s = do {
     (r, s1) \<leftarrow> getblk v off s;
     (case r of
        Return (Some p) \<Rightarrow>
          Some (Return (Some p), upd_page p (\<lambda>g. g\<lparr>pg_data := zero_page, bflags := bflags g OR B_VALID\<rparr>) s1)
      | Return None \<Rightarrow> None
      | _ \<Rightarrow> Some (r, s1)) }"

definition bytes_string :: "u8 list \<Rightarrow> string" where
  "bytes_string = map (\<lambda>b. char_of (unat b))"

definition bwrite_size :: "int \<Rightarrow> int \<Rightarrow> int" where
  "bwrite_size sz off = (if sz - off < int PAGE_SIZE then c_mod sz (int PAGE_SIZE) else int PAGE_SIZE)"

text \<open>The failure value -1 is \<open>-EPERM\<close>.\<close>

definition bwrite :: "ksend \<Rightarrow> nat \<Rightarrow> cache \<Rightarrow> (unit result \<times> cache) option" where
  "bwrite ksend p s = do {
     v \<leftarrow> pg_vnode (pages s p);
     let off = file_offset (pages s p);
     let nbytes = bwrite_size (v_size (vnodes (cfs s) v)) off;
     (n, _, f) \<leftarrow> vfs_write ksend v KUCOPY (bytes_string (take (nat nbytes) (pg_data (pages s p)))) (Some off) (cfs s);
     let s1 = s\<lparr>cfs := f\<rparr>;
     (case n of
        Inr xfered \<Rightarrow>
          if int xfered \<noteq> nbytes then do {
            s2 \<leftarrow> brelse p (upd_page p (\<lambda>g. g\<lparr>bflags := bflags g OR B_ERROR\<rparr>) s1);
            Some (Inl EPERM, s2) }
          else do { s2 \<leftarrow> brelse p s1; Some (Inr (), s2) }
      | Inl _ \<Rightarrow> do {
          s2 \<leftarrow> brelse p (upd_page p (\<lambda>g. g\<lparr>bflags := bflags g OR B_ERROR\<rparr>) s1);
          Some (Inl EPERM, s2) }) }"

section \<open>Pages of a whole file\<close>

definition mark_all_vnode_pages_as_busy :: "nat \<Rightarrow> cache \<Rightarrow> cache" where
  "mark_all_vnode_pages_as_busy v s =
     fold (\<lambda>p. upd_page p (\<lambda>g. g\<lparr>bflags := bflags g OR B_BUSY\<rparr>)) (page_list s v) s"

definition bsyncv :: "ksend \<Rightarrow> nat \<Rightarrow> cache \<Rightarrow> (unit result \<times> cache) option" where
  "bsyncv ksend v s = do {
     (_, f) \<leftarrow> vfs_fsync ksend v (cfs s);
     Some (Inr (), s\<lparr>cfs := f\<rparr>) }"

text \<open>The part that \<open>btruncatev\<close> and \<open>binvalidatev\<close> share: drop a page of the file.\<close>

definition drop_page :: "nat \<Rightarrow> cache \<Rightarrow> cache option" where
  "drop_page p s = do {
     let s1 = remove_from_free_page_queue p (upd_page p (\<lambda>g. g\<lparr>bflags := bflags g AND NOT B_VALID\<rparr>) s);
     s2 \<leftarrow> remove_from_lookup_page_hash p s1;
     s3 \<leftarrow> remove_from_vnode_page_list p s2;
     bdiscard p s3 }"

fun btruncatev_loop :: "ksend \<Rightarrow> nat \<Rightarrow> nat list \<Rightarrow> cache \<Rightarrow> cache option" where
  "btruncatev_loop ksend v [] s = Some s"
| "btruncatev_loop ksend v (p # ps) s =
     (let sz = v_size (vnodes (cfs s) v); off = file_offset (pages s p)
      in if sz \<le> off then do { s1 \<leftarrow> drop_page p s; btruncatev_loop ksend v ps s1 }
         else if sz - off < int PAGE_SIZE then do {
           (_, s1) \<leftarrow> bwrite ksend p (upd_page p (\<lambda>g. g\<lparr>pg_data := zero_from (nat (sz - off)) (pg_data g)\<rparr>) s);
           btruncatev_loop ksend v ps s1 }
         else btruncatev_loop ksend v ps s)"

definition btruncatev :: "ksend \<Rightarrow> nat \<Rightarrow> cache \<Rightarrow> (unit result \<times> cache) option" where
  "btruncatev ksend v s = do {
     let s1 = mark_all_vnode_pages_as_busy v s;
     s2 \<leftarrow> btruncatev_loop ksend v (page_list s1 v) s1;
     Some (Inr (), s2) }"

text \<open>Each pass takes the head of the list off it, so the pages are those the list has.\<close>

fun binvalidatev_loop :: "nat list \<Rightarrow> cache \<Rightarrow> cache option" where
  "binvalidatev_loop [] s = Some s"
| "binvalidatev_loop (p # ps) s = do {
     s1 \<leftarrow> drop_page p (upd_page p (\<lambda>g. g\<lparr>bflags := bflags g OR B_BUSY\<rparr>) s);
     binvalidatev_loop ps s1 }"

definition binvalidatev :: "nat \<Rightarrow> cache \<Rightarrow> (unit result \<times> cache) option" where
  "binvalidatev v s = do {
     s1 \<leftarrow> binvalidatev_loop (page_list s v) s;
     Some (Inr (), s1) }"

section \<open>Reading and writing files\<close>

text \<open>A page has room after an offset into it, so each pass of the loops moves something.\<close>

lemma cluster_room: "0 < int PAGE_SIZE - c_mod off (int PAGE_SIZE)"
proof (cases "0 \<le> off")
  case True
  then show ?thesis by (simp add: c_mod_nonneg PAGE_SIZE_def)
next
  case False
  then have "c_mod off (int PAGE_SIZE) = off + (- off) div 4096 * 4096"
    by (simp add: c_mod_def c_div_def PAGE_SIZE_def)
  then show ?thesis using False by (simp add: PAGE_SIZE_def)
qed

lemma cluster_progress:
  assumes "tot < todo"
  shows "todo - (tot + nat (min (int todo - int tot) (int PAGE_SIZE - c_mod off (int PAGE_SIZE)))) < todo - tot"
proof -
  have "0 < nat (min (int todo - int tot) (int PAGE_SIZE - c_mod off (int PAGE_SIZE)))"
    using assms cluster_room [of off] by simp
  then show ?thesis using assms by linarith
qed

text \<open>
  The loop of \<open>read_from_file\<close>: \<open>out\<close> is what has been copied to the caller, \<open>fault tot\<close> tells
  whether copying out the next part fails. A loop that sleeps returns its variables, with which it
  goes on. An offset before the start of the page is outside the page's memory.
\<close>

function read_loop ::
    "ksend \<Rightarrow> (nat \<Rightarrow> bool) \<Rightarrow> nat \<Rightarrow> nat \<Rightarrow> nat \<Rightarrow> int \<Rightarrow> u8 list \<Rightarrow> cache
       \<Rightarrow> (nat result pass \<times> int \<times> nat \<times> u8 list \<times> cache) option" where
  "read_loop ksend fault v todo tot off out s =
     (if tot < todo then do {
        let cluster_offset = c_mod off (int PAGE_SIZE);
        let xfer = nat (min (int (todo - tot)) (int PAGE_SIZE - cluster_offset));
        (r, s1) \<leftarrow> bread ksend v (off - cluster_offset) s;
        (case r of
           Return None \<Rightarrow> Some (Return (if tot > 0 then Inr tot else Inl EIO), off, tot, out, s1)
         | Return (Some p) \<Rightarrow> do {
             kassert (0 \<le> cluster_offset);
             if fault tot then Some (Return (Inl EFAULT), off, tot, out, s1)
             else do {
               s2 \<leftarrow> brelse p s1;
               read_loop ksend fault v todo (tot + xfer) (off + int xfer)
                 (out @ take xfer (drop (nat cluster_offset) (pg_data (pages s1 p)))) s2 } }
         | Sleep \<Rightarrow> Some (Sleep, off, tot, out, s1)
         | Again \<Rightarrow> Some (Again, off, tot, out, s1)) }
      else Some (Return (Inr tot), off, tot, out, s))"
  by pat_completeness auto

termination
  by (relation "measure (\<lambda>(_, _, _, todo, tot, _, _, _). todo - tot)") (auto intro: cluster_progress)

declare read_loop.simps [simp del]

definition read_from_file ::
    "ksend \<Rightarrow> (nat \<Rightarrow> bool) \<Rightarrow> nat \<Rightarrow> nat \<Rightarrow> int \<Rightarrow> cache \<Rightarrow> (nat result pass \<times> int \<times> nat \<times> u8 list \<times> cache) option" where
  "read_from_file ksend fault v sz off s =
     (let size = v_size (vnodes (cfs s) v); remaining_in_file = nat ((size - off) mod 2 ^ 32)
      in if off \<ge> size then Some (Return (Inr 0), off, 0, [], s)
         else read_loop ksend fault v (min remaining_in_file sz) 0 off [] s)"

text \<open>The loop of \<open>write_to_file\<close>; \<open>src\<close> is what is left to write.\<close>

function write_loop ::
    "ksend \<Rightarrow> (nat \<Rightarrow> bool) \<Rightarrow> nat \<Rightarrow> nat \<Rightarrow> nat \<Rightarrow> int \<Rightarrow> u8 list \<Rightarrow> cache
       \<Rightarrow> (nat result pass \<times> int \<times> nat \<times> u8 list \<times> cache) option" where
  "write_loop ksend fault v todo tot off src s =
     (if tot < todo then do {
        let cluster_offset = c_mod off (int PAGE_SIZE);
        let xfer = nat (min (int (todo - tot)) (int PAGE_SIZE - cluster_offset));
        (r, s1) \<leftarrow> (if off - cluster_offset < v_size (vnodes (cfs s) v) then bread ksend v (off - cluster_offset) s
                    else bread_zero v (off - cluster_offset) s);
        (case r of
           Return None \<Rightarrow> Some (Return (if tot > 0 then Inr tot else Inl EIO), off, tot, src, s1)
         | Return (Some p) \<Rightarrow> do {
             kassert (0 \<le> cluster_offset);
             if fault tot then Some (Return (Inl EFAULT), off, tot, src, s1)
             else do {
               let s2 = upd_page p (\<lambda>g. g\<lparr>pg_data := take (nat cluster_offset) (pg_data g) @ take xfer src
                          @ drop (nat cluster_offset + xfer) (pg_data g)\<rparr>) s1;
               let off' = off + int xfer;
               let s3 = (if off' > v_size (vnodes (cfs s2) v)
                         then s2\<lparr>cfs := upd_vnode v (\<lambda>n. n\<lparr>v_size := off'\<rparr>) (cfs s2)\<rparr> else s2);
               (_, s4) \<leftarrow> bwrite ksend p s3;
               write_loop ksend fault v todo (tot + xfer) off' (drop xfer src) s4 } }
         | Sleep \<Rightarrow> Some (Sleep, off, tot, src, s1)
         | Again \<Rightarrow> Some (Again, off, tot, src, s1)) }
      else Some (Return (Inr tot), off, tot, src, s))"
  by pat_completeness auto

termination
  by (relation "measure (\<lambda>(_, _, _, todo, tot, _, _, _). todo - tot)") (auto intro: cluster_progress)

declare write_loop.simps [simp del]

definition write_to_file ::
    "ksend \<Rightarrow> (nat \<Rightarrow> bool) \<Rightarrow> nat \<Rightarrow> u8 list \<Rightarrow> int \<Rightarrow> cache \<Rightarrow> (nat result pass \<times> int \<times> nat \<times> u8 list \<times> cache) option" where
  "write_to_file ksend fault v src off s = write_loop ksend fault v (length src) 0 off src s"

definition do_close_file :: "nat \<Rightarrow> fs \<Rightarrow> (unit result \<times> fs)" where
  "do_close_file v s = (Inr (), vnode_put v s)"

section \<open>Invariant\<close>

lemma and_flag: "(w AND 2 ^ n = 0) = (\<not> bit w n)" if "n < 32" for w :: u32
proof -
  have e: "w AND 2 ^ n = (if bit w n then 2 ^ n else 0)"
    by (rule bit_word_eqI) (auto simp: bit_simps)
  have "(2 :: u32) ^ n \<noteq> 0" using that by simp
  then show ?thesis using e by simp
qed

lemma bit_or_flag: "m < 32 \<Longrightarrow> bit (w OR 2 ^ m) n = (bit w n \<or> n = m)" for w :: u32
  by (auto simp: bit_simps)

lemma bit_and_not_flag: "bit (w AND NOT (2 ^ m)) n = (bit w n \<and> n \<noteq> m)" for w :: u32
  by (auto simp: bit_simps dest: bit_imp_le_length)

lemma bflag_set [simp]:
  "bit (w OR B_VALID) n = (bit w n \<or> n = 2)" "bit (w OR B_BUSY) n = (bit w n \<or> n = 3)"
  "bit (w OR B_ERROR) n = (bit w n \<or> n = 4)" "bit (w OR B_DISCARD) n = (bit w n \<or> n = 5)"
  using bit_or_flag [of 2 w n] bit_or_flag [of 3 w n] bit_or_flag [of 4 w n] bit_or_flag [of 5 w n]
  by (simp_all add: B_VALID_def B_BUSY_def B_ERROR_def B_DISCARD_def)

lemma bflag_clear [simp]:
  "bit (w AND NOT B_VALID) n = (bit w n \<and> n \<noteq> 2)" "bit (w AND NOT B_BUSY) n = (bit w n \<and> n \<noteq> 3)"
  using bit_and_not_flag [of w 2 n] bit_and_not_flag [of w 3 n] by (simp_all add: B_VALID_def B_BUSY_def)

lemma bflag_test [simp]:
  "(w AND B_VALID = 0) = (\<not> bit w 2)" "(w AND B_BUSY = 0) = (\<not> bit w 3)"
  "(w AND (B_ERROR OR B_DISCARD) = 0) = (\<not> bit w 4 \<and> \<not> bit w 5)"
proof -
  have "(48 :: u32) = 2 ^ 4 OR 2 ^ 5" by simp
  then have "w AND 48 = (w AND 2 ^ 4) OR (w AND 2 ^ 5)" by (simp only: bit.conj_disj_distrib)
  then have "(w AND 48 = 0) = (\<not> bit w 4 \<and> \<not> bit w 5)"
    using and_flag [of 4 w] and_flag [of 5 w] by (simp add: or_eq_0_iff)
  then show "(w AND (B_ERROR OR B_DISCARD) = 0) = (\<not> bit w 4 \<and> \<not> bit w 5)" by (simp add: B_ERROR_def B_DISCARD_def)
qed (use and_flag [of 2 w] and_flag [of 3 w] in \<open>simp_all add: B_VALID_def B_BUSY_def\<close>)

abbreviation busy :: "cache \<Rightarrow> nat \<Rightarrow> bool" where "busy s p \<equiv> bit (bflags (pages s p)) 3"
abbreviation valid :: "cache \<Rightarrow> nat \<Rightarrow> bool" where "valid s p \<equiv> bit (bflags (pages s p)) 2"

text \<open>The pages \<open>A\<close>, and no others, are on the hash chain and the list of the file they cache.\<close>

definition index_ok :: "nat set \<Rightarrow> cache \<Rightarrow> bool" where
  "index_ok A s \<longleftrightarrow>
     (\<forall>h. distinct (page_lookup_hash s h)) \<and> (\<forall>h q. q \<in> set (page_lookup_hash s h) \<longleftrightarrow> q \<in> A \<and> page_hash_index q s = Some h)
     \<and> (\<forall>v. distinct (page_list s v)) \<and> (\<forall>v q. q \<in> set (page_list s v) \<longleftrightarrow> q \<in> A \<and> pg_vnode (pages s q) = Some v)
     \<and> (\<forall>q \<in> A. \<forall>q' \<in> A. pg_vnode (pages s q) \<noteq> None \<and> pg_vnode (pages s q) = pg_vnode (pages s q')
          \<and> file_offset (pages s q) = file_offset (pages s q') \<longrightarrow> q = q')"

text \<open>
  The pages \<open>P\<close> that the cache manages: a page is free for use when it is not busy, and then it has
  what it should have of the file.
\<close>

definition cache_inv :: "nat set \<Rightarrow> cache \<Rightarrow> bool" where
  "cache_inv P s \<longleftrightarrow> index_ok P s
     \<and> distinct (free_page_queue s) \<and> (\<forall>p. p \<in> set (free_page_queue s) \<longleftrightarrow> p \<in> P \<and> \<not> busy s p)
     \<and> (\<forall>p \<in> P. valid s p \<longrightarrow> pg_vnode (pages s p) \<noteq> None)
     \<and> (\<forall>p \<in> P. \<not> busy s p \<longrightarrow> (pg_vnode (pages s p) \<noteq> None \<longrightarrow> valid s p)
          \<and> \<not> bit (bflags (pages s p)) 4 \<and> \<not> bit (bflags (pages s p)) 5)"

lemma cache_invD:
  assumes "cache_inv P s"
  shows "index_ok P s" "distinct (free_page_queue s)" "q \<in> set (free_page_queue s) \<longleftrightarrow> q \<in> P \<and> \<not> busy s q"
    "q \<in> P \<Longrightarrow> valid s q \<Longrightarrow> pg_vnode (pages s q) \<noteq> None"
    "q \<in> P \<Longrightarrow> \<not> busy s q \<Longrightarrow> pg_vnode (pages s q) \<noteq> None \<Longrightarrow> valid s q"
    "q \<in> P \<Longrightarrow> \<not> busy s q \<Longrightarrow> \<not> bit (bflags (pages s q)) 4" "q \<in> P \<Longrightarrow> \<not> busy s q \<Longrightarrow> \<not> bit (bflags (pages s q)) 5"
  using assms unfolding cache_inv_def by blast+

lemma index_ok_cong:
  assumes "index_ok A s" "page_lookup_hash s' = page_lookup_hash s" "page_list s' = page_list s"
    and "\<And>v. inode_nr (vnodes (cfs s') v) = inode_nr (vnodes (cfs s) v)"
    and "\<And>q. q \<in> A \<Longrightarrow> pg_vnode (pages s' q) = pg_vnode (pages s q) \<and> file_offset (pages s' q) = file_offset (pages s q)"
  shows "index_ok A s'"
proof -
  have "page_hash_index q s' = page_hash_index q s" if "q \<in> A" for q
    using assms(4,5) that by (simp add: page_hash_index_def)
  with assms show ?thesis unfolding index_ok_def by auto
qed

text \<open>The state after a page is taken off its chain and its list, and after it is put on them.\<close>

lemma unlink_page:
  assumes "index_ok A s" "pg_vnode (pages s p) = Some v" "p \<in> A"
  shows "\<exists>s1 s2. remove_from_lookup_page_hash p s = Some s1 \<and> remove_from_vnode_page_list p s1 = Some s2
     \<and> index_ok (A - {p}) s2 \<and> pages s2 = pages s \<and> cfs s2 = cfs s
     \<and> free_page_queue s2 = free_page_queue s"
proof -
  obtain h where h: "page_hash_index p s = Some h" using assms(2) by (simp add: page_hash_index_def)
  let ?s1 = "s\<lparr>page_lookup_hash := (page_lookup_hash s)(h := remove1 p (page_lookup_hash s h))\<rparr>"
  let ?s2 = "?s1\<lparr>page_list := (page_list s)(v := remove1 p (page_list s v))\<rparr>"
  have "remove_from_lookup_page_hash p s = Some ?s1" using h by (simp add: remove_from_lookup_page_hash_def)
  moreover have "remove_from_vnode_page_list p ?s1 = Some ?s2" using assms(2) by (simp add: remove_from_vnode_page_list_def)
  moreover have "page_hash_index q ?s2 = page_hash_index q s" for q by (simp add: page_hash_index_def)
  then have "index_ok (A - {p}) ?s2"
    using assms h unfolding index_ok_def by (auto simp: set_remove1_eq distinct_remove1)
  ultimately show ?thesis by auto
qed

lemma link_page:
  assumes "index_ok (A - {p}) s" "pg_vnode (pages s p) = Some v" "p \<in> A"
    and "\<And>q. q \<in> A - {p} \<Longrightarrow> pg_vnode (pages s q) = Some v \<Longrightarrow> file_offset (pages s q) \<noteq> file_offset (pages s p)"
  shows "\<exists>s1 s2. add_to_lookup_page_hash p s = Some s1 \<and> add_to_vnode_page_list p s1 = Some s2
     \<and> index_ok A s2 \<and> pages s2 = pages s \<and> cfs s2 = cfs s
     \<and> free_page_queue s2 = free_page_queue s"
proof -
  obtain h where h: "page_hash_index p s = Some h" using assms(2) by (simp add: page_hash_index_def)
  let ?s1 = "s\<lparr>page_lookup_hash := (page_lookup_hash s)(h := p # page_lookup_hash s h)\<rparr>"
  let ?s2 = "?s1\<lparr>page_list := (page_list s)(v := p # page_list s v)\<rparr>"
  have "add_to_lookup_page_hash p s = Some ?s1" using h by (simp add: add_to_lookup_page_hash_def)
  moreover have "add_to_vnode_page_list p ?s1 = Some ?s2" using assms(2) by (simp add: add_to_vnode_page_list_def)
  moreover have pi: "page_hash_index q ?s2 = page_hash_index q s" for q by (simp add: page_hash_index_def)
  have "index_ok A ?s2"
  proof -
    have "q = q'" if "q \<in> A" "q' \<in> A" "pg_vnode (pages s q) \<noteq> None" "pg_vnode (pages s q) = pg_vnode (pages s q')"
       "file_offset (pages s q) = file_offset (pages s q')" for q q'
      using that assms(1,2,4) unfolding index_ok_def by (metis Diff_iff singletonD)
    then show ?thesis using assms h pi unfolding index_ok_def by auto
  qed
  ultimately show ?thesis by auto
qed

lemma index_ok_none: "pg_vnode (pages s p) = None \<Longrightarrow> p \<in> A \<Longrightarrow> index_ok (A - {p}) s \<longleftrightarrow> index_ok A s"
  by (auto simp: index_ok_def page_hash_index_def) (metis Diff_iff option.distinct(1) singletonD)

lemma find_blk_SomeD:
  assumes "cache_inv P s" "find_blk v off s = Some p"
  shows "p \<in> P" "pg_vnode (pages s p) = Some v" "file_offset (pages s p) = off"
  using assms by (auto simp: find_blk_def cache_inv_def index_ok_def find_Some_iff) (metis nth_mem lessThan_iff)+

lemma find_blk_NoneD:
  assumes "cache_inv P s" "find_blk v off s = None" "q \<in> P" "pg_vnode (pages s q) = Some v"
  shows "file_offset (pages s q) \<noteq> off"
proof
  assume "file_offset (pages s q) = off"
  with assms have "q \<in> set (page_lookup_hash s (calc_page_lookup_hash (inode_nr (vnodes (cfs s) v)) off))"
    by (simp add: cache_inv_def index_ok_def page_hash_index_def)
  with assms(2,4) \<open>file_offset (pages s q) = off\<close> show False by (auto simp: find_blk_def find_None_iff)
qed

text \<open>A page taken from the end of the free queue is busy and in no file's lists.\<close>

lemma take_available_ok:
  assumes "cache_inv P s" "find_available_blk s = Some p"
  shows "\<exists>s'. take_available p s = Some s' \<and> p \<in> P \<and> \<not> busy s p \<and> index_ok (P - {p}) s' \<and> cfs s' = cfs s
     \<and> (\<forall>q. q \<noteq> p \<longrightarrow> pages s' q = pages s q) \<and> busy s' p \<and> \<not> valid s' p
     \<and> \<not> bit (bflags (pages s' p)) 4 \<and> \<not> bit (bflags (pages s' p)) 5
     \<and> free_page_queue s' = remove1 p (free_page_queue s)"
proof -
  have p: "p \<in> set (free_page_queue s)" using assms(2) last_opt_SomeD by (auto simp: find_available_blk_def)
  with assms(1) have f: "p \<in> P" "\<not> busy s p" "pg_vnode (pages s p) \<noteq> None \<longrightarrow> valid s p" "valid s p \<longrightarrow> pg_vnode (pages s p) \<noteq> None"
    "\<not> bit (bflags (pages s p)) 4" "\<not> bit (bflags (pages s p)) 5" "index_ok P s"
    by (auto simp: cache_inv_def)
  let ?s1 = "remove_from_free_page_queue p (upd_page p (\<lambda>g. g\<lparr>bflags := bflags g OR B_BUSY\<rparr>) s)"
  have i1: "index_ok P ?s1" by (rule index_ok_cong [OF f(7)]) (auto simp: remove_from_free_page_queue_def)
  have s1: "pages ?s1 = (pages s)(p := (pages s p)\<lparr>bflags := bflags (pages s p) OR B_BUSY\<rparr>)" "cfs ?s1 = cfs s"
    "free_page_queue ?s1 = remove1 p (free_page_queue s)"
    by (simp_all add: remove_from_free_page_queue_def)
  show ?thesis
  proof (cases "valid s p")
    case False
    then have "pg_vnode (pages ?s1 p) = None" using f(3) s1(1) by simp
    then have "index_ok (P - {p}) ?s1" using index_ok_none [of ?s1 p] i1 f(1) by simp
    then show ?thesis using False f s1 by (simp add: take_available_def Let_def)
  next
    case True
    then obtain v where v: "pg_vnode (pages ?s1 p) = Some v" using f(4) s1(1) by auto
    obtain s2 s3 where s3: "remove_from_lookup_page_hash p ?s1 = Some s2" "remove_from_vnode_page_list p s2 = Some s3"
      "index_ok (P - {p}) s3" "pages s3 = pages ?s1" "cfs s3 = cfs ?s1"
      "free_page_queue s3 = free_page_queue ?s1"
      using unlink_page [OF i1 v] f(1) by auto
    let ?s4 = "upd_page p (\<lambda>g. g\<lparr>bflags := bflags g AND NOT B_VALID\<rparr>) s3"
    have "index_ok (P - {p}) ?s4" by (rule index_ok_cong [OF s3(3)]) auto
    moreover have "take_available p s = Some ?s4" using True f(2) s1(1) s3(1,2) by (simp add: take_available_def Let_def)
    ultimately show ?thesis using True f s1 s3 by simp
  qed
qed

text \<open>The pages that are not handed out stay as they are; the page handed out is busy.\<close>

definition handed_out :: "nat set \<Rightarrow> nat \<Rightarrow> cache \<Rightarrow> cache \<Rightarrow> bool" where
  "handed_out P p s s' \<longleftrightarrow> p \<in> P \<and> \<not> busy s p \<and> busy s' p \<and> cache_inv P s' \<and> cfs s' = cfs s
     \<and> (\<forall>q. q \<noteq> p \<longrightarrow> pages s' q = pages s q) \<and> free_page_queue s' = remove1 p (free_page_queue s)
     \<and> \<not> bit (bflags (pages s' p)) 4 \<and> \<not> bit (bflags (pages s' p)) 5"

lemma cache_inv_handed_out:
  assumes inv: "cache_inv P s" and p: "p \<in> P" "\<not> busy s p" and idx: "index_ok P s'"
    and same: "\<forall>q. q \<noteq> p \<longrightarrow> pages s' q = pages s q" and new: "busy s' p" "valid s' p \<longrightarrow> pg_vnode (pages s' p) \<noteq> None"
    and queue: "free_page_queue s' = remove1 p (free_page_queue s)"
  shows "cache_inv P s'"
proof -
  note D = cache_invD [OF inv]
  have in_queue: "p \<in> set (free_page_queue s)" using D(3) p by blast
  have "q \<in> set (free_page_queue s') \<longleftrightarrow> q \<in> P \<and> \<not> busy s' q" for q
    using D(2) D(3) [of q] same new(1) queue(1) by (cases "q = p") auto
  moreover have "pg_vnode (pages s' q) \<noteq> None" if "q \<in> P" "valid s' q" for q
    using D(4) [of q] same new(2) that by (cases "q = p") auto
  moreover have "(pg_vnode (pages s' q) \<noteq> None \<longrightarrow> valid s' q) \<and> \<not> bit (bflags (pages s' q)) 4 \<and> \<not> bit (bflags (pages s' q)) 5"
    if "q \<in> P" "\<not> busy s' q" for q
    using D(5-7) [of q] same new(1) that by (cases "q = p") auto
  moreover have "distinct (free_page_queue s')" using D(2) queue(1) by simp
  ultimately show ?thesis using idx unfolding cache_inv_def by blast
qed

lemma getblk_ok:
  assumes inv: "cache_inv P s" and sb: "sb_flags (superblocks (cfs s) (v_superblock (vnodes (cfs s) v))) AND SBF_ABORT = 0"
    and free: "\<forall>p. find_blk v off s = Some p \<longrightarrow> \<not> busy s p" "find_blk v off s = None \<longrightarrow> free_page_queue s \<noteq> []"
  shows "\<exists>p s'. getblk v off s = Some (Return (Some p), s') \<and> handed_out P p s s'
     \<and> pg_vnode (pages s' p) = Some v \<and> file_offset (pages s' p) = off
     \<and> (case find_blk v off s of
          Some q \<Rightarrow> p = q \<and> valid s' p \<and> pg_data (pages s' p) = pg_data (pages s p)
        | None \<Rightarrow> \<not> valid s' p \<and> pg_data (pages s' p) = zero_page \<and> find_available_blk s = Some p)"
proof (cases "find_blk v off s")
  case (Some p)
  note p = find_blk_SomeD [OF inv Some]
  let ?s1 = "remove_from_free_page_queue p (upd_page p (\<lambda>g. g\<lparr>bflags := bflags g OR B_BUSY\<rparr>) s)"
  have nb: "\<not> busy s p" using free Some by simp
  then have f: "valid s p" "\<not> bit (bflags (pages s p)) 4" "\<not> bit (bflags (pages s p)) 5" "index_ok P s"
    using inv p by (auto simp: cache_inv_def)
  have "index_ok P ?s1" by (rule index_ok_cong [OF f(4)]) (auto simp: remove_from_free_page_queue_def)
  then have "cache_inv P ?s1"
    using p by (intro cache_inv_handed_out [OF inv p(1) nb]) (auto simp: remove_from_free_page_queue_def)
  then have "handed_out P p s ?s1" using p nb f by (simp add: handed_out_def remove_from_free_page_queue_def)
  then show ?thesis using Some sb nb f p by (simp add: getblk_def Let_def remove_from_free_page_queue_def)
next
  case None
  with free(2) obtain p where p: "find_available_blk s = Some p"
    by (auto simp: find_available_blk_def last_opt_def)
  obtain s1 where s1: "take_available p s = Some s1" "p \<in> P" "\<not> busy s p" "index_ok (P - {p}) s1" "cfs s1 = cfs s"
    "\<forall>q. q \<noteq> p \<longrightarrow> pages s1 q = pages s q" "busy s1 p" "\<not> valid s1 p"
    "\<not> bit (bflags (pages s1 p)) 4" "\<not> bit (bflags (pages s1 p)) 5"
    "free_page_queue s1 = remove1 p (free_page_queue s)"
    using take_available_ok [OF inv p] by auto
  let ?s2 = "upd_page p (\<lambda>g. g\<lparr>pg_vnode := Some v, file_offset := off\<rparr>) s1"
  have "index_ok (P - {p}) ?s2" by (rule index_ok_cong [OF s1(4)]) auto
  then obtain s3 s4 where s4: "add_to_lookup_page_hash p ?s2 = Some s3" "add_to_vnode_page_list p s3 = Some s4"
    "index_ok P s4" "pages s4 = pages ?s2" "cfs s4 = cfs ?s2"
    "free_page_queue s4 = free_page_queue ?s2"
    using link_page [of "P" p ?s2 v] s1(2,6) find_blk_NoneD [OF inv None] by auto
  let ?s5 = "upd_page p (\<lambda>g. g\<lparr>pg_data := zero_page\<rparr>) s4"
  have "index_ok P ?s5" by (rule index_ok_cong [OF s4(3)]) auto
  then have "cache_inv P ?s5"
    using s1 s4 by (intro cache_inv_handed_out [OF inv s1(2,3)]) auto
  then have "handed_out P p s ?s5" using s1 s4 by (simp add: handed_out_def)
  then show ?thesis using None sb p s1 s4 by (simp add: getblk_def)
qed

lemma find_blk_hit:
  assumes "cache_inv P s" "p \<in> P" "pg_vnode (pages s p) = Some v" "file_offset (pages s p) = off"
  shows "find_blk v off s = Some p"
proof (cases "find_blk v off s")
  case None
  from find_blk_NoneD [OF assms(1) None assms(2,3)] assms(4) show ?thesis by simp
next
  case (Some q)
  note q = find_blk_SomeD [OF assms(1) Some]
  have "q = p" using cache_invD(1) [OF assms(1)] q assms(2-4) unfolding index_ok_def by auto
  with Some show ?thesis by simp
qed

section \<open>Reading a file\<close>

text \<open>While the server and other threads run only the state of the threads changes.\<close>

definition same_files :: "fs \<Rightarrow> fs \<Rightarrow> bool" where
  "same_files f f0 \<longleftrightarrow> (\<exists>k. f = f0\<lparr>ks := k\<rparr> \<and> kernel_inv k \<and> bkl_locked k)"

lemma same_filesD:
  assumes "same_files f f0"
  shows "vnodes f = vnodes f0" "superblocks f = superblocks f0" "kernel_inv (ks f)" "bkl_locked (ks f)"
  using assms by (auto simp: same_files_def)

lemma cache_wakeup_ok:
  assumes "same_files (cfs s) f0"
  shows "\<exists>f. cache_wakeup r s = Some (s\<lparr>cfs := f\<rparr>) \<and> same_files f f0"
  using TaskWakeupAll_ok [OF same_filesD(3,4) [OF assms], of r] assms
  by (auto simp: cache_wakeup_def wakeup_all_def same_files_def wake_frame_def)

lemma cache_inv_cfs:
  assumes "cache_inv P s" "\<And>v. inode_nr (vnodes f v) = inode_nr (vnodes (cfs s) v)"
  shows "cache_inv P (s\<lparr>cfs := f\<rparr>)"
proof -
  have "index_ok P (s\<lparr>cfs := f\<rparr>)" by (rule index_ok_cong [OF cache_invD(1) [OF assms(1)]]) (simp_all add: assms(2))
  with assms(1) show ?thesis unfolding cache_inv_def by simp
qed

lemma cache_inv_page:
  assumes inv: "cache_inv P s" and p: "busy s p" and g: "pg_vnode g = pg_vnode (pages s p)" "file_offset g = file_offset (pages s p)"
    "bit (bflags g) 3" "bit (bflags g) 2 \<longrightarrow> pg_vnode g \<noteq> None"
  shows "cache_inv P (upd_page p (\<lambda>_. g) s)"
proof -
  note D = cache_invD [OF inv]
  let ?s = "upd_page p (\<lambda>_. g) s"
  have "index_ok P ?s" by (rule index_ok_cong [OF D(1)]) (simp_all add: g)
  moreover have "q \<in> set (free_page_queue ?s) \<longleftrightarrow> q \<in> P \<and> \<not> busy ?s q" for q using D(3) [of q] p g(3) by auto
  moreover have "pg_vnode (pages ?s q) \<noteq> None" if "q \<in> P" "valid ?s q" for q
    using D(4) [of q] that g(4) by (cases "q = p") auto
  moreover have "(pg_vnode (pages ?s q) \<noteq> None \<longrightarrow> valid ?s q) \<and> \<not> bit (bflags (pages ?s q)) 4 \<and> \<not> bit (bflags (pages ?s q)) 5"
    if "q \<in> P" "\<not> busy ?s q" for q
    using D(5-7) [of q] that g(3) by (cases "q = p") auto
  ultimately show ?thesis using D(2) unfolding cache_inv_def by simp
qed

lemma brelse_ok:
  assumes inv: "cache_inv P s" and p: "p \<in> P" "busy s p" "valid s p" "\<not> bit (bflags (pages s p)) 4" "\<not> bit (bflags (pages s p)) 5"
    and f: "same_files (cfs s) f0"
  shows "\<exists>s'. brelse p s = Some s' \<and> cache_inv P s' \<and> same_files (cfs s') f0
     \<and> pages s' = (pages s)(p := (pages s p)\<lparr>bflags := bflags (pages s p) AND NOT B_BUSY\<rparr>)
     \<and> free_page_queue s' = p # free_page_queue s"
proof -
  note D = cache_invD [OF inv]
  let ?s = "add_to_free_page_queue p (upd_page p (\<lambda>g. g\<lparr>bflags := bflags g AND NOT B_BUSY\<rparr>) s)"
  obtain f1 where f1: "cache_wakeup Rendez_page_list ?s = Some (?s\<lparr>cfs := f1\<rparr>)" "same_files f1 f0"
    using cache_wakeup_ok [of ?s f0] f by (auto simp: add_to_free_page_queue_def)
  obtain f2 where f2: "cache_wakeup (Rendez_page p) (?s\<lparr>cfs := f1\<rparr>) = Some (?s\<lparr>cfs := f1\<rparr>\<lparr>cfs := f2\<rparr>)" "same_files f2 f0"
    using cache_wakeup_ok [of "?s\<lparr>cfs := f1\<rparr>" f0] f1(2) by auto
  have idx: "index_ok P ?s" by (rule index_ok_cong [OF D(1)]) (simp_all add: add_to_free_page_queue_def)
  have "q \<in> set (free_page_queue ?s) \<longleftrightarrow> q \<in> P \<and> \<not> busy ?s q" for q
    using D(3) [of q] p(1) by (cases "q = p") (auto simp: add_to_free_page_queue_def)
  moreover have "distinct (free_page_queue ?s)" using D(2) D(3) [of p] p(2) by (simp add: add_to_free_page_queue_def)
  moreover have "pg_vnode (pages ?s q) \<noteq> None" if "q \<in> P" "valid ?s q" for q
    using D(4) [of q] that by (cases "q = p") (auto simp: add_to_free_page_queue_def)
  moreover have "(pg_vnode (pages ?s q) \<noteq> None \<longrightarrow> valid ?s q) \<and> \<not> bit (bflags (pages ?s q)) 4 \<and> \<not> bit (bflags (pages ?s q)) 5"
    if "q \<in> P" "\<not> busy ?s q" for q
    using D(5-7) [of q] that p by (cases "q = p") (auto simp: add_to_free_page_queue_def)
  ultimately have "cache_inv P ?s" using idx unfolding cache_inv_def by blast
  then have "cache_inv P (?s\<lparr>cfs := f2\<rparr>)"
    using same_filesD(1) [OF f2(2)] same_filesD(1) [OF f] by (intro cache_inv_cfs) (simp_all add: add_to_free_page_queue_def)
  then show ?thesis using p f1 f2 by (simp add: brelse_def add_to_free_page_queue_def)
qed

text \<open>
  \<open>F\<close> is the contents of the file. The server answers requests for it, and what the cache has of
  it, are parts of \<open>F\<close>; bytes of the last page beyond the end of the file are zero.
\<close>

definition file_page :: "u8 list \<Rightarrow> nat \<Rightarrow> u8 list" where
  "file_page F n = take PAGE_SIZE (drop n F @ zero_page)"

definition server_has :: "ksend \<Rightarrow> nat \<Rightarrow> u8 list \<Rightarrow> fs \<Rightarrow> bool" where
  "server_has ksend v F f0 \<longleftrightarrow>
     (\<forall>f n. same_files f f0 \<and> n < length F \<longrightarrow>
        (\<exists>r f'. ksend (v_superblock (vnodes f0 v)) KUCOPY (CMD_READ (inode_nr (vnodes f0 v)) (int n) PAGE_SIZE) [] [PAGE_SIZE] f
            = Some (Inr (min PAGE_SIZE (length F - n)), r, f')
          \<and> r_data r = take PAGE_SIZE (drop n F) \<and> same_files f' f0))"

definition cache_has :: "nat set \<Rightarrow> nat \<Rightarrow> u8 list \<Rightarrow> cache \<Rightarrow> bool" where
  "cache_has P v F s \<longleftrightarrow>
     (\<forall>p \<in> P. pg_vnode (pages s p) = Some v \<and> valid s p \<longrightarrow> pg_data (pages s p) = file_page F (nat (file_offset (pages s p))))"

definition file_ready :: "nat set \<Rightarrow> nat \<Rightarrow> u8 list \<Rightarrow> fs \<Rightarrow> cache \<Rightarrow> bool" where
  "file_ready P v F f0 s \<longleftrightarrow> cache_inv P s \<and> P \<noteq> {} \<and> (\<forall>p \<in> P. \<not> busy s p) \<and> cache_has P v F s \<and> same_files (cfs s) f0
     \<and> sb_flags (superblocks f0 (v_superblock (vnodes f0 v))) AND SBF_ABORT = 0"

lemma length_file_page [simp]: "length (file_page F n) = PAGE_SIZE"
  by (simp add: file_page_def zero_page_def)

lemma fill_page:
  assumes "n < length F"
  shows "zero_from (min PAGE_SIZE (length F - n)) (put_page (take PAGE_SIZE (drop n F)) zero_page) = file_page F n"
  by (simp add: zero_from_def put_page_def file_page_def zero_page_def min_def)

lemma file_page_part:
  assumes "n + k + l \<le> length F" "k + l \<le> PAGE_SIZE"
  shows "take l (drop k (file_page F n)) = take l (drop (n + k) F)"
proof -
  have "l \<le> PAGE_SIZE - k" "l \<le> length F - (k + n)" using assms by linarith+
  then show ?thesis by (simp add: file_page_def drop_take ac_simps)
qed

lemma bread_ok:
  assumes ready: "file_ready P v F f0 s" and srv: "server_has ksend v F f0" and n: "n < length F"
  shows "\<exists>p s'. bread ksend v (int n) s = Some (Return (Some p), s') \<and> p \<in> P \<and> cache_inv P s' \<and> busy s' p \<and> valid s' p
     \<and> \<not> bit (bflags (pages s' p)) 4 \<and> \<not> bit (bflags (pages s' p)) 5 \<and> (\<forall>q \<in> P. q \<noteq> p \<longrightarrow> \<not> busy s' q)
     \<and> pg_data (pages s' p) = file_page F n \<and> cache_has P v F s' \<and> same_files (cfs s') f0
     \<and> pg_vnode (pages s' p) = Some v \<and> file_offset (pages s' p) = int n"
proof -
  note R = ready [unfolded file_ready_def]
  have f: "same_files (cfs s) f0" using R by blast
  have inv: "cache_inv P s" and has: "cache_has P v F s" using R by blast+
  have sb: "sb_flags (superblocks (cfs s) (v_superblock (vnodes (cfs s) v))) AND SBF_ABORT = 0"
    using R same_filesD(1,2) [OF f] by simp
  have "set (free_page_queue s) = P" using cache_invD(3) [OF inv] R by auto
  then have q: "free_page_queue s \<noteq> []" using R by auto
  have nb: "\<forall>p. find_blk v (int n) s = Some p \<longrightarrow> \<not> busy s p" using find_blk_SomeD(1) [OF inv] R by blast
  obtain p s1 where g: "getblk v (int n) s = Some (Return (Some p), s1)" "handed_out P p s s1"
    "pg_vnode (pages s1 p) = Some v" "file_offset (pages s1 p) = int n"
    "case find_blk v (int n) s of
          Some q \<Rightarrow> p = q \<and> valid s1 p \<and> pg_data (pages s1 p) = pg_data (pages s p)
        | None \<Rightarrow> \<not> valid s1 p \<and> pg_data (pages s1 p) = zero_page \<and> find_available_blk s = Some p"
    using getblk_ok [OF inv sb nb] q by blast
  note H = g(2) [unfolded handed_out_def]
  have others: "\<forall>q \<in> P. q \<noteq> p \<longrightarrow> \<not> busy s1 q" using H R by auto
  have has1: "pg_data (pages s1 q) = file_page F (nat (file_offset (pages s1 q)))"
    if "q \<in> P" "q \<noteq> p" "pg_vnode (pages s1 q) = Some v" "valid s1 q" for q
    using has that H by (simp add: cache_has_def)
  show ?thesis
  proof (cases "valid s1 p")
    case True
    then obtain "find_blk v (int n) s = Some p" "pg_data (pages s1 p) = pg_data (pages s p)"
      using g(5) by (cases "find_blk v (int n) s") auto
    moreover from this have "valid s p" using cache_invD(5) [OF inv, of p] find_blk_SomeD [OF inv] H by auto
    ultimately have "pg_data (pages s1 p) = file_page F n"
      using has find_blk_SomeD [OF inv, of v "int n" p] by (simp add: cache_has_def)
    moreover from this has1 g(4) have "cache_has P v F s1" unfolding cache_has_def by (metis nat_int)
    moreover have "bread ksend v (int n) s = Some (Return (Some p), s1)" using g(1) True by (simp add: bread_def)
    ultimately show ?thesis using H True others f g(3,4) by auto
  next
    case False
    then have z: "pg_data (pages s1 p) = zero_page" using g(5) by (cases "find_blk v (int n) s") auto
    have f1: "same_files (cfs s1) f0" using H f by simp
    obtain r f' where r: "ksend (v_superblock (vnodes f0 v)) KUCOPY (CMD_READ (inode_nr (vnodes f0 v)) (int n) PAGE_SIZE) [] [PAGE_SIZE] (cfs s1)
        = Some (Inr (min PAGE_SIZE (length F - n)), r, f')" "r_data r = take PAGE_SIZE (drop n F)" "same_files f' f0"
      using srv f1 n unfolding server_has_def by blast
    define g' where "g' = (pages s1 p)\<lparr>pg_data := file_page F n, bflags := bflags (pages s1 p) OR B_VALID\<rparr>"
    define s2 where "s2 = upd_page p (\<lambda>_. g') (s1\<lparr>cfs := f'\<rparr>)"
    obtain m where m: "min PAGE_SIZE (length F - n) = m" "m \<noteq> 0" "m \<le> PAGE_SIZE" using n by (simp add: PAGE_SIZE_def)
    have fill: "zero_from m (put_page (r_data r) (pg_data (pages s1 p))) = file_page F n"
      using fill_page [OF n] r(2) z m(1) by simp
    have "bread ksend v (int n) s = Some (Return (Some p), s2)"
      using g(1) False r(1) [unfolded m(1)] m(2,3) fill same_filesD(1) [OF f1]
      by (simp add: bread_def vfs_read_def offset_arg_def s2_def g'_def upd_page_def Let_def)
    moreover have "cache_inv P s2"
      unfolding s2_def using H same_filesD(1) [OF f1] same_filesD(1) [OF r(3)] g(3)
      by (intro cache_inv_page cache_inv_cfs) (simp_all add: g'_def)
    moreover have "cache_has P v F s2"
      using has1 g(4) unfolding cache_has_def by (auto simp: s2_def g'_def)
    ultimately show ?thesis using H others r(3) g(3,4) by (simp add: s2_def g'_def)
  qed
qed

lemma read_chunk:
  assumes ready: "file_ready P v F f0 s" and srv: "server_has ksend v F f0" and n: "n < length F"
    and l: "l \<le> PAGE_SIZE - n mod PAGE_SIZE" "n + l \<le> length F"
  shows "\<exists>p s1 s2. bread ksend v (int n - int (n mod PAGE_SIZE)) s = Some (Return (Some p), s1) \<and> brelse p s1 = Some s2
     \<and> take l (drop (n mod PAGE_SIZE) (pg_data (pages s1 p))) = take l (drop n F) \<and> file_ready P v F f0 s2"
proof -
  have base: "int n - int (n mod PAGE_SIZE) = int (n - n mod PAGE_SIZE)" "n - n mod PAGE_SIZE < length F" using n by auto
  obtain p s1 where p: "bread ksend v (int n - int (n mod PAGE_SIZE)) s = Some (Return (Some p), s1)" "p \<in> P" "cache_inv P s1"
    "busy s1 p" "valid s1 p" "\<not> bit (bflags (pages s1 p)) 4" "\<not> bit (bflags (pages s1 p)) 5" "\<forall>q \<in> P. q \<noteq> p \<longrightarrow> \<not> busy s1 q"
    "pg_data (pages s1 p) = file_page F (n - n mod PAGE_SIZE)" "cache_has P v F s1" "same_files (cfs s1) f0"
    using bread_ok [OF ready srv base(2)] unfolding base(1) by blast
  obtain s2 where s2: "brelse p s1 = Some s2" "cache_inv P s2" "same_files (cfs s2) f0"
    "pages s2 = (pages s1)(p := (pages s1 p)\<lparr>bflags := bflags (pages s1 p) AND NOT B_BUSY\<rparr>)"
    using brelse_ok [OF p(3,2,4-7,11)] by blast
  have "file_ready P v F f0 s2"
    using ready s2 p(8,10) unfolding file_ready_def cache_has_def by auto
  moreover have "n mod PAGE_SIZE + l \<le> PAGE_SIZE"
    using l(1) mod_less_divisor [of PAGE_SIZE n] by (simp add: PAGE_SIZE_def)
  then have "take l (drop (n mod PAGE_SIZE) (pg_data (pages s1 p))) = take l (drop n F)"
    using file_page_part [of "n - n mod PAGE_SIZE" "n mod PAGE_SIZE" l F] l(2) p(9) by simp
  ultimately show ?thesis using p(1) s2(1) by blast
qed

lemma read_loop_ok:
  assumes "file_ready P v F f0 s" "server_has ksend v F f0" "tot \<le> todo" "n + (todo - tot) \<le> length F"
  shows "\<exists>s'. read_loop ksend (\<lambda>_. False) v todo tot (int n) out s
      = Some (Return (Inr todo), int (n + (todo - tot)), todo, out @ take (todo - tot) (drop n F), s')
     \<and> file_ready P v F f0 s'"
  using assms
proof (induction "todo - tot" arbitrary: tot n out s rule: less_induct)
  case less
  show ?case
  proof (cases "tot < todo")
    case False
    with less.prems show ?thesis by (simp add: read_loop.simps)
  next
    case True
    define l where "l = min (todo - tot) (PAGE_SIZE - n mod PAGE_SIZE)"
    have co: "c_mod (int n) (int PAGE_SIZE) = int (n mod PAGE_SIZE)" by (simp add: c_mod_nonneg PAGE_SIZE_def zmod_int)
    have "n mod PAGE_SIZE < PAGE_SIZE" by (simp add: PAGE_SIZE_def)
    then have l: "nat (min (int (todo - tot)) (int PAGE_SIZE - int (n mod PAGE_SIZE))) = l" "0 < l" "l \<le> todo - tot"
      "l \<le> PAGE_SIZE - n mod PAGE_SIZE" "n + l \<le> length F"
      using True less.prems(4) by (auto simp: l_def min_def nat_diff_distrib)
    obtain p s1 s2 where c: "bread ksend v (int n - int (n mod PAGE_SIZE)) s = Some (Return (Some p), s1)" "brelse p s1 = Some s2"
      "take l (drop (n mod PAGE_SIZE) (pg_data (pages s1 p))) = take l (drop n F)" "file_ready P v F f0 s2"
      using read_chunk [OF less.prems(1,2) _ l(4,5)] l(2,5) by auto
    have dec: "todo - (tot + l) < todo - tot" and le: "tot + l \<le> todo" "n + l + (todo - (tot + l)) \<le> length F"
      using True l(2,3) less.prems(4) by linarith+
    obtain s' where s': "read_loop ksend (\<lambda>_. False) v todo (tot + l) (int (n + l)) (out @ take l (drop n F)) s2
        = Some (Return (Inr todo), int (n + l + (todo - (tot + l))), todo,
            (out @ take l (drop n F)) @ take (todo - (tot + l)) (drop (n + l) F), s')" "file_ready P v F f0 s'"
      using less.hyps [OF dec c(4) less.prems(2) le] by blast
    have "take l (drop n F) @ take (todo - (tot + l)) (drop (n + l) F) = take (todo - tot) (drop n F)"
    proof -
      have "todo - tot = l + (todo - (tot + l))" using l(3) by linarith
      then show ?thesis using take_add [of l "todo - (tot + l)" "drop n F"] by (simp add: ac_simps)
    qed
    with s' show ?thesis
      using True c l by (subst read_loop.simps) (simp add: Let_def co)
  qed
qed

text \<open>
  C31. Reading a file through the cache is reading the file. Let \<open>F\<close> be the contents of the file, of
  less than 4 GB, and let the cache be consistent, hold nothing else for the file and have no busy
  page. If the server answers its requests from \<open>F\<close>, then reading \<open>sz\<close> bytes at offset \<open>n\<close> returns
  exactly the bytes of \<open>F\<close> there, as many as there are, and advances the offset by their number,
  whatever is cached; and the cache is again consistent with \<open>F\<close> and without busy pages.
\<close>

theorem read_from_file_correct:
  assumes "file_ready P v F f0 s" "server_has ksend v F f0" "v_size (vnodes f0 v) = int (length F)" "length F < 2 ^ 32"
  shows "\<exists>s'. read_from_file ksend (\<lambda>_. False) v sz (int n) s
      = Some (Return (Inr (min sz (length F - n))), int (n + min sz (length F - n)), min sz (length F - n),
          take sz (drop n F), s')
     \<and> file_ready P v F f0 s'"
proof (cases "n < length F")
  case False
  then show ?thesis
    using assms(1,3) same_filesD(1) [of "cfs s" f0] by (simp add: read_from_file_def file_ready_def)
next
  case True
  have "nat ((int (length F) - int n) mod 2 ^ 32) = length F - n" using True assms(4) by (simp add: nat_diff_distrib)
  then have "read_from_file ksend (\<lambda>_. False) v sz (int n) s
      = read_loop ksend (\<lambda>_. False) v (min (length F - n) sz) 0 (int n) [] s"
    using assms(1,3) True same_filesD(1) [of "cfs s" f0] by (simp add: read_from_file_def file_ready_def nat_diff_distrib)
  moreover have "take (min (length F - n) sz) (drop n F) = take sz (drop n F)" by (simp add: min_def)
  moreover have "n + (min (length F - n) sz - 0) \<le> length F" using True by simp
  ultimately show ?thesis
    using read_loop_ok [OF assms(1,2), of 0 "min (length F - n) sz" n "[]"] by (simp add: min.commute)
qed

text \<open>A file of three bytes, none of them cached, and a server that has it.\<close>

definition small_file :: "u8 list" where "small_file = [10, 20, 30]"

definition small_server :: ksend where
  "small_server sb ipc req siov riov f =
     (case req of
        CMD_READ ino n sz \<Rightarrow>
          Some (Inr (min PAGE_SIZE (length small_file - nat n)),
            \<lparr>r_inode_nr = 0, r_size = 0, r_uid = 0, r_gid = 0, r_mode = 0, r_offset = 0, r_revents = 0,
             r_data = take PAGE_SIZE (drop (nat n) small_file)\<rparr>, f)
      | _ \<Rightarrow> None)"

definition small_fs :: "kstate \<Rightarrow> fs" where
  "small_fs k = one_dir\<lparr>vnodes := (\<lambda>v. (vnodes one_dir v)\<lparr>v_size := 3\<rparr>), ks := k\<rparr>"

definition one_page :: "kstate \<Rightarrow> cache" where
  "one_page k = \<lparr>cfs = small_fs k,
     pages = (\<lambda>_. \<lparr>mflags = 0, pg_vnode = None, file_offset = 0, bflags = 0, reference_cnt = 0, vpte_list = [], pg_data = []\<rparr>),
     free_page_queue = [0], free_page_cnt = 1, page_lookup_hash = (\<lambda>_. []), page_list = (\<lambda>_. [])\<rparr>"

lemma one_page_ready:
  assumes "kernel_inv k" "bkl_locked k"
  shows "file_ready {0} 0 small_file (small_fs k) (one_page k)" "server_has small_server 0 small_file (small_fs k)"
    "v_size (vnodes (small_fs k) 0) = int (length small_file)"
proof -
  have "same_files (small_fs k) (small_fs k)" using assms by (auto simp: same_files_def small_fs_def)
  then show "file_ready {0} 0 small_file (small_fs k) (one_page k)"
    by (auto simp: file_ready_def cache_inv_def index_ok_def cache_has_def one_page_def page_hash_index_def small_fs_def one_dir_def)
  show "server_has small_server 0 small_file (small_fs k)" by (auto simp: server_has_def small_server_def)
  show "v_size (vnodes (small_fs k) 0) = int (length small_file)" by (simp add: small_fs_def small_file_def)
qed

theorem read_from_file_correct_witness:
  "\<exists>k s'. read_from_file small_server (\<lambda>_. False) 0 100 1 (one_page k) = Some (Return (Inr 2), 3, 2, [20, 30], s')"
proof -
  obtain k where k: "kernel_inv k" "bkl_locked k" using asleep_on by blast
  have "length small_file = 3" "length small_file < 2 ^ 32" by (simp_all add: small_file_def)
  with read_from_file_correct [OF one_page_ready [OF k], of 100 1] show ?thesis by (auto simp: small_file_def numeral_2_eq_2)
qed

text \<open>
  C32. A fault costs the page. When copying out to the caller fails, \<open>read_from_file\<close> returns without
  releasing the page it has read: the page stays busy and off the free queue, and every later
  access to that part of the file goes to sleep on the page, which nobody will release.
\<close>

theorem read_fault_keeps_page:
  assumes "file_ready P v F f0 s" "server_has ksend v F f0" "v_size (vnodes f0 v) = int (length F)" "length F < 2 ^ 32"
    and "n < length F" "0 < sz"
  shows "\<exists>p s'. read_from_file ksend (\<lambda>_. True) v sz (int n) s = Some (Return (Inl EFAULT), int n, 0, [], s')
     \<and> cache_inv P s' \<and> busy s' p \<and> p \<notin> set (free_page_queue s')
     \<and> getblk v (int (n - n mod PAGE_SIZE)) s' = cache_sleep (Rendez_page p) s'"
proof -
  define b where "b = n - n mod PAGE_SIZE"
  have n: "b < length F" and base: "int n - int (n mod PAGE_SIZE) = int b" using assms(5) by (auto simp: b_def)
  obtain p s1 where p: "bread ksend v (int b) s = Some (Return (Some p), s1)" "p \<in> P" "cache_inv P s1" "busy s1 p"
    "same_files (cfs s1) f0" "pg_vnode (pages s1 p) = Some v" "file_offset (pages s1 p) = int b"
    using bread_ok [OF assms(1,2) n] by blast
  have ready: "vnodes (cfs s) = vnodes f0" "sb_flags (superblocks f0 (v_superblock (vnodes f0 v))) AND SBF_ABORT = 0"
    using assms(1) same_filesD(1) [of "cfs s" f0] by (auto simp: file_ready_def)
  have co: "c_mod (int n) (int PAGE_SIZE) = int (n mod PAGE_SIZE)" by (simp add: c_mod_nonneg PAGE_SIZE_def zmod_int)
  define todo where "todo = min (nat ((int (length F) - int n) mod 2 ^ 32)) sz"
  have "0 < todo" using assms(4-6) by (simp add: todo_def nat_diff_distrib)
  then have "read_loop ksend (\<lambda>_. True) v todo 0 (int n) [] s = Some (Return (Inl EFAULT), int n, 0, [], s1)"
    using p(1) by (subst read_loop.simps) (simp add: co base Let_def)
  moreover have "read_from_file ksend (\<lambda>_. True) v sz (int n) s = read_loop ksend (\<lambda>_. True) v todo 0 (int n) [] s"
    unfolding read_from_file_def Let_def todo_def using assms(3,5) ready(1) by simp
  ultimately have "read_from_file ksend (\<lambda>_. True) v sz (int n) s = Some (Return (Inl EFAULT), int n, 0, [], s1)" by simp
  moreover have "getblk v (int b) s1 = cache_sleep (Rendez_page p) s1"
    using find_blk_hit [OF p(3,2,6,7)] p(4) ready(2) same_filesD(1,2) [OF p(5)] by (simp add: getblk_def)
  ultimately show ?thesis unfolding b_def [symmetric] using p(3,4) cache_invD(3) [OF p(3), of p] by blast
qed

theorem read_fault_keeps_page_witness:
  "\<exists>k s'. read_from_file small_server (\<lambda>_. True) 0 100 1 (one_page k) = Some (Return (Inl EFAULT), 1, 0, [], s') \<and> cache_inv {0} s'"
proof -
  obtain k where k: "kernel_inv k" "bkl_locked k" using asleep_on by blast
  have "length small_file = 3" "length small_file < 2 ^ 32" by (simp_all add: small_file_def)
  with read_fault_keeps_page [OF one_page_ready [OF k], of 1 100] show ?thesis by auto
qed

text \<open>
  After \<open>btruncatev\<close> the pages that lie within the file stay marked busy while they are on the free
  queue: when such a page is the next to be reused, allocating a page fails its assertion.
\<close>

lemma btruncatev_leaves_busy:
  assumes "cache_inv P s" "page_list s v = [p]" "find_available_blk s = Some p"
    and "file_offset (pages s p) + int PAGE_SIZE \<le> v_size (vnodes (cfs s) v)"
  shows "\<exists>s'. btruncatev ksend v s = Some (Inr (), s') \<and> getblk_anon s' = None"
  using assms(2-4)
  by (simp add: btruncatev_def mark_all_vnode_pages_as_busy_def Let_def getblk_anon_def find_available_blk_def take_available_def PAGE_SIZE_def B_BUSY_def)

end
