(* ===== verification/Pmap.thy ===== *)
theory Pmap
  imports Cache
begin

text \<open>
  Physical pages and page tables (\<open>vm/page.c\<close>, \<open>boards/raspberry_pi_4/pmap.c\<close>). The bits of the
  processor's page table entries and the flags of \<open>mmap\<close> come from headers outside the repository;
  they are the parameter \<open>h\<close>. A page directory is named by its number in \<open>pmappagedir_table\<close>, a page
  table by the page it is in; its memory is the entries \<open>l2_table\<close> and the flags \<open>vpte_flags\<close> beside
  them. Barriers and the caches of the processor have no counterpart. An operation that has to wait
  for a free page is followed up to that sleep, which is the outcome \<open>Asleep\<close>.
\<close>

unbundle bit_operations_syntax

section \<open>State\<close>

record hal =
  L1_ADDR_BITS :: u32
  L1_IDX_SHIFT :: nat
  L1_TYPE_MASK :: u32
  L1_TYPE_INV :: u32
  L1_TYPE_C :: u32
  L1_C_ADDR_MASK :: u32
  L2_ADDR_BITS :: u32
  L2_IDX_SHIFT :: nat
  L2_ADDR_MASK :: u32
  L2_TYPE_MASK :: u32
  L2_TYPE_INV :: u32
  L2_TYPE_S :: u32
  L2_AP_RWKU :: u32
  L2_AP_RKU :: u32
  L2_NX :: u32
  L2_B :: u32
  L2_C :: u32
  PROT_READ :: u32
  PROT_WRITE :: u32
  PROT_EXEC :: u32
  MAP_PHYS :: u32
  MAP_FIXED :: u32
  VM_CACHE_MASK :: u32
  CACHE_DEFAULT :: u32
  CACHE_WRITEBACK :: u32
  CACHE_WRITETHRU :: u32
  CACHE_WRITECOMBINE :: u32
  VM_FLAGS_MASK :: u32
  VM_PROT_MASK :: u32
  PRIV_VALLOC :: u64
  PRIV_VALLOCPHYS :: u64

definition MAP_COW :: u32 where "MAP_COW = push_bit 26 1"
definition MAP_USER :: u32 where "MAP_USER = push_bit 27 1"
definition PGF_INUSE :: u32 where "PGF_INUSE = 1"

record vmem =
  vc :: cache
  vr :: vm
  l1_table :: "nat \<Rightarrow> nat \<Rightarrow> u32"
  l2_table :: "nat \<Rightarrow> nat \<Rightarrow> u32"
  vpte_flags :: "nat \<Rightarrow> nat \<Rightarrow> u32"
  as_pmap :: "nat \<Rightarrow> nat"
  root_pagedir :: "nat \<Rightarrow> u32"
  free_pmappagedir_list :: "nat list"
  max_page :: nat

type_synonym 'a vres = "('a sleep_outcome \<times> vmem) option"

definition vret :: "'a \<Rightarrow> vmem \<Rightarrow> 'a vres" where "vret x s = Some (Returned x, s)"

definition vbind :: "'a vres \<Rightarrow> ('a \<Rightarrow> vmem \<Rightarrow> 'b vres) \<Rightarrow> 'b vres" where
  "vbind m f = (case m of None \<Rightarrow> None | Some (Asleep, s) \<Rightarrow> Some (Asleep, s) | Some (Returned x, s) \<Rightarrow> f x s)"

lemma vbind_simps [simp]:
  "vbind None f = None" "vbind (Some (Asleep, s)) f = Some (Asleep, s)" "vbind (Some (Returned x, s)) f = f x s"
  "vbind (vret x s) f = f x s"
  by (simp_all add: vbind_def vret_def)

definition upd_pg :: "nat \<Rightarrow> (page \<Rightarrow> page) \<Rightarrow> vmem \<Rightarrow> vmem" where
  "upd_pg p f s = s\<lparr>vc := upd_page p f (vc s)\<rparr>"

lemma upd_pg_simps [simp]:
  "vc (upd_pg p f s) = upd_page p f (vc s)" "vr (upd_pg p f s) = vr s" "l1_table (upd_pg p f s) = l1_table s"
  "l2_table (upd_pg p f s) = l2_table s" "vpte_flags (upd_pg p f s) = vpte_flags s" "as_pmap (upd_pg p f s) = as_pmap s"
  "root_pagedir (upd_pg p f s) = root_pagedir s" "free_pmappagedir_list (upd_pg p f s) = free_pmappagedir_list s"
  "max_page (upd_pg p f s) = max_page s"
  by (simp_all add: upd_pg_def)

section \<open>Addresses\<close>

text \<open>\<open>physical_addr\<close> of a page is constant: its number times the page size.\<close>

definition page_pa :: "nat \<Rightarrow> u32" where "page_pa p = of_nat (p * PAGE_SIZE)"

definition pmap_page_to_pa :: "nat \<Rightarrow> u32" where "pmap_page_to_pa p = page_pa p"
definition pmap_pa_to_page :: "u32 \<Rightarrow> nat" where "pmap_pa_to_page pa = unat pa div PAGE_SIZE"
definition pmap_va_to_pa :: "u32 \<Rightarrow> u32" where "pmap_va_to_pa va = va - 0x80000000"
definition pmap_pa_to_va :: "u32 \<Rightarrow> u32" where "pmap_pa_to_va pa = pa + 0x80000000"
definition pmap_page_to_va :: "nat \<Rightarrow> u32" where "pmap_page_to_va p = pmap_pa_to_va (page_pa p)"
definition pmap_va_to_page :: "u32 \<Rightarrow> nat" where "pmap_va_to_page va = unat (pmap_va_to_pa va) div PAGE_SIZE"

section \<open>Pages\<close>

definition pmap_page_init :: "page \<Rightarrow> page" where "pmap_page_init g = g\<lparr>vpte_list := []\<rparr>"

text \<open>\<open>getblk_anon\<close> never returns a null pointer, so neither does \<open>alloc_page\<close>.\<close>

definition alloc_page :: "vmem \<Rightarrow> nat vres" where
  "alloc_page s =
     (case getblk_anon (vc s) of
        None \<Rightarrow> None
      | Some (Return p, c) \<Rightarrow>
          vret p (upd_pg p (\<lambda>g. pmap_page_init (g\<lparr>mflags := PGF_INUSE, reference_cnt := 0\<rparr>)) (s\<lparr>vc := c\<rparr>))
      | Some (_, c) \<Rightarrow> Some (Asleep, s\<lparr>vc := c\<rparr>))"

definition ref_page :: "nat \<Rightarrow> vmem \<Rightarrow> vmem" where
  "ref_page p s = upd_pg p (\<lambda>g. g\<lparr>reference_cnt := reference_cnt g + 1\<rparr>) s"

definition unref_page :: "nat \<Rightarrow> vmem \<Rightarrow> vmem" where
  "unref_page p s = upd_pg p (\<lambda>g. g\<lparr>reference_cnt := reference_cnt g - 1\<rparr>) s"

definition free_page :: "nat \<Rightarrow> vmem \<Rightarrow> vmem option" where
  "free_page p s = do {
     kassert (p < max_page s);
     let s1 = unref_page p s;
     if reference_cnt (pages (vc s1) p) > 0 then Some s1
     else do { c \<leftarrow> putblk_anon p (vc s1); Some (s1\<lparr>vc := c\<rparr>) } }"

definition kmalloc_page :: "vmem \<Rightarrow> u32 vres" where
  "kmalloc_page s = vbind (alloc_page s) (\<lambda>p s1. vret (pmap_page_to_va p) s1)"

definition kfree_page :: "u32 \<Rightarrow> vmem \<Rightarrow> vmem option" where
  "kfree_page va s = free_page (pmap_va_to_page va) s"

section \<open>Page tables\<close>

definition pmap_calc_pa_bits :: "hal \<Rightarrow> u32 \<Rightarrow> u32" where
  "pmap_calc_pa_bits h flags =
     (let ap = (if flags AND PROT_WRITE h \<noteq> 0 \<and> flags AND MAP_COW = 0 then L2_AP_RWKU h else L2_AP_RKU h);
          nx = (if flags AND PROT_EXEC h \<noteq> PROT_EXEC h then L2_NX h else 0);
          policy = flags AND VM_CACHE_MASK h;
          cached = (\<lambda>dflt. if policy = CACHE_DEFAULT h then dflt
                     else if policy = CACHE_WRITEBACK h then L2_B h OR L2_C h
                     else if policy = CACHE_WRITETHRU h then L2_C h
                     else if policy = CACHE_WRITECOMBINE h then L2_B h
                     else 0);
          alloced = (if flags AND MAP_PHYS h = 0 then cached (L2_C h OR L2_B h) else 0);
          phys = (if flags AND MAP_PHYS h = MAP_PHYS h then cached 0 else 0)
      in (((L2_TYPE_S h OR ap) OR nx) OR alloced) OR phys)"

definition pmap_write_l1 :: "nat \<Rightarrow> nat \<Rightarrow> u32 \<Rightarrow> vmem \<Rightarrow> vmem" where
  "pmap_write_l1 pd i data s = s\<lparr>l1_table := (l1_table s)(pd := (l1_table s pd)(i := data))\<rparr>"

definition pmap_write_l2 :: "nat \<Rightarrow> nat \<Rightarrow> u32 \<Rightarrow> vmem \<Rightarrow> vmem" where
  "pmap_write_l2 pt i data s = s\<lparr>l2_table := (l2_table s)(pt := (l2_table s pt)(i := data))\<rparr>"

definition set_vpte_flags :: "nat \<Rightarrow> nat \<Rightarrow> u32 \<Rightarrow> vmem \<Rightarrow> vmem" where
  "set_vpte_flags pt i fl s = s\<lparr>vpte_flags := (vpte_flags s)(pt := (vpte_flags s pt)(i := fl))\<rparr>"

lemma pmap_write_simps [simp]:
  "vc (pmap_write_l1 pd i x s) = vc s" "vr (pmap_write_l1 pd i x s) = vr s"
  "l1_table (pmap_write_l1 pd i x s) = (l1_table s)(pd := (l1_table s pd)(i := x))"
  "l2_table (pmap_write_l1 pd i x s) = l2_table s" "vpte_flags (pmap_write_l1 pd i x s) = vpte_flags s"
  "as_pmap (pmap_write_l1 pd i x s) = as_pmap s" "max_page (pmap_write_l1 pd i x s) = max_page s"
  "root_pagedir (pmap_write_l1 pd i x s) = root_pagedir s"
  "vc (pmap_write_l2 pt i x s) = vc s" "vr (pmap_write_l2 pt i x s) = vr s" "l1_table (pmap_write_l2 pt i x s) = l1_table s"
  "l2_table (pmap_write_l2 pt i x s) = (l2_table s)(pt := (l2_table s pt)(i := x))"
  "vpte_flags (pmap_write_l2 pt i x s) = vpte_flags s"
  "as_pmap (pmap_write_l2 pt i x s) = as_pmap s" "max_page (pmap_write_l2 pt i x s) = max_page s"
  "root_pagedir (pmap_write_l2 pt i x s) = root_pagedir s"
  "vc (set_vpte_flags pt i x s) = vc s" "vr (set_vpte_flags pt i x s) = vr s" "l1_table (set_vpte_flags pt i x s) = l1_table s"
  "l2_table (set_vpte_flags pt i x s) = l2_table s"
  "vpte_flags (set_vpte_flags pt i x s) = (vpte_flags s)(pt := (vpte_flags s pt)(i := x))"
  "as_pmap (set_vpte_flags pt i x s) = as_pmap s" "max_page (set_vpte_flags pt i x s) = max_page s"
  "root_pagedir (set_vpte_flags pt i x s) = root_pagedir s"
  by (simp_all add: pmap_write_l1_def pmap_write_l2_def set_vpte_flags_def)

text \<open>The 256 entries of a page table.\<close>

definition pmap_alloc_pagetable :: "hal \<Rightarrow> vmem \<Rightarrow> nat vres" where
  "pmap_alloc_pagetable h s =
     vbind (alloc_page s) (\<lambda>pt s1.
       vret pt (s1\<lparr>l2_table := (l2_table s1)(pt := (\<lambda>i. if i < 256 then L2_TYPE_INV h else l2_table s1 pt i)),
                   vpte_flags := (vpte_flags s1)(pt := (\<lambda>i. if i < 256 then 0 else vpte_flags s1 pt i))\<rparr>))"

definition pmap_free_pagetable :: "nat \<Rightarrow> vmem \<Rightarrow> vmem option" where
  "pmap_free_pagetable pt s = free_page pt s"

definition pde_idx :: "hal \<Rightarrow> u32 \<Rightarrow> nat" where
  "pde_idx h va = unat (drop_bit (L1_IDX_SHIFT h) (va AND L1_ADDR_BITS h))"

definition pte_idx :: "hal \<Rightarrow> u32 \<Rightarrow> nat" where
  "pte_idx h va = unat (drop_bit (L2_IDX_SHIFT h) (va AND L2_ADDR_BITS h))"

text \<open>The entry of the directory for an address, and the page table it names.\<close>

definition pde :: "hal \<Rightarrow> nat \<Rightarrow> u32 \<Rightarrow> vmem \<Rightarrow> u32" where
  "pde h a va s = l1_table s (as_pmap s a) (pde_idx h va)"

definition pde_pt :: "hal \<Rightarrow> u32 \<Rightarrow> nat" where
  "pde_pt h e = pmap_pa_to_page (e AND L1_C_ADDR_MASK h)"

definition pmap_is_pagetable_present :: "hal \<Rightarrow> nat \<Rightarrow> u32 \<Rightarrow> vmem \<Rightarrow> bool" where
  "pmap_is_pagetable_present h a va s \<longleftrightarrow> pde h a va s AND L1_TYPE_MASK h \<noteq> L1_TYPE_INV h"

definition pmap_is_page_present :: "hal \<Rightarrow> nat \<Rightarrow> u32 \<Rightarrow> vmem \<Rightarrow> bool" where
  "pmap_is_page_present h a va s \<longleftrightarrow>
     pde h a va s AND L1_TYPE_MASK h \<noteq> L1_TYPE_INV h
     \<and> l2_table s (pde_pt h (pde h a va s)) (pte_idx h va) AND L2_TYPE_MASK h \<noteq> L2_TYPE_INV h"

definition pmap_extract :: "hal \<Rightarrow> nat \<Rightarrow> u32 \<Rightarrow> vmem \<Rightarrow> (u32 \<times> u32) option" where
  "pmap_extract h a va s =
     (if pde h a va s AND L1_TYPE_MASK h = L1_TYPE_INV h then None
      else
        (let pt = pde_pt h (pde h a va s); e = l2_table s pt (pte_idx h va)
         in if e AND L2_TYPE_MASK h = L2_TYPE_INV h then None
            else Some (e AND L2_ADDR_MASK h, vpte_flags s pt (pte_idx h va))))"

definition pmap_enter :: "hal \<Rightarrow> nat \<Rightarrow> u32 \<Rightarrow> u32 \<Rightarrow> u32 \<Rightarrow> vmem \<Rightarrow> unit result vres" where
  "pmap_enter h a va pa flags s =
     (if va = 0 then vret (Inl EFAULT) s
      else
        (let pd = as_pmap s a; i = pde_idx h va; j = pte_idx h va
         in vbind (if pde h a va s AND L1_TYPE_MASK h = L1_TYPE_INV h then
                     vbind (pmap_alloc_pagetable h s) (\<lambda>pt s1. vret pt (pmap_write_l1 pd i (page_pa pt OR L1_TYPE_C h) s1))
                   else vret (pde_pt h (pde h a va s)) s)
              (\<lambda>pt s1.
                 if l2_table s1 pt j AND L2_TYPE_MASK h \<noteq> L2_TYPE_INV h then do {
                   s2 \<leftarrow> pmap_free_pagetable pt (pmap_write_l1 pd i (L1_TYPE_INV h) s1);
                   vret (Inl EINVAL) s2 }
                 else
                   (let s2 = (if flags AND MAP_PHYS h = 0
                              then upd_pg (pmap_pa_to_page pa) (\<lambda>g. g\<lparr>vpte_list := (pt, j) # vpte_list g\<rparr>) s1 else s1);
                        s3 = ref_page pt (set_vpte_flags pt j flags s2)
                    in vret (Inr ()) (pmap_write_l2 pt j (pa OR pmap_calc_pa_bits h flags) s3)))))"

definition pmap_remove :: "hal \<Rightarrow> nat \<Rightarrow> u32 \<Rightarrow> vmem \<Rightarrow> (unit result \<times> vmem) option" where
  "pmap_remove h a va s =
     (if va = 0 then Some (Inl EFAULT, s)
      else if pde h a va s AND L1_TYPE_MASK h = L1_TYPE_INV h then Some (Inl EINVAL, s)
      else
        (let pt = pde_pt h (pde h a va s); j = pte_idx h va; e = l2_table s pt j
         in if e AND L2_TYPE_MASK h = L2_TYPE_INV h then Some (Inl EINVAL, s)
            else do {
              let s1 = (if vpte_flags s pt j AND MAP_PHYS h = 0
                        then upd_pg (pmap_pa_to_page (e AND L2_ADDR_MASK h)) (\<lambda>g. g\<lparr>vpte_list := remove1 (pt, j) (vpte_list g)\<rparr>) s
                        else s);
              let s2 = unref_page pt (pmap_write_l2 pt j (L2_TYPE_INV h) (set_vpte_flags pt j 0 s1));
              if reference_cnt (pages (vc s2) pt) = 0 then do {
                s3 \<leftarrow> pmap_free_pagetable pt (pmap_write_l1 (as_pmap s a) (pde_idx h va) (L1_TYPE_INV h) s2);
                Some (Inr (), s3) }
              else Some (Inr (), s2) }))"

text \<open>The address zero returns at once; an address that is not mapped is a panic.\<close>

definition pmap_protect :: "hal \<Rightarrow> nat \<Rightarrow> u32 \<Rightarrow> u32 \<Rightarrow> vmem \<Rightarrow> (unit result \<times> vmem) option" where
  "pmap_protect h a va flags s =
     (if va = 0 then Some (Inr (), s)
      else do {
        kassert (pde h a va s AND L1_TYPE_MASK h \<noteq> L1_TYPE_INV h);
        let pt = pde_pt h (pde h a va s);
        let j = pte_idx h va;
        let e = l2_table s pt j;
        kassert (e AND L2_TYPE_MASK h \<noteq> L2_TYPE_INV h);
        Some (Inr (), pmap_write_l2 pt j ((e AND L2_ADDR_MASK h) OR pmap_calc_pa_bits h flags) (set_vpte_flags pt j flags s)) })"

text \<open>The first 2048 entries of a directory are of the user's part, the others are the kernel's.\<close>

definition pmap_create :: "hal \<Rightarrow> nat \<Rightarrow> vmem \<Rightarrow> unit result \<times> vmem" where
  "pmap_create h a s =
     (case free_pmappagedir_list s of
        [] \<Rightarrow> (Inl EPERM, s)
      | pd # pds \<Rightarrow>
          (Inr (), s\<lparr>free_pmappagedir_list := pds,
             l1_table := (l1_table s)(pd := (\<lambda>t. if t < 2048 then L1_TYPE_INV h
                else if t < 4096 then root_pagedir s t else l1_table s pd t)),
             as_pmap := (as_pmap s)(a := pd)\<rparr>))"

definition pmap_destroy :: "nat \<Rightarrow> vmem \<Rightarrow> vmem" where
  "pmap_destroy a s = s\<lparr>free_pmappagedir_list := free_pmappagedir_list s @ [as_pmap s a]\<rparr>"

definition pmap_supports_cache_policy :: "u32 \<Rightarrow> unit result" where
  "pmap_supports_cache_policy flags = Inr ()"

section \<open>The tables at boot\<close>

definition init_memory_map :: "vmem \<Rightarrow> vmem" where
  "init_memory_map s =
     (let c = vc s
      in s\<lparr>vc := c\<lparr>pages := (\<lambda>t. if t < max_page s
           then pmap_page_init ((pages c t)\<lparr>mflags := 0, pg_vnode := None, file_offset := 0, bflags := 0, reference_cnt := 0\<rparr>)
           else pages c t)\<rparr>\<rparr>)"

definition init_memregion_list :: "nat \<Rightarrow> vm \<Rightarrow> vm" where
  "init_memregion_list max_memregion s =
     s\<lparr>memregions := (\<lambda>t. if t < max_memregion then (memregions s t)\<lparr>mr_type := MR_TYPE_UNALLOCATED\<rparr> else memregions s t),
       unused_memregion_list := [0..<max_memregion]\<rparr>"

definition init_pmappagedir_table :: "nat \<Rightarrow> vmem \<Rightarrow> vmem" where
  "init_pmappagedir_table max_process s = s\<lparr>free_pmappagedir_list := [0..<max_process]\<rparr>"

definition init_pageframe_flags :: "nat \<Rightarrow> nat \<Rightarrow> u32 \<Rightarrow> vmem \<Rightarrow> vmem" where
  "init_pageframe_flags base ceiling flags s =
     fold (\<lambda>t. upd_pg t (\<lambda>g. g\<lparr>mflags := flags\<rparr>)) [ALIGN_DOWN base div PAGE_SIZE..<ALIGN_UP ceiling div PAGE_SIZE] s"

text \<open>The arguments are not used; \<open>heap\<close> is the physical end of the kernel's heap, \<open>ifs\<close> the address of the image.\<close>

definition init_free_page_list :: "nat \<Rightarrow> nat \<Rightarrow> vmem \<Rightarrow> vmem" where
  "init_free_page_list heap ifs s =
     fold (\<lambda>t s1.
       if t * PAGE_SIZE > heap \<and> mflags (pages (vc s1) t) AND PGF_INUSE = 0 then
         upd_pg t (\<lambda>g. g\<lparr>bflags := 0\<rparr>) (s1\<lparr>vc := (vc s1)\<lparr>free_page_queue := free_page_queue (vc s1) @ [t]\<rparr>\<rparr>)
       else s1) [0..<(ifs + PAGE_SIZE - 1) div PAGE_SIZE] s"

section \<open>Page tables as a map\<close>

text \<open>What the code relies on of the processor's entries: addresses and attributes do not overlap.\<close>

definition hal_ok :: "hal \<Rightarrow> bool" where
  "hal_ok h \<longleftrightarrow> L1_TYPE_INV h AND L1_TYPE_MASK h = L1_TYPE_INV h \<and> L2_TYPE_INV h AND L2_TYPE_MASK h = L2_TYPE_INV h
     \<and> (\<forall>va. pte_idx h va < 256)
     \<and> (\<forall>p < 2 ^ 20. (page_pa p OR L1_TYPE_C h) AND L1_TYPE_MASK h \<noteq> L1_TYPE_INV h
          \<and> (page_pa p OR L1_TYPE_C h) AND L1_C_ADDR_MASK h = page_pa p)
     \<and> (\<forall>p < 2 ^ 20. \<forall>flags. (page_pa p OR pmap_calc_pa_bits h flags) AND L2_TYPE_MASK h \<noteq> L2_TYPE_INV h
          \<and> (page_pa p OR pmap_calc_pa_bits h flags) AND L2_ADDR_MASK h = page_pa p)"

text \<open>The table of an address space for an index of its directory, and the entries of a table.\<close>

definition has_table :: "hal \<Rightarrow> nat \<Rightarrow> nat \<Rightarrow> vmem \<Rightarrow> bool" where
  "has_table h a i s \<longleftrightarrow> l1_table s (as_pmap s a) i AND L1_TYPE_MASK h \<noteq> L1_TYPE_INV h"

definition table_of :: "hal \<Rightarrow> nat \<Rightarrow> nat \<Rightarrow> vmem \<Rightarrow> nat" where
  "table_of h a i s = pde_pt h (l1_table s (as_pmap s a) i)"

definition used :: "hal \<Rightarrow> nat \<Rightarrow> nat \<Rightarrow> vmem \<Rightarrow> bool" where
  "used h pt j s \<longleftrightarrow> l2_table s pt j AND L2_TYPE_MASK h \<noteq> L2_TYPE_INV h"

definition entry :: "hal \<Rightarrow> nat \<Rightarrow> nat \<Rightarrow> nat \<Rightarrow> vmem \<Rightarrow> (u32 \<times> u32) option" where
  "entry h a i j s =
     (if has_table h a i s \<and> used h (table_of h a i s) j s
      then Some (l2_table s (table_of h a i s) j AND L2_ADDR_MASK h, vpte_flags s (table_of h a i s) j) else None)"

lemma extract_entry: "pmap_extract h a va s = entry h a (pde_idx h va) (pte_idx h va) s"
  by (simp add: pmap_extract_def entry_def has_table_def table_of_def used_def pde_def Let_def)

text \<open>A page that holds a table of the address spaces \<open>A\<close>: in use, not cached, and counted by its entries.\<close>

definition table_page :: "hal \<Rightarrow> nat \<Rightarrow> vmem \<Rightarrow> bool" where
  "table_page h pt s \<longleftrightarrow> busy (vc s) pt \<and> pg_vnode (pages (vc s) pt) = None \<and> \<not> valid (vc s) pt
     \<and> \<not> bit (bflags (pages (vc s) pt)) 4 \<and> \<not> bit (bflags (pages (vc s) pt)) 5
     \<and> reference_cnt (pages (vc s) pt) = int (card {j. j < 256 \<and> used h pt j s})"

definition tables :: "hal \<Rightarrow> nat set \<Rightarrow> vmem \<Rightarrow> nat set" where
  "tables h A s = {table_of h a i s |a i. a \<in> A \<and> i < 2048 \<and> has_table h a i s}"

definition vm_inv :: "hal \<Rightarrow> nat set \<Rightarrow> nat set \<Rightarrow> vmem \<Rightarrow> bool" where
  "vm_inv h A P s \<longleftrightarrow> cache_inv P (vc s) \<and> same_files (cfs (vc s)) (cfs (vc s))
     \<and> (\<forall>p \<in> P. p < max_page s) \<and> max_page s \<le> 2 ^ 20 \<and> inj_on (as_pmap s) A
     \<and> tables h A s \<subseteq> P \<and> (\<forall>pt \<in> tables h A s. table_page h pt s)
     \<and> (\<forall>a \<in> A. \<forall>i < 2048. \<forall>a' \<in> A. \<forall>i' < 2048. has_table h a i s \<and> has_table h a' i' s
          \<and> table_of h a i s = table_of h a' i' s \<longrightarrow> a = a' \<and> i = i')"

text \<open>Pages in use for anything but tables are left alone.\<close>

definition kept :: "hal \<Rightarrow> nat set \<Rightarrow> vmem \<Rightarrow> vmem \<Rightarrow> bool" where
  "kept h A s s' \<longleftrightarrow>
     (\<forall>p. busy (vc s) p \<and> p \<notin> tables h A s \<longrightarrow> busy (vc s') p \<and> p \<notin> tables h A s'
        \<and> pg_data (pages (vc s') p) = pg_data (pages (vc s) p) \<and> reference_cnt (pages (vc s') p) = reference_cnt (pages (vc s) p))"

lemma kept_trans: "kept h A s s1 \<Longrightarrow> kept h A s1 s2 \<Longrightarrow> kept h A s s2"
  by (simp add: kept_def)

lemma putblk_anon_ok:
  assumes inv: "cache_inv P c" and p: "p \<in> P" "busy c p" "pg_vnode (pages c p) = None" "\<not> bit (bflags (pages c p)) 4" "\<not> bit (bflags (pages c p)) 5"
    and f: "same_files (cfs c) f0"
  shows "\<exists>c'. putblk_anon p c = Some c' \<and> cache_inv P c' \<and> same_files (cfs c') f0
     \<and> pages c' = (pages c)(p := (pages c p)\<lparr>bflags := bflags (pages c p) AND NOT B_BUSY\<rparr>)
     \<and> free_page_queue c' = free_page_queue c @ [p]"
proof -
  note D = cache_invD [OF inv]
  let ?c = "upd_page p (\<lambda>g. g\<lparr>bflags := bflags g AND NOT B_BUSY\<rparr>) (add_to_free_page_queue_tail p c)"
  obtain f1 where f1: "cache_wakeup Rendez_page_list ?c = Some (?c\<lparr>cfs := f1\<rparr>)" "same_files f1 f0"
    using cache_wakeup_ok [of ?c f0] f by (auto simp: add_to_free_page_queue_tail_def)
  have idx: "index_ok P ?c" by (rule index_ok_cong [OF D(1)]) (simp_all add: add_to_free_page_queue_tail_def)
  have "q \<in> set (free_page_queue ?c) \<longleftrightarrow> q \<in> P \<and> \<not> busy ?c q" for q
    using D(3) [of q] p(1) by (cases "q = p") (auto simp: add_to_free_page_queue_tail_def)
  moreover have "distinct (free_page_queue ?c)" using D(2) D(3) [of p] p(2) by (simp add: add_to_free_page_queue_tail_def)
  moreover have "pg_vnode (pages ?c q) \<noteq> None" if "q \<in> P" "valid ?c q" for q
    using D(4) [of q] that by (cases "q = p") (auto simp: add_to_free_page_queue_tail_def)
  moreover have "(pg_vnode (pages ?c q) \<noteq> None \<longrightarrow> valid ?c q) \<and> \<not> bit (bflags (pages ?c q)) 4 \<and> \<not> bit (bflags (pages ?c q)) 5"
    if "q \<in> P" "\<not> busy ?c q" for q
    using D(5-7) [of q] that p by (cases "q = p") (auto simp: add_to_free_page_queue_tail_def)
  ultimately have "cache_inv P ?c" using idx unfolding cache_inv_def by blast
  then have "cache_inv P (?c\<lparr>cfs := f1\<rparr>)"
    using same_filesD(1) [OF f1(2)] same_filesD(1) [OF f] by (intro cache_inv_cfs) (simp_all add: add_to_free_page_queue_tail_def)
  then show ?thesis using f1 by (simp add: putblk_anon_def add_to_free_page_queue_tail_def)
qed

lemma getblk_anon_ok:
  assumes inv: "cache_inv P c" and "free_page_queue c \<noteq> []"
  shows "\<exists>p c'. getblk_anon c = Some (Return p, c') \<and> p \<in> P \<and> \<not> busy c p \<and> busy c' p \<and> cache_inv P c' \<and> cfs c' = cfs c
     \<and> (\<forall>q. q \<noteq> p \<longrightarrow> pages c' q = pages c q) \<and> \<not> valid c' p \<and> pg_vnode (pages c' p) = None
     \<and> \<not> bit (bflags (pages c' p)) 4 \<and> \<not> bit (bflags (pages c' p)) 5 \<and> free_page_queue c' = remove1 p (free_page_queue c)"
proof -
  from assms(2) obtain p where p: "find_available_blk c = Some p" by (auto simp: find_available_blk_def last_opt_def)
  obtain s1 where s1: "take_available p c = Some s1" "p \<in> P" "\<not> busy c p" "index_ok (P - {p}) s1" "cfs s1 = cfs c"
    "\<forall>q. q \<noteq> p \<longrightarrow> pages s1 q = pages c q" "busy s1 p" "\<not> valid s1 p"
    "\<not> bit (bflags (pages s1 p)) 4" "\<not> bit (bflags (pages s1 p)) 5" "free_page_queue s1 = remove1 p (free_page_queue c)"
    using take_available_ok [OF inv p] by auto
  let ?s2 = "upd_page p (\<lambda>g. g\<lparr>pg_vnode := None, file_offset := 0, pg_data := zero_page\<rparr>) s1"
  have "index_ok (P - {p}) ?s2" by (rule index_ok_cong [OF s1(4)]) auto
  then have "index_ok P ?s2" using index_ok_none [of ?s2 p P] s1(2) by simp
  then have "cache_inv P ?s2" using s1 by (intro cache_inv_handed_out [OF inv s1(2,3)]) auto
  then show ?thesis using p s1 by (simp add: getblk_anon_def)
qed

text \<open>Changes of a page that the cache does not look at.\<close>

lemma cache_inv_same:
  assumes "cache_inv P c" "cfs c' = cfs c" "free_page_queue c' = free_page_queue c" "page_lookup_hash c' = page_lookup_hash c"
    "page_list c' = page_list c"
    and same: "\<And>q. pg_vnode (pages c' q) = pg_vnode (pages c q) \<and> file_offset (pages c' q) = file_offset (pages c q)
       \<and> bflags (pages c' q) = bflags (pages c q)"
  shows "cache_inv P c'"
proof -
  have "index_ok P c'" by (rule index_ok_cong [OF cache_invD(1) [OF assms(1)]]) (simp_all add: assms)
  with assms show ?thesis unfolding cache_inv_def by simp
qed

lemma vm_invD:
  assumes "vm_inv h A P s"
  shows "cache_inv P (vc s)" "same_files (cfs (vc s)) (cfs (vc s))" "p \<in> P \<Longrightarrow> p < max_page s" "max_page s \<le> 2 ^ 20"
    "inj_on (as_pmap s) A" "tables h A s \<subseteq> P" "pt \<in> tables h A s \<Longrightarrow> table_page h pt s"
    "a \<in> A \<Longrightarrow> i < 2048 \<Longrightarrow> a' \<in> A \<Longrightarrow> i' < 2048 \<Longrightarrow> has_table h a i s \<Longrightarrow> has_table h a' i' s \<Longrightarrow>
       table_of h a i s = table_of h a' i' s \<Longrightarrow> a = a' \<and> i = i'"
  using assms unfolding vm_inv_def by blast+

lemma table_in_tables: "a \<in> A \<Longrightarrow> i < 2048 \<Longrightarrow> has_table h a i s \<Longrightarrow> table_of h a i s \<in> tables h A s"
  by (auto simp: tables_def)

lemma table_cong:
  assumes "l1_table s' = l1_table s" "as_pmap s' = as_pmap s"
  shows "has_table h a i s' = has_table h a i s" "table_of h a i s' = table_of h a i s" "tables h A s' = tables h A s"
  using assms by (simp_all add: has_table_def table_of_def tables_def)

lemma unat_page_pa: "p < 2 ^ 20 \<Longrightarrow> unat (page_pa p) = p * PAGE_SIZE"
  unfolding page_pa_def unat_of_nat PAGE_SIZE_def by (simp add: take_bit_nat_eq_self_iff)

lemma page_of_page_pa: "p < 2 ^ 20 \<Longrightarrow> pmap_pa_to_page (page_pa p) = p"
  by (simp add: pmap_pa_to_page_def unat_page_pa PAGE_SIZE_def)

text \<open>A new page is none of the tables.\<close>

lemma alloc_page_ok:
  assumes inv: "vm_inv h A P s" and "free_page_queue (vc s) \<noteq> []"
  shows "\<exists>p s'. alloc_page s = Some (Returned p, s') \<and> p \<in> P \<and> p \<notin> tables h A s \<and> \<not> busy (vc s) p \<and> busy (vc s') p
     \<and> pg_vnode (pages (vc s') p) = None \<and> \<not> valid (vc s') p \<and> \<not> bit (bflags (pages (vc s') p)) 4
     \<and> \<not> bit (bflags (pages (vc s') p)) 5 \<and> reference_cnt (pages (vc s') p) = 0
     \<and> vm_inv h A P s' \<and> l1_table s' = l1_table s \<and> l2_table s' = l2_table s \<and> vpte_flags s' = vpte_flags s
     \<and> as_pmap s' = as_pmap s \<and> max_page s' = max_page s \<and> (\<forall>q. q \<noteq> p \<longrightarrow> pages (vc s') q = pages (vc s) q)
     \<and> free_page_queue (vc s') = remove1 p (free_page_queue (vc s))"
proof -
  note D = vm_invD [OF inv]
  obtain p c where c: "getblk_anon (vc s) = Some (Return p, c)" "p \<in> P" "\<not> busy (vc s) p" "busy c p" "cache_inv P c"
    "cfs c = cfs (vc s)" "\<forall>q. q \<noteq> p \<longrightarrow> pages c q = pages (vc s) q" "\<not> valid c p" "pg_vnode (pages c p) = None"
    "\<not> bit (bflags (pages c p)) 4" "\<not> bit (bflags (pages c p)) 5" "free_page_queue c = remove1 p (free_page_queue (vc s))"
    using getblk_anon_ok [OF D(1) assms(2)] by blast
  let ?s = "upd_pg p (\<lambda>g. pmap_page_init (g\<lparr>mflags := PGF_INUSE, reference_cnt := 0\<rparr>)) (s\<lparr>vc := c\<rparr>)"
  have nt: "p \<notin> tables h A s" using D(7) c(3) by (auto simp: table_page_def)
  have tab: "tables h A ?s = tables h A s" by (rule table_cong) simp_all
  have "cache_inv P (vc ?s)" by (rule cache_inv_same [OF c(5)]) (simp_all add: pmap_page_init_def)
  moreover have "table_page h pt ?s" if "pt \<in> tables h A ?s" for pt
    using D(7) [of pt] that tab nt c(7) by (auto simp: table_page_def used_def)
  ultimately have "vm_inv h A P ?s"
    using inv tab c(6) by (auto simp: vm_inv_def has_table_def table_of_def)
  with c nt show ?thesis by (simp add: alloc_page_def vret_def pmap_page_init_def)
qed

text \<open>The address space gets a new table with no entries.\<close>

lemma new_table_ok:
  assumes hal: "hal_ok h" and inv: "vm_inv h A P s" and free: "free_page_queue (vc s) \<noteq> []"
    and a: "a \<in> A" "i < 2048" "\<not> has_table h a i s"
  shows "\<exists>pt s'. pmap_alloc_pagetable h s = Some (Returned pt, s') \<and> as_pmap s' = as_pmap s
     \<and> (let s1 = pmap_write_l1 (as_pmap s a) i (page_pa pt OR L1_TYPE_C h) s'
        in vm_inv h A P s1 \<and> has_table h a i s1 \<and> table_of h a i s1 = pt \<and> as_pmap s1 = as_pmap s
           \<and> (\<forall>j < 256. \<not> used h pt j s1) \<and> kept h A s s1 \<and> free_page_queue (vc s1) = remove1 pt (free_page_queue (vc s))
           \<and> (\<forall>a' \<in> A. \<forall>i' < 2048. \<forall>j' < 256. entry h a' i' j' s1 = entry h a' i' j' s))"
proof -
  note D = vm_invD [OF inv]
  obtain pt s0 where p: "alloc_page s = Some (Returned pt, s0)" "pt \<in> P" "pt \<notin> tables h A s" "\<not> busy (vc s) pt" "busy (vc s0) pt"
    "pg_vnode (pages (vc s0) pt) = None" "\<not> valid (vc s0) pt" "\<not> bit (bflags (pages (vc s0) pt)) 4"
    "\<not> bit (bflags (pages (vc s0) pt)) 5" "reference_cnt (pages (vc s0) pt) = 0" "vm_inv h A P s0"
    "l1_table s0 = l1_table s" "l2_table s0 = l2_table s" "vpte_flags s0 = vpte_flags s" "as_pmap s0 = as_pmap s" "max_page s0 = max_page s"
    "\<forall>q. q \<noteq> pt \<longrightarrow> pages (vc s0) q = pages (vc s) q" "free_page_queue (vc s0) = remove1 pt (free_page_queue (vc s))"
    using alloc_page_ok [OF inv free] by metis
  note D0 = vm_invD [OF p(11)]
  define s' where "s' = s0\<lparr>l2_table := (l2_table s0)(pt := (\<lambda>i. if i < 256 then L2_TYPE_INV h else l2_table s0 pt i)),
      vpte_flags := (vpte_flags s0)(pt := (\<lambda>i. if i < 256 then 0 else vpte_flags s0 pt i))\<rparr>"
  define s1 where "s1 = pmap_write_l1 (as_pmap s a) i (page_pa pt OR L1_TYPE_C h) s'"
  have ptlt: "pt < 2 ^ 20" using D(3) [OF p(2)] D(4) by simp
  note unat_pa = unat_page_pa [OF ptlt]
  have l1: "l1_table s1 (as_pmap s1 a') i' = (if a' = a \<and> i' = i then page_pa pt OR L1_TYPE_C h else l1_table s (as_pmap s a') i')"
    if "a' \<in> A" for a' i'
    using that a(1) D(5) p(12,15) by (auto simp: s1_def s'_def inj_on_def)
  have pos: "0 < PAGE_SIZE" by (simp add: PAGE_SIZE_def)
  have ht: "has_table h a' i' s1 \<longleftrightarrow> has_table h a' i' s \<or> a' = a \<and> i' = i" if "a' \<in> A" for a' i'
    using l1 [OF that, of i'] hal ptlt a(3) by (auto simp: has_table_def hal_ok_def)
  have tof: "table_of h a' i' s1 = (if a' = a \<and> i' = i then pt else table_of h a' i' s)" if "a' \<in> A" for a' i'
    using l1 [OF that, of i'] hal ptlt unat_pa pos by (auto simp: table_of_def pde_pt_def hal_ok_def pmap_pa_to_page_def)
  have tabs: "tables h A s1 = insert pt (tables h A s)"
    using ht tof a by (auto simp: tables_def) metis+
  have usd: "used h q j s1 \<longleftrightarrow> (if q = pt \<and> j < 256 then False else used h q j s)" for q j
    using hal p(13) by (auto simp: used_def s1_def s'_def hal_ok_def)
  have pg: "vc s1 = vc s0" by (simp add: s1_def s'_def)
  have tp: "table_page h q s1" if "q \<in> tables h A s1" for q
  proof (cases "q = pt")
    case True
    have "{j. j < 256 \<and> used h pt j s1} = {}" using usd by auto
    then show ?thesis using True p by (simp add: table_page_def pg)
  next
    case False
    with that tabs have "q \<in> tables h A s" by simp
    from D(7) [OF this] show ?thesis using False usd p(17) by (simp add: table_page_def pg)
  qed
  have ent: "entry h a' i' j' s1 = entry h a' i' j' s" if "a' \<in> A" "i' < 2048" "j' < 256" for a' i' j'
  proof (cases "a' = a \<and> i' = i")
    case True
    then show ?thesis using a(3) usd ht [OF that(1), of i'] tof [OF that(1), of i'] that(3) by (simp add: entry_def)
  next
    case False
    have "table_of h a' i' s \<noteq> pt" if "has_table h a' i' s"
      using table_in_tables [OF \<open>a' \<in> A\<close> \<open>i' < 2048\<close> that] p(3) by auto
    then show ?thesis
      using False usd ht [OF that(1), of i'] tof [OF that(1), of i'] p(13,14)
      by (auto simp: entry_def s1_def s'_def)
  qed
  have "a' = a'' \<and> i' = i''" if "a' \<in> A" "i' < 2048" "a'' \<in> A" "i'' < 2048" "has_table h a' i' s1" "has_table h a'' i'' s1"
     "table_of h a' i' s1 = table_of h a'' i'' s1" for a' i' a'' i''
    using D(8) [of a' i' a'' i''] that ht tof p(3) table_in_tables [of a' A i' h s] table_in_tables [of a'' A i'' h s]
    by (auto split: if_splits)
  then have inv1: "vm_inv h A P s1"
    using tp tabs D0(1-5) D(6) p(2) pg unfolding vm_inv_def by (auto simp: s1_def s'_def)
  have kept1: "kept h A s s1" using p(4,17) tabs by (auto simp: kept_def pg)
  have alloc: "pmap_alloc_pagetable h s = Some (Returned pt, s')" using p(1) by (simp add: pmap_alloc_pagetable_def vret_def s'_def)
  have as: "as_pmap s' = as_pmap s" "as_pmap s1 = as_pmap s" using p(15) by (simp_all add: s1_def s'_def)
  have new: "has_table h a i s1" "table_of h a i s1 = pt" "\<forall>j < 256. \<not> used h pt j s1"
    using ht [OF a(1), of i] tof [OF a(1), of i] usd by simp_all
  have queue: "free_page_queue (vc s1) = remove1 pt (free_page_queue (vc s))" using p(18) pg by simp
  show ?thesis
    by (rule exI [of _ pt], rule exI [of _ s'], unfold Let_def, fold s1_def) (use inv1 kept1 alloc as new ent queue in blast)
qed

text \<open>One entry of a table is written, and the table's count follows.\<close>

definition entry_written :: "hal \<Rightarrow> nat \<Rightarrow> nat \<Rightarrow> u32 \<Rightarrow> u32 \<Rightarrow> vmem \<Rightarrow> vmem \<Rightarrow> bool" where
  "entry_written h pt j e fl s s' \<longleftrightarrow>
     l1_table s' = l1_table s \<and> as_pmap s' = as_pmap s \<and> max_page s' = max_page s
     \<and> l2_table s' = (l2_table s)(pt := (l2_table s pt)(j := e)) \<and> vpte_flags s' = (vpte_flags s)(pt := (vpte_flags s pt)(j := fl))
     \<and> cfs (vc s') = cfs (vc s) \<and> free_page_queue (vc s') = free_page_queue (vc s)
     \<and> page_lookup_hash (vc s') = page_lookup_hash (vc s) \<and> page_list (vc s') = page_list (vc s)
     \<and> (\<forall>q. pg_vnode (pages (vc s') q) = pg_vnode (pages (vc s) q) \<and> file_offset (pages (vc s') q) = file_offset (pages (vc s) q)
          \<and> bflags (pages (vc s') q) = bflags (pages (vc s) q) \<and> pg_data (pages (vc s') q) = pg_data (pages (vc s) q)
          \<and> reference_cnt (pages (vc s') q) = reference_cnt (pages (vc s) q)
              + (if q = pt then of_bool (e AND L2_TYPE_MASK h \<noteq> L2_TYPE_INV h) - of_bool (used h pt j s) else 0))"

lemma entry_written_ok:
  assumes inv: "vm_inv h A P s" and a: "a \<in> A" "i < 2048" "has_table h a i s" and j: "j < 256"
    and w: "entry_written h (table_of h a i s) j e fl s s'"
  shows "vm_inv h A P s'" "kept h A s s'"
    "entry h a i j s' = (if e AND L2_TYPE_MASK h \<noteq> L2_TYPE_INV h then Some (e AND L2_ADDR_MASK h, fl) else None)"
    "a' \<in> A \<Longrightarrow> i' < 2048 \<Longrightarrow> (a', i', j') \<noteq> (a, i, j) \<Longrightarrow> entry h a' i' j' s' = entry h a' i' j' s"
proof -
  note D = vm_invD [OF inv]
  define pt where "pt = table_of h a i s"
  note W = w [unfolded entry_written_def, folded pt_def]
  have t: "has_table h x y s' = has_table h x y s" "table_of h x y s' = table_of h x y s" "tables h A s' = tables h A s" for x y
    using W by (auto intro!: table_cong)
  have usd: "used h q k s' \<longleftrightarrow> (if q = pt \<and> k = j then e AND L2_TYPE_MASK h \<noteq> L2_TYPE_INV h else used h q k s)" for q k
    using W by (auto simp: used_def)
  have tp: "table_page h q s'" if "q \<in> tables h A s" for q
  proof (cases "q = pt")
    case False
    then show ?thesis using D(7) [OF that] W usd by (simp add: table_page_def)
  next
    case True
    let ?U = "{k. k < 256 \<and> k \<noteq> j \<and> used h pt k s}"
    have "{k. k < 256 \<and> used h pt k s'} = (if e AND L2_TYPE_MASK h \<noteq> L2_TYPE_INV h then insert j ?U else ?U)"
      "{k. k < 256 \<and> used h pt k s} = (if used h pt j s then insert j ?U else ?U)"
      using usd j by auto
    moreover have "finite ?U" "j \<notin> ?U" by auto
    ultimately show ?thesis using D(7) [OF that] True W by (simp add: table_page_def)
  qed
  have "cache_inv P (vc s')" by (rule cache_inv_same [OF D(1)]) (use W in auto)
  then show "vm_inv h A P s'"
    using inv tp W by (auto simp: vm_inv_def t)
  have "pt \<in> tables h A s" using table_in_tables [OF a] by (simp add: pt_def)
  then show "kept h A s s'" using W by (auto simp: kept_def t)
  show "entry h a i j s' = (if e AND L2_TYPE_MASK h \<noteq> L2_TYPE_INV h then Some (e AND L2_ADDR_MASK h, fl) else None)"
    using usd [of pt j] a(3) W by (simp add: entry_def t pt_def [symmetric])
  show "entry h a' i' j' s' = entry h a' i' j' s" if "a' \<in> A" "i' < 2048" "(a', i', j') \<noteq> (a, i, j)"
  proof (cases "has_table h a' i' s \<and> table_of h a' i' s = pt")
    case True
    then have "a' = a \<and> i' = i" using D(8) [of a' i' a i] that a by (simp add: pt_def)
    then show ?thesis using that(3) usd W by (simp add: entry_def t pt_def [symmetric])
  next
    case False
    then show ?thesis using usd W by (auto simp: entry_def t)
  qed
qed

text \<open>A table without entries is given back.\<close>

lemma drop_table_ok:
  assumes hal: "hal_ok h" and inv: "vm_inv h A P s" and a: "a \<in> A" "i < 2048" "has_table h a i s"
    and none: "reference_cnt (pages (vc s) (table_of h a i s)) = 0"
  shows "\<exists>s'. pmap_free_pagetable (table_of h a i s) (pmap_write_l1 (as_pmap s a) i (L1_TYPE_INV h) s) = Some s'
     \<and> vm_inv h A P s' \<and> kept h A s s' \<and> as_pmap s' = as_pmap s \<and> set (free_page_queue (vc s)) \<subseteq> set (free_page_queue (vc s'))
     \<and> (\<forall>a' \<in> A. \<forall>i' < 2048. \<forall>j' < 256. entry h a' i' j' s' = entry h a' i' j' s)"
proof -
  note D = vm_invD [OF inv]
  define pt where "pt = table_of h a i s"
  have pt: "pt \<in> tables h A s" using table_in_tables [OF a] by (simp add: pt_def)
  note tp = D(7) [OF pt, unfolded table_page_def]
  have "card {j. j < 256 \<and> used h pt j s} = 0" using tp none by (simp add: pt_def)
  then have empty: "\<not> used h pt j s" if "j < 256" for j using that by auto
  define c where "c = upd_page pt (\<lambda>g. g\<lparr>reference_cnt := reference_cnt g - 1\<rparr>) (vc s)"
  have ci: "cache_inv P c" by (rule cache_inv_same [OF D(1)]) (auto simp: c_def)
  obtain c' where c': "putblk_anon pt c = Some c'" "cache_inv P c'" "same_files (cfs c') (cfs (vc s))"
    "pages c' = (pages c)(pt := (pages c pt)\<lparr>bflags := bflags (pages c pt) AND NOT B_BUSY\<rparr>)"
    "free_page_queue c' = free_page_queue c @ [pt]"
    using putblk_anon_ok [OF ci, of pt "cfs (vc s)"] tp D(2,6) pt by (auto simp: c_def)
  define s' where "s' = (pmap_write_l1 (as_pmap s a) i (L1_TYPE_INV h) s)\<lparr>vc := c'\<rparr>"
  have ptP: "pt < max_page s" using D(3,6) pt by auto
  have free: "pmap_free_pagetable pt (pmap_write_l1 (as_pmap s a) i (L1_TYPE_INV h) s) = Some s'"
    using c'(1) none ptP
    by (simp add: pmap_free_pagetable_def free_page_def unref_page_def upd_pg_def c_def s'_def pt_def Let_def)
  have l1: "l1_table s' (as_pmap s' a') i' = (if a' = a \<and> i' = i then L1_TYPE_INV h else l1_table s (as_pmap s a') i')"
    if "a' \<in> A" for a' i'
    using that a(1) D(5) by (auto simp: s'_def inj_on_def)
  have ht: "has_table h a' i' s' \<longleftrightarrow> has_table h a' i' s \<and> (a', i') \<noteq> (a, i)" if "a' \<in> A" for a' i'
    using l1 [OF that, of i'] hal by (auto simp: has_table_def hal_ok_def)
  have tof: "table_of h a' i' s' = table_of h a' i' s" if "a' \<in> A" "(a', i') \<noteq> (a, i)" for a' i'
    using l1 [OF that(1), of i'] that(2) by (auto simp: table_of_def)
  have usd: "used h q j s' = used h q j s" for q j by (simp add: used_def s'_def)
  have vc': "vc s' = c'" "vpte_flags s' = vpte_flags s" "l2_table s' = l2_table s" "as_pmap s' = as_pmap s" "max_page s' = max_page s"
    by (simp_all add: s'_def)
  have tabs: "tables h A s' \<subseteq> tables h A s - {pt}"
  proof
    fix q assume "q \<in> tables h A s'"
    then obtain a' i' where q: "q = table_of h a' i' s'" "a' \<in> A" "i' < 2048" "has_table h a' i' s'" by (auto simp: tables_def)
    with ht tof have q': "q = table_of h a' i' s" "has_table h a' i' s" "(a', i') \<noteq> (a, i)" by auto
    with D(8) [of a' i' a i] q a have "q \<noteq> pt" by (auto simp: pt_def)
    with q' q show "q \<in> tables h A s - {pt}" using table_in_tables [of a' A i'] by auto
  qed
  have tp': "table_page h q s'" if "q \<in> tables h A s'" for q
    using that tabs D(7) [of q] c'(4) by (auto simp: table_page_def usd vc' c_def)
  have ent: "entry h a' i' j' s' = entry h a' i' j' s" if "a' \<in> A" "i' < 2048" "j' < 256" for a' i' j'
    using ht [OF that(1), of i'] tof [OF that(1), of i'] usd empty [OF that(3)] a(3)
    by (cases "(a', i') = (a, i)") (auto simp: entry_def pt_def vc')
  have inj: "a' = a'' \<and> i' = i''" if "a' \<in> A" "i' < 2048" "a'' \<in> A" "i'' < 2048" "has_table h a' i' s'" "has_table h a'' i'' s'"
     "table_of h a' i' s' = table_of h a'' i'' s'" for a' i' a'' i''
    using D(8) [of a' i' a'' i''] that ht tof by auto
  have sf: "same_files (cfs c') (cfs c')" using c'(3) by (auto simp: same_files_def)
  have "vm_inv h A P s'"
    unfolding vm_inv_def using c'(2) sf D(3-6) tabs tp' inj by (auto simp: vc')
  moreover have "kept h A s s'" using pt tabs c'(4) by (auto simp: kept_def vc' c_def)
  ultimately show ?thesis
    using free ent c'(5) unfolding pt_def [symmetric] by (intro exI [of _ s']) (auto simp: vc' c_def)
qed

text \<open>What an operation on the page of \<open>va\<close> leaves alone: the other pages of every address space.\<close>

definition others_same :: "hal \<Rightarrow> nat set \<Rightarrow> nat \<Rightarrow> u32 \<Rightarrow> vmem \<Rightarrow> vmem \<Rightarrow> bool" where
  "others_same h A a va s s' \<longleftrightarrow>
     (\<forall>a' \<in> A. \<forall>va'. pde_idx h va' < 2048 \<and> (a', pde_idx h va', pte_idx h va') \<noteq> (a, pde_idx h va, pte_idx h va) \<longrightarrow>
        pmap_extract h a' va' s' = pmap_extract h a' va' s)"

lemma others_same_trans: "others_same h A a va s s1 \<Longrightarrow> others_same h A a va s1 s2 \<Longrightarrow> others_same h A a va s s2"
  by (simp add: others_same_def)

lemma enter_entry:
  fixes flags :: u32
  assumes hal: "hal_ok h" and inv: "vm_inv h A P s" and a: "a \<in> A" "pde_idx h va < 2048" "has_table h a (pde_idx h va) s"
    and free: "\<not> used h (table_of h a (pde_idx h va) s) (pte_idx h va) s" and q: "q < 2 ^ 20"
  defines "pt \<equiv> table_of h a (pde_idx h va) s"
  defines "s' \<equiv> pmap_write_l2 pt (pte_idx h va) (page_pa q OR pmap_calc_pa_bits h flags)
     (ref_page pt (set_vpte_flags pt (pte_idx h va) flags
       (if flags AND MAP_PHYS h = 0 then upd_pg (pmap_pa_to_page (page_pa q)) (\<lambda>g. g\<lparr>vpte_list := (pt, pte_idx h va) # vpte_list g\<rparr>) s else s)))"
  shows "vm_inv h A P s' \<and> kept h A s s' \<and> pmap_extract h a va s' = Some (page_pa q, flags) \<and> others_same h A a va s s'
     \<and> free_page_queue (vc s') = free_page_queue (vc s)"
proof -
  have j: "pte_idx h va < 256" using hal by (simp add: hal_ok_def)
  have e: "(page_pa q OR pmap_calc_pa_bits h flags) AND L2_TYPE_MASK h \<noteq> L2_TYPE_INV h"
    "(page_pa q OR pmap_calc_pa_bits h flags) AND L2_ADDR_MASK h = page_pa q"
    using hal q by (auto simp: hal_ok_def)
  have "entry_written h pt (pte_idx h va) (page_pa q OR pmap_calc_pa_bits h flags) flags s s'"
    using e(1) free unfolding entry_written_def s'_def pt_def by (simp add: ref_page_def)
  note W = entry_written_ok [OF inv a j this [unfolded pt_def]]
  have "others_same h A a va s s'" unfolding others_same_def extract_entry using W(4) by blast
  moreover have "free_page_queue (vc s') = free_page_queue (vc s)" by (simp add: s'_def ref_page_def)
  ultimately show ?thesis using W(1-3) e by (simp add: extract_entry)
qed

lemma pmap_enter_ok:
  assumes hal: "hal_ok h" and inv: "vm_inv h A P s" and a: "a \<in> A" "pde_idx h va < 2048" "va \<noteq> 0"
    and none: "pmap_extract h a va s = None" and q: "q < 2 ^ 20" and free: "free_page_queue (vc s) \<noteq> []"
  shows "\<exists>s'. pmap_enter h a va (page_pa q) flags s = Some (Returned (Inr ()), s') \<and> vm_inv h A P s' \<and> kept h A s s'
     \<and> pmap_extract h a va s' = Some (page_pa q, flags) \<and> others_same h A a va s s'
     \<and> length (free_page_queue (vc s)) - 1 \<le> length (free_page_queue (vc s'))"
proof (cases "has_table h a (pde_idx h va) s")
  case True
  then have "\<not> used h (table_of h a (pde_idx h va) s) (pte_idx h va) s" using none by (auto simp: extract_entry entry_def)
  from enter_entry [OF hal inv a(1,2) True this q, of flags] this show ?thesis
    using a(3) True by (auto simp: pmap_enter_def Let_def has_table_def pde_def table_of_def used_def vret_def)
next
  case False
  have j: "pte_idx h va < 256" using hal by (simp add: hal_ok_def)
  obtain pt s0 where n: "pmap_alloc_pagetable h s = Some (Returned pt, s0)" "as_pmap s0 = as_pmap s"
    "let s1 = pmap_write_l1 (as_pmap s a) (pde_idx h va) (page_pa pt OR L1_TYPE_C h) s0
        in vm_inv h A P s1 \<and> has_table h a (pde_idx h va) s1 \<and> table_of h a (pde_idx h va) s1 = pt \<and> as_pmap s1 = as_pmap s
           \<and> (\<forall>j < 256. \<not> used h pt j s1) \<and> kept h A s s1 \<and> free_page_queue (vc s1) = remove1 pt (free_page_queue (vc s))
           \<and> (\<forall>a' \<in> A. \<forall>i' < 2048. \<forall>j' < 256. entry h a' i' j' s1 = entry h a' i' j' s)"
    using new_table_ok [OF hal inv free a(1,2) False] by metis
  define s1 where "s1 = pmap_write_l1 (as_pmap s a) (pde_idx h va) (page_pa pt OR L1_TYPE_C h) s0"
  note N = n(3) [folded s1_def, unfolded Let_def]
  have u: "\<not> used h pt (pte_idx h va) s1" using N j by blast
  then have u': "\<not> used h (table_of h a (pde_idx h va) s1) (pte_idx h va) s1" using N by blast
  have same: "pmap_extract h a' va' s1 = pmap_extract h a' va' s" if "a' \<in> A" "pde_idx h va' < 2048" for a' va'
    using N that hal unfolding extract_entry hal_ok_def by blast
  define s2 where "s2 = pmap_write_l2 pt (pte_idx h va) (page_pa q OR pmap_calc_pa_bits h flags)
     (ref_page pt (set_vpte_flags pt (pte_idx h va) flags
       (if flags AND MAP_PHYS h = 0 then upd_pg (pmap_pa_to_page (page_pa q)) (\<lambda>g. g\<lparr>vpte_list := (pt, pte_idx h va) # vpte_list g\<rparr>) s1 else s1)))"
  have E: "vm_inv h A P s2 \<and> kept h A s1 s2 \<and> pmap_extract h a va s2 = Some (page_pa q, flags) \<and> others_same h A a va s1 s2
      \<and> free_page_queue (vc s2) = free_page_queue (vc s1)"
    using enter_entry [OF hal _ a(1,2) _ u' q, of P flags] N unfolding s2_def by auto
  have "pmap_enter h a va (page_pa q) flags s = Some (Returned (Inr ()), s2)"
    using a(3) False n(1) u unfolding pmap_enter_def Let_def s2_def
    by (simp add: has_table_def pde_def vret_def used_def s1_def [symmetric])
  moreover have "others_same h A a va s s2" using E same by (simp add: others_same_def)
  moreover have "kept h A s s2" using N E kept_trans by blast
  moreover have "length (free_page_queue (vc s)) - 1 \<le> length (free_page_queue (vc s2))" using N E by (simp add: length_remove1)
  ultimately show ?thesis using E by blast
qed

lemma pmap_remove_ok:
  assumes hal: "hal_ok h" and inv: "vm_inv h A P s" and a: "a \<in> A" "pde_idx h va < 2048" "va \<noteq> 0"
    and some: "pmap_extract h a va s = Some (pa, flags)"
  shows "\<exists>s'. pmap_remove h a va s = Some (Inr (), s') \<and> vm_inv h A P s' \<and> kept h A s s'
     \<and> pmap_extract h a va s' = None \<and> others_same h A a va s s' \<and> set (free_page_queue (vc s)) \<subseteq> set (free_page_queue (vc s'))"
proof -
  define i where "i = pde_idx h va" define j where "j = pte_idx h va" define pt where "pt = table_of h a i s"
  have j: "j < 256" using hal by (simp add: hal_ok_def j_def)
  have t: "has_table h a i s" "used h pt j s" and e: "l2_table s pt j AND L2_ADDR_MASK h = pa" "vpte_flags s pt j = flags"
    using some by (auto simp: extract_entry entry_def i_def j_def pt_def split: if_splits)
  define s1 where "s1 = unref_page pt (pmap_write_l2 pt j (L2_TYPE_INV h) (set_vpte_flags pt j 0
     (if flags AND MAP_PHYS h = 0 then upd_pg (pmap_pa_to_page pa) (\<lambda>g. g\<lparr>vpte_list := remove1 (pt, j) (vpte_list g)\<rparr>) s else s)))"
  have inv_bits: "L2_TYPE_INV h AND L2_TYPE_MASK h = L2_TYPE_INV h" using hal by (simp add: hal_ok_def)
  have "entry_written h pt j (L2_TYPE_INV h) 0 s s1"
    using t(2) inv_bits unfolding entry_written_def s1_def by (simp add: unref_page_def)
  note W = entry_written_ok [OF inv a(1) a(2) [folded i_def] t(1) j this [unfolded pt_def]]
  have as: "as_pmap s1 = as_pmap s" "l1_table s1 = l1_table s" "free_page_queue (vc s1) = free_page_queue (vc s)"
    by (simp_all add: s1_def unref_page_def)
  have t1: "has_table h a i s1" "table_of h a i s1 = pt" using t(1) as by (simp_all add: has_table_def table_of_def pt_def)
  have ex1: "pmap_extract h a va s1 = None" using W(3) inv_bits by (simp add: extract_entry i_def j_def)
  have os1: "others_same h A a va s s1" unfolding others_same_def extract_entry using W(4) by (auto simp: i_def j_def)
  have call: "pmap_remove h a va s = (if reference_cnt (pages (vc s1) pt) = 0 then do {
        s3 \<leftarrow> pmap_free_pagetable pt (pmap_write_l1 (as_pmap s a) i (L1_TYPE_INV h) s1); Some (Inr (), s3) } else Some (Inr (), s1))"
    using a(3) t e unfolding pmap_remove_def s1_def
    by (simp add: has_table_def used_def pde_def i_def j_def pt_def table_of_def Let_def)
  show ?thesis
  proof (cases "reference_cnt (pages (vc s1) pt) = 0")
    case False
    with call W(1,2) ex1 os1 as(3) show ?thesis by simp
  next
    case True
    then have z: "reference_cnt (pages (vc s1) (table_of h a i s1)) = 0" using t1(2) by simp
    obtain s2 where s2: "pmap_free_pagetable pt (pmap_write_l1 (as_pmap s a) i (L1_TYPE_INV h) s1) = Some s2" "vm_inv h A P s2" "kept h A s1 s2"
      "set (free_page_queue (vc s1)) \<subseteq> set (free_page_queue (vc s2))"
      "\<forall>a' \<in> A. \<forall>i' < 2048. \<forall>j' < 256. entry h a' i' j' s2 = entry h a' i' j' s1"
      using drop_table_ok [OF hal W(1) a(1) a(2) [folded i_def] t1(1) z] t1(2) as(1) by auto
    have same: "pmap_extract h a' va' s2 = pmap_extract h a' va' s1" if "a' \<in> A" "pde_idx h va' < 2048" for a' va'
      using s2(5) that hal unfolding extract_entry hal_ok_def by blast
    have "others_same h A a va s s2" using os1 same by (simp add: others_same_def)
    moreover have "kept h A s s2" using kept_trans [OF W(2) s2(3)] .
    ultimately show ?thesis using call True s2(1,2,4) ex1 same [OF a(1,2)] as(3) by simp
  qed
qed

text \<open>A change of a page that holds no table.\<close>

lemma extract_upd_pg [simp]: "pmap_extract h a va (upd_pg p f s) = pmap_extract h a va s"
  by (simp add: pmap_extract_def pde_def Let_def)

lemma tables_upd_pg [simp]: "tables h A (upd_pg p f s) = tables h A s"
  by (rule table_cong) simp_all

lemma vm_inv_upd_pg:
  assumes inv: "vm_inv h A P s" and p: "p \<notin> tables h A s"
    and f: "\<And>g. pg_vnode (f g) = pg_vnode g \<and> file_offset (f g) = file_offset g \<and> bflags (f g) = bflags g"
  shows "vm_inv h A P (upd_pg p f s)"
proof -
  note D = vm_invD [OF inv]
  have "cache_inv P (vc (upd_pg p f s))" by (rule cache_inv_same [OF D(1)]) (auto simp: f)
  moreover have "table_page h pt (upd_pg p f s)" if "pt \<in> tables h A s" for pt
    using D(7) [OF that] that p by (auto simp: table_page_def used_def)
  moreover have "has_table h a i (upd_pg p f s) = has_table h a i s" "table_of h a i (upd_pg p f s) = table_of h a i s" for a i
    by (simp_all add: has_table_def table_of_def)
  ultimately show ?thesis using inv unfolding vm_inv_def by auto
qed

end
