(* ===== verification/Vm.thy ===== *)
theory Vm
  imports Pmap
begin

text \<open>
  Address spaces, memory mapping, page faults and copying between processes (\<open>vm/as.c\<close>,
  \<open>vm/mmap.c\<close>, \<open>vm/pagefault.c\<close>, \<open>vm/ipcopy.c\<close>). An address space is named by its process. The loops
  over addresses are over the list of the addresses they visit. The constant
  \<open>VM_USER_BASE_PAGETABLE_ALIGNED\<close>, from a header outside the repository, is the argument \<open>ubase\<close>.
\<close>

unbundle bit_operations_syntax

section \<open>Address spaces\<close>

definition N_PAGETABLE_PTE :: nat where "N_PAGETABLE_PTE = 256"

definition table_span :: nat where "table_span = PAGE_SIZE * N_PAGETABLE_PTE"

definition table_pages :: "nat \<Rightarrow> u32 list" where
  "table_pages vpt = map (\<lambda>i. of_nat (vpt + i * PAGE_SIZE)) [0..<N_PAGETABLE_PTE]"

definition free_address_space :: "nat \<Rightarrow> vmem \<Rightarrow> vmem" where
  "free_address_space a s = (let s1 = pmap_destroy a s in s1\<lparr>vr := memregion_free_all a (vr s1)\<rparr>)"

definition create_address_space :: "hal \<Rightarrow> nat \<Rightarrow> vmem \<Rightarrow> unit result \<times> vmem" where
  "create_address_space h a s =
     (case pmap_create h a s of
        (Inl _, s1) \<Rightarrow> (Inl ENOMEM, s1)
      | (Inr _, s1) \<Rightarrow>
          (case init_memregions a (vr s1) of
             (Inl _, r) \<Rightarrow> (Inl ENOMEM, pmap_destroy a (s1\<lparr>vr := r\<rparr>))
           | (Inr _, r) \<Rightarrow> (Inr (), s1\<lparr>vr := r\<rparr>)))"

text \<open>A page is given back when the count it was decremented to is zero, which decrements it again.\<close>

definition cleanup_pte :: "hal \<Rightarrow> nat \<Rightarrow> u32 \<Rightarrow> vmem \<Rightarrow> vmem option" where
  "cleanup_pte h a va s =
     (if \<not> pmap_is_page_present h a va s then Some s
      else case pmap_extract h a va s of
             None \<Rightarrow> Some s
           | Some (pa, flags) \<Rightarrow> do {
               (r, s1) \<leftarrow> pmap_remove h a va s;
               if r \<noteq> Inr () \<or> flags AND MAP_PHYS h = MAP_PHYS h then Some s1
               else do {
                 let s2 = unref_page (pmap_pa_to_page pa) s1;
                 if reference_cnt (pages (vc s2) (pmap_pa_to_page pa)) = 0 then free_page (pmap_pa_to_page pa) s2
                 else Some s2 } })"

fun cleanup_ptes :: "hal \<Rightarrow> nat \<Rightarrow> u32 list \<Rightarrow> vmem \<Rightarrow> vmem option" where
  "cleanup_ptes h a [] s = Some s"
| "cleanup_ptes h a (va # vas) s = do { s1 \<leftarrow> cleanup_pte h a va s; cleanup_ptes h a vas s1 }"

fun cleanup_tables :: "hal \<Rightarrow> nat \<Rightarrow> nat list \<Rightarrow> vmem \<Rightarrow> vmem option" where
  "cleanup_tables h a [] s = Some s"
| "cleanup_tables h a (vpt # vpts) s =
     (if pmap_is_pagetable_present h a (of_nat vpt) s
      then do { s1 \<leftarrow> cleanup_ptes h a (table_pages vpt) s; cleanup_tables h a vpts s1 }
      else cleanup_tables h a vpts s)"

text \<open>The loop includes the page table at \<open>VM_USER_CEILING\<close>.\<close>

definition cleanup_address_space :: "hal \<Rightarrow> nat \<Rightarrow> nat \<Rightarrow> vmem \<Rightarrow> (unit result \<times> vmem) option" where
  "cleanup_address_space h ubase a s = do {
     s1 \<leftarrow> cleanup_tables h a (map (\<lambda>i. ubase + i * table_span) [0..<(VM_USER_CEILING - ubase) div table_span + 1]) s;
     let (r, m) = init_memregions a (memregion_free_all a (vr s1));
     Some (case r of Inl _ \<Rightarrow> Inl ENOMEM | Inr _ \<Rightarrow> Inr (), s1\<lparr>vr := m\<rparr>) }"

text \<open>One page of the loop of \<open>fork_address_space\<close>; the failure value -1 is \<open>-EPERM\<close>.\<close>

definition fork_pte :: "hal \<Rightarrow> nat \<Rightarrow> nat \<Rightarrow> u32 \<Rightarrow> vmem \<Rightarrow> unit result vres" where
  "fork_pte h na oa va s =
     (if \<not> pmap_is_page_present h oa va s then vret (Inr ()) s
      else case pmap_extract h oa va s of
             None \<Rightarrow> vret (Inl EPERM) s
           | Some (pa, flags) \<Rightarrow>
               if flags AND MAP_PHYS h \<noteq> MAP_PHYS h \<and> flags AND PROT_WRITE h \<noteq> 0 then do {
                 (r, s1) \<leftarrow> pmap_protect h oa va (flags OR MAP_COW) s;
                 if r \<noteq> Inr () then vret (Inl EPERM) s1
                 else vbind (pmap_enter h na va pa (flags OR MAP_COW) s1)
                   (\<lambda>r s2. if r \<noteq> Inr () then vret (Inl EPERM) s2 else vret (Inr ()) (ref_page (pmap_pa_to_page pa) s2)) }
               else if flags AND MAP_PHYS h \<noteq> MAP_PHYS h then
                 vbind (pmap_enter h na va pa flags s)
                   (\<lambda>r s2. if r \<noteq> Inr () then vret (Inl EPERM) s2 else vret (Inr ()) (ref_page (pmap_pa_to_page pa) s2))
               else vbind (pmap_enter h na va pa ((MAP_PHYS h OR PROT_READ h) OR PROT_WRITE h) s)
                      (\<lambda>r s2. vret (if r \<noteq> Inr () then Inl EPERM else Inr ()) s2))"

fun fork_ptes :: "hal \<Rightarrow> nat \<Rightarrow> nat \<Rightarrow> u32 list \<Rightarrow> vmem \<Rightarrow> unit result vres" where
  "fork_ptes h na oa [] s = vret (Inr ()) s"
| "fork_ptes h na oa (va # vas) s =
     vbind (fork_pte h na oa va s) (\<lambda>r s1. if r = Inr () then fork_ptes h na oa vas s1 else vret r s1)"

fun fork_tables :: "hal \<Rightarrow> nat \<Rightarrow> nat \<Rightarrow> nat list \<Rightarrow> vmem \<Rightarrow> unit result vres" where
  "fork_tables h na oa [] s = vret (Inr ()) s"
| "fork_tables h na oa (vpt # vpts) s =
     (if pmap_is_pagetable_present h oa (of_nat vpt) s
      then vbind (fork_ptes h na oa (table_pages vpt) s) (\<lambda>r s1. if r = Inr () then fork_tables h na oa vpts s1 else vret r s1)
      else fork_tables h na oa vpts s)"

text \<open>A failure to copy the regions destroys the page directory twice.\<close>

definition fork_address_space :: "hal \<Rightarrow> nat \<Rightarrow> nat \<Rightarrow> nat \<Rightarrow> vmem \<Rightarrow> unit result vres" where
  "fork_address_space h ubase na oa s =
     (case pmap_create h na s of
        (Inl _, s1) \<Rightarrow> vret (Inl EPERM) s1
      | (Inr _, s1) \<Rightarrow>
          (case fork_memregions na oa (vr s1) of
             (Inl _, m) \<Rightarrow> vret (Inl EPERM) (free_address_space na (pmap_destroy na (s1\<lparr>vr := m\<rparr>)))
           | (Inr _, m) \<Rightarrow>
               vbind (fork_tables h na oa
                   (map (\<lambda>i. ubase + i * table_span) [0..<(VM_USER_CEILING - ubase + table_span - 1) div table_span]) (s1\<lparr>vr := m\<rparr>))
                 (\<lambda>r s2. if r = Inr () then vret (Inr ()) s2
                         else do {
                           (_, s3) \<leftarrow> cleanup_address_space h ubase na s2;
                           vret (Inl EPERM) (free_address_space na s3) })))"

section \<open>Mapping memory\<close>

definition MEM_MASK :: u32 where "MEM_MASK = 0xF0000000"
definition VM_SYSTEM_MASK :: u32 where "VM_SYSTEM_MASK = (MEM_MASK OR MAP_COW) OR MAP_USER"

text \<open>The loops that map the pages; they stop at the first address that fails.\<close>

fun map_phys_loop :: "hal \<Rightarrow> nat \<Rightarrow> u32 \<Rightarrow> u32 \<Rightarrow> u32 list \<Rightarrow> vmem \<Rightarrow> u32 option vres" where
  "map_phys_loop h a flags pa [] s = vret None s"
| "map_phys_loop h a flags pa (va # vas) s =
     vbind (pmap_enter h a va pa flags s)
       (\<lambda>r s1. if r \<noteq> Inr () then vret (Some va) s1 else map_phys_loop h a flags (pa + of_nat PAGE_SIZE) vas s1)"

fun map_alloc_loop :: "hal \<Rightarrow> nat \<Rightarrow> u32 \<Rightarrow> u32 list \<Rightarrow> vmem \<Rightarrow> u32 option vres" where
  "map_alloc_loop h a flags [] s = vret None s"
| "map_alloc_loop h a flags (va # vas) s =
     vbind (alloc_page s) (\<lambda>p s1.
       vbind (pmap_enter h a va (page_pa p) flags s1)
         (\<lambda>r s2. if r \<noteq> Inr () then vret (Some va) s2
                 else map_alloc_loop h a flags vas (upd_pg p (\<lambda>g. g\<lparr>reference_cnt := 1\<rparr>) s2)))"

text \<open>The pages mapped before the failure are unmapped, and freed unless they are physical memory.\<close>

fun mmap_cleanup :: "hal \<Rightarrow> nat \<Rightarrow> bool \<Rightarrow> u32 list \<Rightarrow> vmem \<Rightarrow> vmem option" where
  "mmap_cleanup h a phys [] s = Some s"
| "mmap_cleanup h a phys (va # vas) s =
     (case pmap_extract h a va s of
        None \<Rightarrow> mmap_cleanup h a phys vas s
      | Some (pa, _) \<Rightarrow> do {
          s1 \<leftarrow> (if phys then Some s else free_page (pmap_pa_to_page pa) s);
          (_, s2) \<leftarrow> pmap_remove h a va s1;
          mmap_cleanup h a phys vas s2 })"

definition region_pages :: "nat \<Rightarrow> nat \<Rightarrow> u32 list" where
  "region_pages addr len = map (\<lambda>i. of_nat (addr + i * PAGE_SIZE)) [0..<len div PAGE_SIZE]"

text \<open>The result is \<open>None\<close> for \<open>MAP_FAILED\<close>; \<open>p\<close> is the process.\<close>

definition sys_mmap :: "hal \<Rightarrow> nat \<Rightarrow> nat \<Rightarrow> nat \<Rightarrow> u32 \<Rightarrow> u32 \<Rightarrow> nat \<Rightarrow> vmem \<Rightarrow> nat option vres" where
  "sys_mmap h p addr0 len0 prot0 flags0 offset s =
     (let fl = flags0 AND VM_FLAGS_MASK h; prot = prot0 AND VM_PROT_MASK h;
          privileges = (if fl AND MAP_PHYS h \<noteq> 0 then PRIV_VALLOC h OR PRIV_VALLOCPHYS h else PRIV_VALLOC h)
      in if check_privileges (creds (cfs (vc s)) p) privileges \<noteq> Inr () then vret None s
         else
           (let len = ALIGN_UP len0; flags = ((fl AND NOT VM_SYSTEM_MASK) OR MAP_USER) OR prot
            in case memregion_create (flags AND MAP_FIXED h \<noteq> 0) p (ALIGN_DOWN addr0) len flags MR_TYPE_ALLOC (vr s) of
                 (None, m) \<Rightarrow> vret None (s\<lparr>vr := m\<rparr>)
               | (Some r, m) \<Rightarrow>
                   (let addr = base_addr (memregions m r); vas = region_pages addr len; s1 = s\<lparr>vr := m\<rparr>;
                        phys = flags AND MAP_PHYS h \<noteq> 0
                    in vbind (if phys then map_phys_loop h p flags (of_nat (ALIGN_DOWN offset)) vas s1
                              else map_alloc_loop h p flags vas s1)
                         (\<lambda>r s2. case r of
                            None \<Rightarrow> vret (Some addr) s2
                          | Some ceiling \<Rightarrow> do {
                              s3 \<leftarrow> mmap_cleanup h p phys (takeWhile (\<lambda>va. va \<noteq> ceiling) vas) s2;
                              vret None (s3\<lparr>vr := snd (memregion_free p addr len (vr s3))\<rparr>) }))))"

text \<open>The pages are not given back.\<close>

fun unmap_loop :: "hal \<Rightarrow> nat \<Rightarrow> u32 list \<Rightarrow> vmem \<Rightarrow> vmem option" where
  "unmap_loop h a [] s = Some s"
| "unmap_loop h a (va # vas) s = do { (_, s1) \<leftarrow> pmap_remove h a va s; unmap_loop h a vas s1 }"

definition sys_munmap :: "hal \<Rightarrow> nat \<Rightarrow> nat \<Rightarrow> nat \<Rightarrow> vmem \<Rightarrow> (unit result \<times> vmem) option" where
  "sys_munmap h p addr0 len0 s = do {
     let addr = ALIGN_DOWN addr0;
     let len = ALIGN_UP len0;
     s1 \<leftarrow> unmap_loop h p (if addr < plus32 addr len then region_pages addr len else []) s;
     Some (Inr (), s1\<lparr>vr := snd (memregion_free p addr len (vr s1))\<rparr>) }"

definition sys_mprotect :: "unit result" where "sys_mprotect = Inr ()"

text \<open>Zero is the null pointer of a failure.\<close>

definition sys_virtualtophysaddr :: "hal \<Rightarrow> nat \<Rightarrow> nat \<Rightarrow> vmem \<Rightarrow> u32" where
  "sys_virtualtophysaddr h p addr s =
     (let va = of_nat (ALIGN_DOWN addr)
      in if check_privileges (creds (cfs (vc s)) p) (PRIV_VALLOCPHYS h) \<noteq> Inr () then 0
         else if \<not> pmap_is_page_present h p va s then 0
         else case pmap_extract h p va s of None \<Rightarrow> 0 | Some (pa, _) \<Rightarrow> pa)"

section \<open>Page faults\<close>

text \<open>\<open>p\<close> is the current process. A fault that is not a write to a copy-on-write page fails.\<close>

definition writable :: "hal \<Rightarrow> u32 \<Rightarrow> u32" where
  "writable h flags = (flags OR PROT_WRITE h) AND NOT MAP_COW"

definition page_fault :: "hal \<Rightarrow> nat \<Rightarrow> nat \<Rightarrow> u32 \<Rightarrow> vmem \<Rightarrow> unit result vres" where
  "page_fault h p addr0 access s =
     (let addr = of_nat (ALIGN_DOWN addr0)
      in case pmap_extract h p addr s of
           None \<Rightarrow> vret (Inl EPERM) s
         | Some (paddr, flags) \<Rightarrow>
             if flags AND MAP_PHYS h = MAP_PHYS h then vret (Inl EPERM) s
             else if access AND PROT_WRITE h = 0 then vret (Inl EPERM) s
             else if flags AND (PROT_WRITE h OR MAP_COW) = PROT_WRITE h then vret (Inl EPERM) s
             else if flags AND (PROT_WRITE h OR MAP_COW) \<noteq> PROT_WRITE h OR MAP_COW then vret (Inl EPERM) s
             else do {
               let q = pmap_pa_to_page paddr;
               kassert (page_pa q = paddr);
               let n = reference_cnt (pages (vc s) q);
               if n > 1 then do {
                 (r, s1) \<leftarrow> pmap_remove h p addr (unref_page q s);
                 if r \<noteq> Inr () then vret (Inl EPERM) s1
                 else vbind (alloc_page s1) (\<lambda>np s2.
                   vbind (pmap_enter h p addr (page_pa np) (writable h flags)
                       (upd_pg np (\<lambda>g. g\<lparr>pg_data := pg_data (pages (vc s2) q)\<rparr>) s2))
                     (\<lambda>r s3. if r \<noteq> Inr () then do { s4 \<leftarrow> free_page np s3; vret (Inl EPERM) s4 }
                             else vret (Inr ()) (ref_page np s3))) }
               else if n = 1 then do {
                 (r, s1) \<leftarrow> pmap_remove h p addr s;
                 if r \<noteq> Inr () then vret (Inl EPERM) s1
                 else vbind (pmap_enter h p addr paddr (writable h flags) s1)
                        (\<lambda>r s2. if r \<noteq> Inr () then vret (Inl EPERM) (unref_page q s2) else vret (Inr ()) s2) }
               else None })"

text \<open>The kernel's address of a user's byte; a fault is handled for the current process \<open>p\<close>, not for \<open>a\<close>.\<close>

definition pmap_pagetable_walk :: "hal \<Rightarrow> nat \<Rightarrow> nat \<Rightarrow> u32 \<Rightarrow> nat \<Rightarrow> vmem \<Rightarrow> u32 result vres" where
  "pmap_pagetable_walk h p a access vaddr s =
     (let bvaddr = of_nat (ALIGN_DOWN vaddr); page_offset = of_nat (vaddr mod PAGE_SIZE)
      in case pmap_extract h a bvaddr s of
           None \<Rightarrow> vret (Inl EFAULT) s
         | Some (bpaddr, flags) \<Rightarrow>
             if access AND PROT_WRITE h \<noteq> 0 \<and> flags AND PROT_WRITE h = 0 then vret (Inl EFAULT) s
             else if access AND PROT_WRITE h \<noteq> 0 \<and> flags AND MAP_COW \<noteq> 0 then
               vbind (page_fault h p (ALIGN_DOWN vaddr) access s)
                 (\<lambda>r s1. if r \<noteq> Inr () then vret (Inl EFAULT) s1
                         else case pmap_extract h a bvaddr s1 of
                                None \<Rightarrow> vret (Inl EFAULT) s1
                              | Some (bpaddr', _) \<Rightarrow> vret (Inr (pmap_pa_to_va (bpaddr' + page_offset))) s1)
             else vret (Inr (pmap_pa_to_va (bpaddr + page_offset))) s)"

section \<open>Copying between address spaces\<close>

text \<open>\<open>memcpy\<close> of \<open>n\<close> bytes between two addresses of the kernel, each within its page.\<close>

definition kernel_memcpy :: "u32 \<Rightarrow> u32 \<Rightarrow> nat \<Rightarrow> vmem \<Rightarrow> vmem" where
  "kernel_memcpy dk sk n s =
     (let sp = pmap_va_to_page sk; so = unat (pmap_va_to_pa sk) mod PAGE_SIZE;
          dp = pmap_va_to_page dk; d = unat (pmap_va_to_pa dk) mod PAGE_SIZE;
          bytes = take n (drop so (pg_data (pages (vc s) sp)))
      in upd_pg dp (\<lambda>g. g\<lparr>pg_data := take d (pg_data g) @ bytes @ drop (d + length bytes) (pg_data g)\<rparr>) s)"

definition chunk_size :: "nat \<Rightarrow> nat \<Rightarrow> nat \<Rightarrow> nat" where
  "chunk_size remaining sv dv =
     min (min (min PAGE_SIZE remaining) (PAGE_SIZE - sv mod PAGE_SIZE)) (PAGE_SIZE - dv mod PAGE_SIZE)"

lemma chunk_size_pos: "0 < remaining \<Longrightarrow> 0 < chunk_size remaining sv dv"
  by (simp add: chunk_size_def PAGE_SIZE_def)

text \<open>\<open>sk\<close> and \<open>dk\<close> are the kernel's addresses and \<open>sr\<close> and \<open>dr\<close> what remains of their pages.\<close>

function ipcopy_loop ::
    "hal \<Rightarrow> nat \<Rightarrow> nat \<Rightarrow> nat \<Rightarrow> nat \<Rightarrow> nat \<Rightarrow> nat \<Rightarrow> u32 \<Rightarrow> u32 \<Rightarrow> nat \<Rightarrow> nat \<Rightarrow> vmem \<Rightarrow> unit result vres" where
  "ipcopy_loop h p da sa dv sv remaining sk dk sr dr s =
     (if remaining > 0 then
        vbind (if sr = 0 then pmap_pagetable_walk h p sa (PROT_READ h) sv s else vret (Inr sk) s)
          (\<lambda>r s1. case r of
             Inl e \<Rightarrow> vret (Inl e) s1
           | Inr sk1 \<Rightarrow>
               vbind (if dr = 0 then pmap_pagetable_walk h p da (PROT_WRITE h) dv s1 else vret (Inr dk) s1)
                 (\<lambda>r s2. case r of
                    Inl e \<Rightarrow> vret (Inl e) s2
                  | Inr dk1 \<Rightarrow>
                      (let chunk = chunk_size remaining sv dv
                       in ipcopy_loop h p da sa (dv + chunk) (sv + chunk) (remaining - chunk)
                            (sk1 + of_nat chunk) (dk1 + of_nat chunk)
                            (PAGE_SIZE - sv mod PAGE_SIZE - chunk) (PAGE_SIZE - dv mod PAGE_SIZE - chunk)
                            (kernel_memcpy dk1 sk1 chunk s2))))
      else vret (Inr ()) s)"
  by pat_completeness auto

termination
  by (relation "measure (\<lambda>(_, _, _, _, _, _, remaining, _, _, _, _, _). remaining)") (simp_all add: chunk_size_pos)

declare ipcopy_loop.simps [simp del]

definition ipcopy :: "hal \<Rightarrow> nat \<Rightarrow> nat \<Rightarrow> nat \<Rightarrow> nat \<Rightarrow> nat \<Rightarrow> nat \<Rightarrow> vmem \<Rightarrow> unit result vres" where
  "ipcopy h p da sa dv sv sz s =
     (if dv \<ge> VM_USER_CEILING \<or> VM_USER_CEILING - dv < sz \<or> sv \<ge> VM_USER_CEILING \<or> VM_USER_CEILING - sv < sz
      then vret (Inl EFAULT) s
      else ipcopy_loop h p da sa dv sv sz 0 0 0 0 s)"

section \<open>Copy on write\<close>

text \<open>The pages the address spaces map, other than as physical memory, are in use and hold no tables.\<close>

definition mapped_ok :: "hal \<Rightarrow> nat set \<Rightarrow> vmem \<Rightarrow> bool" where
  "mapped_ok h A s \<longleftrightarrow>
     (\<forall>a \<in> A. \<forall>va r flags. pde_idx h va < 2048 \<and> r < 2 ^ 20 \<and> pmap_extract h a va s = Some (page_pa r, flags)
        \<and> flags AND MAP_PHYS h \<noteq> MAP_PHYS h \<longrightarrow> busy (vc s) r \<and> r \<notin> tables h A s)"

text \<open>The first part of the fault: the shared page loses a reference and the mapping, and a new page is taken.\<close>

lemma unshare_page:
  assumes hal: "hal_ok h" and inv: "vm_inv h A P s" and a: "p \<in> A" "pde_idx h va < 2048" "va \<noteq> 0"
    and q: "pmap_extract h p va s = Some (pa, flags)" "busy (vc s) q" "q \<notin> tables h A s"
    and free: "length (free_page_queue (vc s)) \<ge> 2"
  shows "\<exists>np s1 s2. pmap_remove h p va (unref_page q s) = Some (Inr (), s1) \<and> alloc_page s1 = Some (Returned np, s2) \<and> vm_inv h A P s2
     \<and> np < 2 ^ 20 \<and> np \<noteq> q \<and> busy (vc s2) np \<and> np \<notin> tables h A s2 \<and> reference_cnt (pages (vc s2) np) = 0
     \<and> free_page_queue (vc s2) \<noteq> [] \<and> pmap_extract h p va s2 = None \<and> others_same h A p va s s2
     \<and> busy (vc s2) q \<and> q \<notin> tables h A s2 \<and> pg_data (pages (vc s2) q) = pg_data (pages (vc s) q)
     \<and> reference_cnt (pages (vc s2) q) = reference_cnt (pages (vc s) q) - 1
     \<and> \<not> (busy (vc s) np \<and> np \<notin> tables h A s)"
proof -
  define s0 where "s0 = unref_page q s"
  have inv0: "vm_inv h A P s0" unfolding s0_def unref_page_def by (rule vm_inv_upd_pg [OF inv q(3)]) simp
  have ex0: "pmap_extract h x y s0 = pmap_extract h x y s" for x y by (simp add: s0_def unref_page_def)
  obtain s1 where s1: "pmap_remove h p va s0 = Some (Inr (), s1)" "vm_inv h A P s1" "kept h A s0 s1" "pmap_extract h p va s1 = None"
    "others_same h A p va s0 s1" "set (free_page_queue (vc s0)) \<subseteq> set (free_page_queue (vc s1))"
    using pmap_remove_ok [OF hal inv0 a] q(1) ex0 by metis
  have len: "length (free_page_queue (vc s1)) \<ge> 2"
    using card_mono [OF _ s1(6)] cache_invD(2) [OF vm_invD(1) [OF inv]] cache_invD(2) [OF vm_invD(1) [OF s1(2)]] free
    by (simp add: distinct_card s0_def unref_page_def)
  then have "free_page_queue (vc s1) \<noteq> []" by auto
  then obtain np s2 where s2: "alloc_page s1 = Some (Returned np, s2)" "np \<in> P" "np \<notin> tables h A s1" "\<not> busy (vc s1) np" "busy (vc s2) np"
    "reference_cnt (pages (vc s2) np) = 0" "vm_inv h A P s2" "l1_table s2 = l1_table s1" "l2_table s2 = l2_table s1"
    "vpte_flags s2 = vpte_flags s1" "as_pmap s2 = as_pmap s1" "\<forall>r. r \<noteq> np \<longrightarrow> pages (vc s2) r = pages (vc s1) r"
    "free_page_queue (vc s2) = remove1 np (free_page_queue (vc s1))"
    using alloc_page_ok [OF s1(2)] by blast
  have k1: "busy (vc s1) q" "q \<notin> tables h A s1" "pg_data (pages (vc s1) q) = pg_data (pages (vc s) q)"
    "reference_cnt (pages (vc s1) q) = reference_cnt (pages (vc s) q) - 1"
    using s1(3) q unfolding kept_def s0_def unref_page_def by auto
  have npq: "np \<noteq> q" using k1(1) s2(4) by auto
  have tab2: "tables h A s2 = tables h A s1" by (rule table_cong) (use s2 in simp_all)
  have ex2: "pmap_extract h x y s2 = pmap_extract h x y s1" for x y using s2(8-11) by (simp add: pmap_extract_def pde_def Let_def)
  have np: "np < 2 ^ 20" using vm_invD(3,4) [OF s1(2)] s2(2) by fastforce
  have "length (free_page_queue (vc s2)) \<ge> length (free_page_queue (vc s1)) - 1" using s2(13) by (simp add: length_remove1)
  with len have "length (free_page_queue (vc s2)) \<ge> 1" by linarith
  then have ne: "free_page_queue (vc s2) \<noteq> []" by auto
  have fresh: "\<not> (busy (vc s) np \<and> np \<notin> tables h A s)"
    using s1(3) s2(4) npq unfolding kept_def s0_def unref_page_def by auto
  have "others_same h A p va s s2" using s1(5) ex0 ex2 unfolding others_same_def by simp
  then show ?thesis
    using s1(1,4) s2 k1 npq tab2 ex2 np ne fresh unfolding s0_def by (intro exI [of _ np] exI [of _ s1] exI [of _ s2]) simp
qed

text \<open>
  C33. Copy on write. A write fault on a page that is shared copy-on-write gives the process a page of
  its own: the address is mapped to a page that nobody else maps, writable and with the contents of
  the shared page; the shared page keeps its contents and loses one reference; and no other page of
  any address space is mapped differently. At least two pages must be free, as the page table may
  have to be replaced as well. \<open>A\<close> are the address spaces in use and \<open>P\<close> the pages the cache manages;
  what is assumed of the processor's page table entries is \<^term>\<open>hal_ok\<close>.
\<close>

theorem page_fault_copies:
  assumes hal: "hal_ok h" "PROT_WRITE h OR MAP_COW \<noteq> PROT_WRITE h" and inv: "vm_inv h A P s" and mapped: "mapped_ok h A s"
    and a: "p \<in> A" "pde_idx h (of_nat (ALIGN_DOWN addr)) < 2048" "(of_nat (ALIGN_DOWN addr) :: u32) \<noteq> 0"
    and q: "pmap_extract h p (of_nat (ALIGN_DOWN addr)) s = Some (page_pa q, flags)" "q < 2 ^ 20"
    and cow: "flags AND MAP_PHYS h \<noteq> MAP_PHYS h" "flags AND (PROT_WRITE h OR MAP_COW) = PROT_WRITE h OR MAP_COW"
    and wr: "access AND PROT_WRITE h \<noteq> 0" and shared: "reference_cnt (pages (vc s) q) > 1"
    and free: "length (free_page_queue (vc s)) \<ge> 2"
  shows "\<exists>np s'. page_fault h p addr access s = Some (Returned (Inr ()), s') \<and> vm_inv h A P s'
     \<and> pmap_extract h p (of_nat (ALIGN_DOWN addr)) s' = Some (page_pa np, writable h flags) \<and> np \<noteq> q
     \<and> pg_data (pages (vc s') np) = pg_data (pages (vc s) q) \<and> reference_cnt (pages (vc s') np) = 1
     \<and> pg_data (pages (vc s') q) = pg_data (pages (vc s) q)
     \<and> reference_cnt (pages (vc s') q) = reference_cnt (pages (vc s) q) - 1
     \<and> others_same h A p (of_nat (ALIGN_DOWN addr)) s s'
     \<and> (\<forall>a' \<in> A. \<forall>va' fl. pde_idx h va' < 2048 \<and> pmap_extract h a' va' s' = Some (page_pa np, fl) \<and> fl AND MAP_PHYS h \<noteq> MAP_PHYS h \<longrightarrow>
          a' = p \<and> pde_idx h va' = pde_idx h (of_nat (ALIGN_DOWN addr)) \<and> pte_idx h va' = pte_idx h (of_nat (ALIGN_DOWN addr)))"
proof -
  define va where "va = (of_nat (ALIGN_DOWN addr) :: u32)"
  note a' = a(2,3) [folded va_def] and q' = q(1) [folded va_def]
  have qb: "busy (vc s) q" "q \<notin> tables h A s" using mapped a q cow(1) unfolding mapped_ok_def by blast+
  obtain np s1 s2 where u: "pmap_remove h p va (unref_page q s) = Some (Inr (), s1)" "alloc_page s1 = Some (Returned np, s2)"
    "vm_inv h A P s2" "np < 2 ^ 20" "np \<noteq> q" "busy (vc s2) np" "np \<notin> tables h A s2" "reference_cnt (pages (vc s2) np) = 0"
    "free_page_queue (vc s2) \<noteq> []" "pmap_extract h p va s2 = None" "others_same h A p va s s2" "busy (vc s2) q" "q \<notin> tables h A s2"
    "pg_data (pages (vc s2) q) = pg_data (pages (vc s) q)" "reference_cnt (pages (vc s2) q) = reference_cnt (pages (vc s) q) - 1"
    "\<not> (busy (vc s) np \<and> np \<notin> tables h A s)"
    using unshare_page [OF hal(1) inv a(1) a' q' qb free] by metis
  define s3 where "s3 = upd_pg np (\<lambda>g. g\<lparr>pg_data := pg_data (pages (vc s2) q)\<rparr>) s2"
  have inv3: "vm_inv h A P s3" unfolding s3_def by (rule vm_inv_upd_pg [OF u(3,7)]) simp
  have s3: "free_page_queue (vc s3) \<noteq> []" "pmap_extract h p va s3 = None" using u(9,10) by (simp_all add: s3_def)
  obtain s4 where s4: "pmap_enter h p va (page_pa np) (writable h flags) s3 = Some (Returned (Inr ()), s4)" "vm_inv h A P s4" "kept h A s3 s4"
    "pmap_extract h p va s4 = Some (page_pa np, writable h flags)" "others_same h A p va s3 s4"
    using pmap_enter_ok [OF hal(1) inv3 a(1) a' s3(2) u(4) s3(1)] by blast
  have k4: "np \<notin> tables h A s4" "pg_data (pages (vc s4) np) = pg_data (pages (vc s) q)" "reference_cnt (pages (vc s4) np) = 0"
    "pg_data (pages (vc s4) q) = pg_data (pages (vc s) q)" "reference_cnt (pages (vc s4) q) = reference_cnt (pages (vc s) q) - 1"
    using s4(3) u(5-8,12-15) unfolding kept_def s3_def by auto
  define s' where "s' = ref_page np s4"
  have os: "others_same h A p va s s'" using u(11) s4(5) unfolding others_same_def s'_def s3_def ref_page_def by simp
  have call: "page_fault h p addr access s = Some (Returned (Inr ()), s')"
    using q' q(2) cow wr shared hal(2) u(1,2) s4(1) page_of_page_pa [OF q(2)]
    by (simp add: page_fault_def va_def [symmetric] Let_def vret_def s3_def [symmetric] s'_def)
  have "vm_inv h A P s'" unfolding s'_def ref_page_def by (rule vm_inv_upd_pg [OF s4(2) k4(1)]) simp
  moreover have "a'' = p \<and> pde_idx h va' = pde_idx h va \<and> pte_idx h va' = pte_idx h va"
    if "a'' \<in> A" "pde_idx h va' < 2048" "pmap_extract h a'' va' s' = Some (page_pa np, fl)" "fl AND MAP_PHYS h \<noteq> MAP_PHYS h" for a'' va' fl
  proof (rule ccontr)
    assume "\<not> ?thesis"
    then have "pmap_extract h a'' va' s = Some (page_pa np, fl)" using os that unfolding others_same_def by auto
    then show False using mapped that u(4,16) unfolding mapped_ok_def by blast
  qed
  ultimately show ?thesis
    unfolding va_def [symmetric] using call s4(4) u(5) k4 os
    by (intro exI [of _ np] exI [of _ s']) (auto simp: s'_def ref_page_def)
qed

text \<open>The bits of the processor's entries, as the first board's header has them.\<close>

definition arm_hal :: hal where
  "arm_hal = \<lparr>L1_ADDR_BITS = 0xfff00000, L1_IDX_SHIFT = 20, L1_TYPE_MASK = 3, L1_TYPE_INV = 0, L1_TYPE_C = 1,
     L1_C_ADDR_MASK = 0xfffffc00, L2_ADDR_BITS = 0x000ff000, L2_IDX_SHIFT = 12, L2_ADDR_MASK = 0xfffff000, L2_TYPE_MASK = 3,
     L2_TYPE_INV = 0, L2_TYPE_S = 2, L2_AP_RWKU = 0x30, L2_AP_RKU = 0x20, L2_NX = 1, L2_B = 4, L2_C = 8,
     PROT_READ = 1, PROT_WRITE = 2, PROT_EXEC = 4, MAP_PHYS = 0x100, MAP_FIXED = 0x200, VM_CACHE_MASK = 0xf000, CACHE_DEFAULT = 0,
     CACHE_WRITEBACK = 0x1000, CACHE_WRITETHRU = 0x2000, CACHE_WRITECOMBINE = 0x3000,
     VM_FLAGS_MASK = 0xff00, VM_PROT_MASK = 7, PRIV_VALLOC = 1, PRIV_VALLOCPHYS = 2\<rparr>"

lemma page_pa_low: "n < 12 \<Longrightarrow> \<not> bit (page_pa p) n"
proof -
  have "page_pa p = push_bit 12 (of_nat p)" by (simp add: page_pa_def PAGE_SIZE_def push_bit_eq_mult mult.commute)
  then show "n < 12 \<Longrightarrow> \<not> bit (page_pa p) n" by (simp add: bit_push_bit_iff)
qed

lemma page_pa_masked:
  assumes "m = NOT (mask k)" "k \<le> 12" "b AND m = 0"
  shows "(page_pa p OR b) AND m = page_pa p"
proof (rule bit_word_eqI)
  fix n assume "n < LENGTH(32)"
  moreover have "\<not> (bit b n \<and> bit m n)" using assms(3) by (metis bit_and_iff bit_0_eq bot_apply bot_bool_def)
  ultimately show "bit ((page_pa p OR b) AND m) n = bit (page_pa p) n"
    using assms(1,2) page_pa_low [of n p] by (auto simp: bit_simps)
qed

lemma common_bit:
  fixes x :: u32
  shows "bit x n \<Longrightarrow> bit m n \<Longrightarrow> x AND m \<noteq> 0"
  by (metis bit_and_iff bit_0_eq bot_apply bot_bool_def)

lemma arm_bits:
  "pmap_calc_pa_bits arm_hal flags AND 0xfffff000 = 0" "bit (pmap_calc_pa_bits arm_hal flags) (Suc 0)"
  by (auto simp: pmap_calc_pa_bits_def arm_hal_def Let_def bit_simps)

lemma arm_hal_ok: "hal_ok arm_hal"
proof -
  have m: "(0xfffffc00 :: u32) = NOT (mask 10)" "(0xfffff000 :: u32) = NOT (mask 12)" by (simp_all add: mask_eq_exp_minus_1)
  have "pte_idx arm_hal va < 256" for va
  proof -
    have "unat (va AND 0xff000) \<le> unat (0xff000 :: u32)" by (rule iffD1 [OF word_le_nat_alt word_and_le1])
    then show ?thesis by (simp add: pte_idx_def arm_hal_def unat_drop_bit_eq drop_bit_eq_div unat_div)
  qed
  moreover have "(page_pa p OR 1) AND 3 \<noteq> 0" for p
    by (rule common_bit [of _ 0]) (simp_all add: bit_or_iff)
  moreover have "(page_pa p OR 1) AND 0xfffffc00 = page_pa p" for p
    by (rule page_pa_masked [OF m(1)]) simp_all
  moreover have "(page_pa p OR pmap_calc_pa_bits arm_hal flags) AND 3 \<noteq> 0" for p flags
    by (rule common_bit [of _ 1]) (simp_all add: bit_or_iff arm_bits bit_numeral_rec)
  moreover have "(page_pa p OR pmap_calc_pa_bits arm_hal flags) AND 0xfffff000 = page_pa p" for p flags
    by (rule page_pa_masked [OF m(2)]) (simp_all add: arm_bits)
  ultimately show ?thesis by (simp add: hal_ok_def) (simp add: arm_hal_def)
qed

text \<open>One process with an empty page directory, and five free pages.\<close>

definition five_pages :: "kstate \<Rightarrow> vmem" where
  "five_pages k = \<lparr>vc = (one_page k)\<lparr>free_page_queue := [0, 1, 2, 3, 4], free_page_cnt := 5\<rparr>, vr = one_space,
     l1_table = (\<lambda>_ _. 0), l2_table = (\<lambda>_ _. 0), vpte_flags = (\<lambda>_ _. 0), as_pmap = (\<lambda>_. 0), root_pagedir = (\<lambda>_. 0),
     free_pmappagedir_list = [], max_page = 5\<rparr>"

lemma five_pages_inv:
  assumes "kernel_inv k" "bkl_locked k"
  shows "vm_inv arm_hal {0} {0, 1, 2, 3, 4} (five_pages k)" "pmap_extract arm_hal a va (five_pages k) = None"
proof -
  have t: "\<not> has_table arm_hal a i (five_pages k)" for a i by (simp add: has_table_def five_pages_def arm_hal_def)
  then have "tables arm_hal {0} (five_pages k) = {}" by (simp add: tables_def)
  moreover have "same_files (small_fs k) (small_fs k)" using assms by (auto simp: same_files_def small_fs_def)
  moreover have "cache_inv {0, 1, 2, 3, 4} (vc (five_pages k))"
    by (auto simp: five_pages_def cache_inv_def index_ok_def one_page_def page_hash_index_def)
  ultimately show "vm_inv arm_hal {0} {0, 1, 2, 3, 4} (five_pages k)" using t
    by (simp add: vm_inv_def) (simp add: five_pages_def one_page_def)
  show "pmap_extract arm_hal a va (five_pages k) = None" using t [of a "pde_idx arm_hal va"] by (simp add: extract_entry entry_def)
qed

text \<open>A page of that process mapped copy-on-write and held twice, as after a fork.\<close>

lemma shared_page:
  defines "va \<equiv> 0x500000 :: u32" and "fl \<equiv> (0x4000002 :: u32)"
  shows "\<exists>q s. q < 2 ^ 20 \<and> vm_inv arm_hal {0} {0, 1, 2, 3, 4} s \<and> mapped_ok arm_hal {0} s
     \<and> pmap_extract arm_hal 0 va s = Some (page_pa q, fl) \<and> reference_cnt (pages (vc s) q) = 2 \<and> length (free_page_queue (vc s)) \<ge> 2"
proof -
  let ?P = "{0, 1, 2, 3, 4 :: nat}" and ?h = arm_hal
  obtain k where k: "kernel_inv k" "bkl_locked k" using asleep_on by blast
  note F = five_pages_inv [OF k]
  have ne: "free_page_queue (vc (five_pages k)) = [0, 1, 2, 3, 4]" by (simp add: five_pages_def)
  obtain q s1 where s1: "alloc_page (five_pages k) = Some (Returned q, s1)" "q \<in> ?P" "busy (vc s1) q" "q \<notin> tables ?h {0} (five_pages k)"
    "vm_inv ?h {0} ?P s1" "l1_table s1 = l1_table (five_pages k)" "l2_table s1 = l2_table (five_pages k)"
    "vpte_flags s1 = vpte_flags (five_pages k)" "as_pmap s1 = as_pmap (five_pages k)" "max_page s1 = max_page (five_pages k)"
    "free_page_queue (vc s1) = remove1 q [0, 1, 2, 3, 4]"
    using alloc_page_ok [OF F(1)] ne by auto
  define s2 where "s2 = upd_pg q (\<lambda>g. g\<lparr>reference_cnt := 2\<rparr>) s1"
  have nt: "\<not> has_table ?h a i s2" for a i by (simp add: has_table_def s2_def s1 five_pages_def arm_hal_def)
  then have q: "q \<notin> tables ?h {0} s1" "q \<notin> tables ?h {0} s2" by (auto simp: tables_def has_table_def s2_def)
  have i2: "vm_inv ?h {0} ?P s2" unfolding s2_def by (rule vm_inv_upd_pg [OF s1(5) q(1)]) simp
  have none: "pmap_extract ?h a va' s2 = None" for a va' using nt by (simp add: extract_entry entry_def)
  have len: "length (free_page_queue (vc s2)) = 4" using s1(2,11) by (auto simp: s2_def)
  have idx: "pde_idx ?h va < 2048" "va \<noteq> 0" by (simp_all add: va_def pde_idx_def arm_hal_def)
  have q20: "q < 2 ^ 20" using s1(2) by auto
  obtain s3 where s3: "vm_inv ?h {0} ?P s3" "kept ?h {0} s2 s3" "pmap_extract ?h 0 va s3 = Some (page_pa q, fl)"
    "others_same ?h {0} 0 va s2 s3" "3 \<le> length (free_page_queue (vc s3))"
    using pmap_enter_ok [OF arm_hal_ok i2 _ idx none q20, of 0 fl] len by fastforce
  have b: "busy (vc s2) q" "reference_cnt (pages (vc s2) q) = 2" using s1(3) by (simp_all add: s2_def)
  then have b3: "busy (vc s3) q" "reference_cnt (pages (vc s3) q) = 2" "q \<notin> tables ?h {0} s3" using s3(2) q(2) by (auto simp: kept_def)
  have "r = q" if "pde_idx ?h va' < 2048" "r < 2 ^ 20" "pmap_extract ?h 0 va' s3 = Some (page_pa r, fl')" for va' r fl'
  proof -
    have "(pde_idx ?h va', pte_idx ?h va') = (pde_idx ?h va, pte_idx ?h va)"
      using s3(4) none that(1,3) by (fastforce simp: others_same_def)
    then have "page_pa r = page_pa q" using s3(3) that(3) by (simp add: extract_entry)
    then show ?thesis using page_of_page_pa [OF that(2)] page_of_page_pa [OF q20] by metis
  qed
  then have "mapped_ok ?h {0} s3" using b3 by (auto simp: mapped_ok_def)
  then show ?thesis using s3 b3 q20 by (intro exI [of _ q] exI [of _ s3]) auto
qed

theorem page_fault_copies_witness:
  "\<exists>q np s s'. page_fault arm_hal 0 0x500010 2 s = Some (Returned (Inr ()), s') \<and> pmap_extract arm_hal 0 0x500000 s = Some (page_pa q, 0x4000002)
     \<and> pmap_extract arm_hal 0 0x500000 s' = Some (page_pa np, writable arm_hal 0x4000002) \<and> np \<noteq> q
     \<and> reference_cnt (pages (vc s) q) = 2 \<and> reference_cnt (pages (vc s') q) = 1"
proof -
  obtain q s where s: "q < 2 ^ 20" "vm_inv arm_hal {0} {0, 1, 2, 3, 4} s" "mapped_ok arm_hal {0} s"
    "pmap_extract arm_hal 0 0x500000 s = Some (page_pa q, 0x4000002)" "reference_cnt (pages (vc s) q) = 2" "2 \<le> length (free_page_queue (vc s))"
    using shared_page by blast
  have ad: "(of_nat (ALIGN_DOWN 0x500010) :: u32) = 0x500000" by (simp add: ALIGN_DOWN_def PAGE_SIZE_def)
  have "\<exists>np s'. page_fault arm_hal 0 0x500010 2 s = Some (Returned (Inr ()), s')
     \<and> pmap_extract arm_hal 0 0x500000 s' = Some (page_pa np, writable arm_hal 0x4000002) \<and> np \<noteq> q \<and> reference_cnt (pages (vc s') q) = 1"
    using page_fault_copies [OF arm_hal_ok _ s(2,3), of 0 "0x500010" q "0x4000002" 2] s(1,4,5,6)
    unfolding ad by (simp add: arm_hal_def MAP_COW_def pde_idx_def) blast
  with s show ?thesis by blast
qed

end
