(* ===== verification/Futex.thy ===== *)
theory Futex
  imports Kernel_Lock Events
begin

text \<open>
  Futexes (\<open>proc/thread_futex.c\<close>): a table of condition variables that belong to an address of a
  process, found by a hash of both, created on first use and freed by \<open>sys_futex_destroy\<close> or when the
  process ends. The table has a lock of its own on top of the big kernel lock.
\<close>

unbundle bit_operations_syntax

section \<open>State\<close>

definition FUTEX_HASH_SZ :: nat where "FUTEX_HASH_SZ = 128"

definition SIGKILL :: int where "SIGKILL = 9"

record futex =
  fx_uaddr :: u32
  fx_proc :: "nat option"
  fx_hash :: nat

text \<open>\<open>proc_futexes\<close> is the list \<open>futex_list\<close> of each process.\<close>

record futexes =
  fk :: kstate
  futex_table :: "nat \<Rightarrow> futex"
  free_futex_list :: "nat list"
  futex_hash_table :: "nat \<Rightarrow> nat list"
  proc_futexes :: "nat \<Rightarrow> nat list"
  futex_table_busy :: bool

text \<open>
  The outcome of a call: it returns; it is asleep waiting for the table and starts again; it is asleep
  on a futex and returns 0 when woken; or it has ended the process by \<open>sys_exit\<close> with a status.
\<close>

datatype 'a futex_outcome = Done 'a | At_table | Asleep_on nat | Exits int

definition init_futexes :: "nat \<Rightarrow> futexes \<Rightarrow> futexes" where
  "init_futexes max_futex s =
     s\<lparr>fk := InitRendez Rendez_futex_table (fk s), free_futex_list := [0..<max_futex], futex_table_busy := False,
       futex_hash_table := (\<lambda>h. if h < FUTEX_HASH_SZ then [] else futex_hash_table s h)\<rparr>"

section \<open>Operations\<close>

definition futex_hash :: "pids \<Rightarrow> nat \<Rightarrow> u32 \<Rightarrow> nat" where
  "futex_hash pt p uaddr = unat (uaddr + word_of_int (pid (procs pt p))) mod FUTEX_HASH_SZ"

definition lock_futex_table :: "futexes \<Rightarrow> (unit futex_outcome \<times> futexes) option" where
  "lock_futex_table s =
     (if futex_table_busy s then do {
        k \<leftarrow> TaskSleep Rendez_futex_table (fk s);
        Some (At_table, s\<lparr>fk := k\<rparr>) }
      else Some (Done (), s\<lparr>futex_table_busy := True\<rparr>))"

definition unlock_futex_table :: "futexes \<Rightarrow> futexes option" where
  "unlock_futex_table s = do {
     k \<leftarrow> TaskWakeup Rendez_futex_table (fk s);
     Some (s\<lparr>futex_table_busy := False, fk := k\<rparr>) }"

definition futex_create :: "pids \<Rightarrow> nat \<Rightarrow> u32 \<Rightarrow> futexes \<Rightarrow> nat option \<times> futexes" where
  "futex_create pt p uaddr s =
     (case free_futex_list s of
        [] \<Rightarrow> (None, s)
      | f # fs \<Rightarrow>
          (let h = futex_hash pt p uaddr
           in (Some f, s\<lparr>free_futex_list := fs,
                 proc_futexes := (proc_futexes s)(p := f # proc_futexes s p),
                 futex_hash_table := (futex_hash_table s)(h := f # futex_hash_table s h),
                 futex_table := (futex_table s)(f := \<lparr>fx_uaddr = uaddr, fx_proc = Some p, fx_hash = h\<rparr>),
                 fk := InitRendez (Rendez_futex f) (fk s)\<rparr>)))"

text \<open>With no futex free, \<open>futex_get\<close> ends the process.\<close>

definition futex_get :: "pids \<Rightarrow> nat \<Rightarrow> u32 \<Rightarrow> bool \<Rightarrow> futexes \<Rightarrow> nat option futex_outcome \<times> futexes" where
  "futex_get pt p uaddr create s =
     (if unat uaddr mod 4 \<noteq> 0 then (Done None, s)
      else case find (\<lambda>f. fx_uaddr (futex_table s f) = uaddr \<and> fx_proc (futex_table s f) = Some p)
                  (futex_hash_table s (futex_hash pt p uaddr)) of
             Some f \<Rightarrow> (Done (Some f), s)
           | None \<Rightarrow>
               if create then
                 (case futex_create pt p uaddr s of
                    (None, s1) \<Rightarrow> (Exits (SIGKILL * 256), s1)
                  | (Some f, s1) \<Rightarrow> (Done (Some f), s1))
               else (Done None, s))"

definition futex_free :: "nat \<Rightarrow> nat \<Rightarrow> futexes \<Rightarrow> futexes" where
  "futex_free p f s =
     (let h = fx_hash (futex_table s f)
      in s\<lparr>futex_hash_table := (futex_hash_table s)(h := remove1 f (futex_hash_table s h)),
           proc_futexes := (proc_futexes s)(p := remove1 f (proc_futexes s p)),
           free_futex_list := f # free_futex_list s\<rparr>)"

text \<open>Leave the table and return.\<close>

definition futex_return :: "'a \<Rightarrow> futexes \<Rightarrow> ('a futex_outcome \<times> futexes) option" where
  "futex_return x s = do { s1 \<leftarrow> unlock_futex_table s; Some (Done x, s1) }"

definition sys_futex_destroy :: "pids \<Rightarrow> nat \<Rightarrow> u32 \<Rightarrow> futexes \<Rightarrow> (unit result futex_outcome \<times> futexes) option" where
  "sys_futex_destroy pt p uaddr s = do {
     (locked, s1) \<leftarrow> lock_futex_table s;
     if locked = At_table then Some (At_table, s1)
     else case futex_get pt p uaddr False s1 of
            (Done (Some f), s2) \<Rightarrow> futex_return (Inr ()) (futex_free p f s2)
          | (_, s2) \<Rightarrow> futex_return (Inl EINVAL) s2 }"

text \<open>
  \<open>cval\<close> is the value copied in from the address, \<open>None\<close> when that fails; \<open>timeout\<close> is \<open>None\<close> for a null
  pointer and otherwise whether copying it in succeeds. The call sleeps without a timeout in any case.
\<close>

definition sys_futex_wait ::
    "pids \<Rightarrow> nat \<Rightarrow> u32 \<Rightarrow> u32 \<Rightarrow> u32 option \<Rightarrow> bool option \<Rightarrow> futexes \<Rightarrow> (unit result futex_outcome \<times> futexes) option" where
  "sys_futex_wait pt p uaddr val cval timeout s = do {
     (locked, s1) \<leftarrow> lock_futex_table s;
     if locked = At_table then Some (At_table, s1)
     else if cval = None then futex_return (Inl EFAULT) s1
     else if cval \<noteq> Some val then futex_return (Inl EAGAIN) s1
     else if timeout = Some True then futex_return (Inl EFAULT) s1
     else case futex_get pt p uaddr True s1 of
            (Done (Some f), s2) \<Rightarrow> do {
              s3 \<leftarrow> unlock_futex_table s2;
              k \<leftarrow> TaskSleep (Rendez_futex f) (fk s3);
              Some (Asleep_on f, s3\<lparr>fk := k\<rparr>) }
          | (Exits st, s2) \<Rightarrow> Some (Exits st, s2)
          | (_, s2) \<Rightarrow> futex_return (Inl EINVAL) s2 }"

text \<open>
  The loop of \<open>sys_futex_requeue\<close>; \<open>lim\<close> is the wrapping sum of \<open>n\<close> and \<open>m\<close>. The call passes the two
  condition variables to \<open>TaskRendezRequeue\<close> in the opposite order of its parameters.
\<close>

function requeue_loop :: "nat \<Rightarrow> nat \<Rightarrow> nat \<Rightarrow> nat option \<Rightarrow> nat \<Rightarrow> kstate \<Rightarrow> (nat \<times> kstate) option" where
  "requeue_loop lim n f f2 cnt k =
     (case blocked_list k (Rendez_futex f) of
        [] \<Rightarrow> Some (cnt, k)
      | t # _ \<Rightarrow>
          if cnt < lim then do {
            k1 \<leftarrow> (if cnt < n then TaskWakeupSpecific (Some t) 0 k
                   else case f2 of
                          None \<Rightarrow> Some k
                        | Some g \<Rightarrow> TaskRendezRequeue t (Rendez_futex f) (Rendez_futex g) k);
            requeue_loop lim n f f2 (cnt + 1) k1 }
          else Some (cnt, k))"
  by pat_completeness auto
termination
  by (relation "measure (\<lambda>(lim, _, _, _, cnt, _). lim - cnt)") auto

declare requeue_loop.simps [simp del]

definition sys_futex_requeue ::
    "pids \<Rightarrow> nat \<Rightarrow> u32 \<Rightarrow> u32 \<Rightarrow> u32 \<Rightarrow> u32 \<Rightarrow> futexes \<Rightarrow> (nat result futex_outcome \<times> futexes) option" where
  "sys_futex_requeue pt p uaddr n uaddr2 m s =
     (if uaddr = uaddr2 then Some (Done (Inl EINVAL), s)
      else do {
        (locked, s1) \<leftarrow> lock_futex_table s;
        if locked = At_table then Some (At_table, s1)
        else case futex_get pt p uaddr True s1 of
          (Done (Some f), s2) \<Rightarrow>
            (let run = (\<lambda>f2 s3. do {
                   (cnt, k) \<leftarrow> requeue_loop (unat (n + m)) (unat n) f f2 0 (fk s3);
                   futex_return (Inr cnt) (s3\<lparr>fk := k\<rparr>) })
             in if uaddr2 = 0 then run None s2
                else case futex_get pt p uaddr2 True s2 of
                       (Done (Some g), s3) \<Rightarrow> run (Some g) s3
                     | (Exits st, s3) \<Rightarrow> Some (Exits st, s3)
                     | (_, s3) \<Rightarrow> futex_return (Inr 0) s3)
        | (Exits st, s2) \<Rightarrow> Some (Exits st, s2)
        | (_, s2) \<Rightarrow> futex_return (Inr 0) s2 })"

definition sys_futex_wake :: "pids \<Rightarrow> nat \<Rightarrow> u32 \<Rightarrow> u32 \<Rightarrow> futexes \<Rightarrow> (nat result futex_outcome \<times> futexes) option" where
  "sys_futex_wake pt p uaddr n s = sys_futex_requeue pt p uaddr n 0 0 s"

fun cleanup_futexes :: "nat \<Rightarrow> nat list \<Rightarrow> futexes \<Rightarrow> futexes" where
  "cleanup_futexes p [] s = s"
| "cleanup_futexes p (f # fs) s =
     cleanup_futexes p fs (if fx_proc (futex_table s f) = Some p then futex_free p f s else s)"

definition do_cleanup_futexes :: "nat \<Rightarrow> futexes \<Rightarrow> futexes" where
  "do_cleanup_futexes p s = cleanup_futexes p (proc_futexes s p) s"

definition fini_futexes :: "nat \<Rightarrow> futexes \<Rightarrow> (unit futex_outcome \<times> futexes) option" where
  "fini_futexes p s = do {
     (locked, s1) \<leftarrow> lock_futex_table s;
     if locked = At_table then Some (At_table, s1) else futex_return () (do_cleanup_futexes p s1) }"

section \<open>The table of futexes\<close>

text \<open>
  The hash chains and the lists of the processes hold the same futexes, each in the chain of its
  process and address, with one futex per address; nobody sleeps on a free futex.
\<close>

definition futexes_ok :: "pids \<Rightarrow> futexes \<Rightarrow> bool" where
  "futexes_ok pt s \<longleftrightarrow> distinct (free_futex_list s)
     \<and> (\<forall>p. \<forall>f \<in> set (proc_futexes s p). fx_proc (futex_table s f) = Some p \<and> f \<notin> set (free_futex_list s)
          \<and> fx_hash (futex_table s f) = futex_hash pt p (fx_uaddr (futex_table s f))
          \<and> f \<in> set (futex_hash_table s (fx_hash (futex_table s f))))
     \<and> (\<forall>h. \<forall>f \<in> set (futex_hash_table s h). \<exists>p. f \<in> set (proc_futexes s p))
     \<and> (\<forall>p. \<forall>f \<in> set (proc_futexes s p). \<forall>g \<in> set (proc_futexes s p).
          fx_uaddr (futex_table s f) = fx_uaddr (futex_table s g) \<longrightarrow> f = g)
     \<and> (\<forall>f \<in> set (free_futex_list s). blocked_list (fk s) (Rendez_futex f) = [])"

lemma futexes_okD:
  assumes "futexes_ok pt s"
  shows "distinct (free_futex_list s)"
    "f \<in> set (proc_futexes s p) \<Longrightarrow> fx_proc (futex_table s f) = Some p"
    "f \<in> set (proc_futexes s p) \<Longrightarrow> f \<notin> set (free_futex_list s)"
    "f \<in> set (proc_futexes s p) \<Longrightarrow> fx_hash (futex_table s f) = futex_hash pt p (fx_uaddr (futex_table s f))"
    "f \<in> set (proc_futexes s p) \<Longrightarrow> f \<in> set (futex_hash_table s (fx_hash (futex_table s f)))"
    "f \<in> set (futex_hash_table s h) \<Longrightarrow> \<exists>p. f \<in> set (proc_futexes s p)"
    "f \<in> set (proc_futexes s p) \<Longrightarrow> g \<in> set (proc_futexes s p) \<Longrightarrow> fx_uaddr (futex_table s f) = fx_uaddr (futex_table s g) \<Longrightarrow> f = g"
    "f \<in> set (free_futex_list s) \<Longrightarrow> blocked_list (fk s) (Rendez_futex f) = []"
  using assms unfolding futexes_ok_def by blast+

definition futex_map :: "futexes \<Rightarrow> nat \<times> u32 \<Rightarrow> nat option" where
  "futex_map s = (\<lambda>(p, u). find (\<lambda>f. fx_uaddr (futex_table s f) = u) (proc_futexes s p))"

lemma futex_map_SomeD:
  "futex_map s (p, u) = Some f \<Longrightarrow> f \<in> set (proc_futexes s p) \<and> fx_uaddr (futex_table s f) = u"
  by (auto simp: futex_map_def find_Some_iff)

text \<open>The chain the kernel searches has the futex of the address if there is one.\<close>

lemma find_chain:
  assumes "futexes_ok pt s"
  shows "find (\<lambda>f. fx_uaddr (futex_table s f) = u \<and> fx_proc (futex_table s f) = Some p) (futex_hash_table s (futex_hash pt p u))
    = futex_map s (p, u)" (is "?l = ?r")
proof (cases ?r)
  case None
  then have "\<not> (\<exists>f \<in> set (proc_futexes s p). fx_uaddr (futex_table s f) = u)" by (auto simp: futex_map_def find_None_iff)
  then have "?l = None" using assms unfolding futexes_ok_def find_None_iff by (metis option.inject)
  with None show ?thesis by simp
next
  case (Some f)
  then have f: "f \<in> set (proc_futexes s p)" "fx_uaddr (futex_table s f) = u" by (auto simp: futex_map_def find_Some_iff)
  then have "f \<in> set (futex_hash_table s (futex_hash pt p u))" "fx_proc (futex_table s f) = Some p"
    using assms unfolding futexes_ok_def by metis+
  with f have "?l \<noteq> None" by (auto simp: find_None_iff)
  then obtain g where g: "?l = Some g" by blast
  then have "g \<in> set (futex_hash_table s (futex_hash pt p u))" "fx_uaddr (futex_table s g) = u" "fx_proc (futex_table s g) = Some p"
    by (auto simp: find_Some_iff)
  then have "g \<in> set (proc_futexes s p)" using assms unfolding futexes_ok_def by (metis option.inject)
  then have "g = f" using f assms \<open>fx_uaddr (futex_table s g) = u\<close> unfolding futexes_ok_def by metis
  with g Some show ?thesis by simp
qed

lemma futex_get_found:
  assumes "futexes_ok pt s" "unat u mod 4 = 0" "futex_map s (p, u) = Some f"
  shows "futex_get pt p u create s = (Done (Some f), s)"
  using assms by (simp add: futex_get_def find_chain)

text \<open>Creating a futex adds it to the table and leaves the threads alone.\<close>

lemma InitRendez_idem: "blocked_list k r = [] \<Longrightarrow> InitRendez r k = k"
  by (simp add: InitRendez_def upd_blocked_def fun_upd_idem)

lemma futex_create_ok:
  assumes ok: "futexes_ok pt s" and none: "futex_map s (p, u) = None" and free: "free_futex_list s = f # fs"
  shows "futex_create pt p u s = (Some f, snd (futex_create pt p u s))" "futexes_ok pt (snd (futex_create pt p u s))"
    "fk (snd (futex_create pt p u s)) = fk s" "futex_map (snd (futex_create pt p u s)) = (futex_map s)((p, u) \<mapsto> f)"
    "futex_table_busy (snd (futex_create pt p u s)) = futex_table_busy s"
proof -
  let ?s = "snd (futex_create pt p u s)"
  have new: "f \<notin> set (proc_futexes s q)" for q using ok free by (auto simp: futexes_ok_def)
  have k: "InitRendez (Rendez_futex f) (fk s) = fk s" by (rule InitRendez_idem) (use ok free in \<open>simp add: futexes_ok_def\<close>)
  show "futex_create pt p u s = (Some f, ?s)" "fk ?s = fk s" "futex_table_busy ?s = futex_table_busy s"
    using free k by (simp_all add: futex_create_def Let_def)
  have no: "fx_uaddr (futex_table s g) \<noteq> u" if "g \<in> set (proc_futexes s p)" for g
    using none that by (auto simp: futex_map_def find_None_iff)
  note D = futexes_okD [OF ok]
  have e: "free_futex_list ?s = fs" "proc_futexes ?s = (proc_futexes s)(p := f # proc_futexes s p)" "fk ?s = fk s"
    "futex_hash_table ?s = (futex_hash_table s)(futex_hash pt p u := f # futex_hash_table s (futex_hash pt p u))"
    "futex_table ?s = (futex_table s)(f := \<lparr>fx_uaddr = u, fx_proc = Some p, fx_hash = futex_hash pt p u\<rparr>)"
    using free k by (simp_all add: futex_create_def Let_def)
  have g: "g \<noteq> f \<and> g \<notin> set fs" if "g \<in> set (proc_futexes s q)" for g q using D(3) [OF that] free by auto
  have in_chain: "g \<in> set (futex_hash_table s h)" if "g \<in> set (proc_futexes s q)" "futex_hash pt q (fx_uaddr (futex_table s g)) = h" for g q h
    using D(4,5) [OF that(1)] that(2) by simp
  show "futexes_ok pt ?s"
    unfolding futexes_ok_def e
  proof (intro conjI allI ballI impI)
    fix h g assume "g \<in> set (((futex_hash_table s)(futex_hash pt p u := f # futex_hash_table s (futex_hash pt p u))) h)"
    then have "g = f \<or> (\<exists>q. g \<in> set (proc_futexes s q))" using D(6) by (auto split: if_splits)
    then show "\<exists>q. g \<in> set (((proc_futexes s)(p := f # proc_futexes s p)) q)" by (auto simp: if_distrib)
  qed (use D(1,2,7,8) D(4) in_chain g free no no [symmetric] new in \<open>auto split: if_splits\<close>)
  show "futex_map ?s = (futex_map s)((p, u) \<mapsto> f)"
  proof (rule ext, clarify)
    fix q v
    define T where "T = futex_table ?s"
    have "find (\<lambda>g. fx_uaddr (T g) = v) (proc_futexes s q) = find (\<lambda>g. fx_uaddr (futex_table s g) = v) (proc_futexes s q)"
      by (rule find_cong) (use new in \<open>auto simp: T_def e\<close>)
    moreover have "fx_uaddr (T f) = u" by (simp add: T_def e)
    ultimately show "futex_map ?s (q, v) = ((futex_map s)((p, u) \<mapsto> f)) (q, v)"
      unfolding futex_map_def T_def [symmetric] e(2) by auto
  qed
qed

section \<open>Waking the waiters of a futex\<close>

lemma wake_head:
  assumes inv: "kernel_inv k" and ws: "blocked_list k r = t # ts"
  shows "TaskWakeupSpecific (Some t) 0 k = Some (rendez_to_bkl t (upd_blocked r tl k))"
proof -
  have "t_state (threads k t) = THREAD_STATE_RENDEZ_BLOCKED" "blocking_rendez (threads k t) = Some r"
    using kernel_inv_lists [OF inv] ws by (metis list.set_intros(1))+
  moreover have "upd_blocked r (remove1 t) k = upd_blocked r tl k" by (simp add: upd_blocked_def ws)
  ultimately show ?thesis by (simp add: TaskWakeupSpecific_def)
qed

text \<open>While the count is below \<open>n\<close> the loop wakes the waiters one by one from the head.\<close>

lemma requeue_wakes:
  assumes "kernel_inv k" "bkl_locked k" "cnt \<le> n" "n \<le> lim" "blocked_list k (Rendez_futex f) = ws"
  shows "\<exists>k'. requeue_loop lim n f f2 cnt k = requeue_loop lim n f f2 (cnt + min (n - cnt) (length ws)) k'
     \<and> kernel_inv k' \<and> bkl_locked k' \<and> blocked_list k' = (blocked_list k)(Rendez_futex f := drop (n - cnt) ws)
     \<and> bkl_blocked_list k' = bkl_blocked_list k @ take (n - cnt) ws"
  using assms
proof (induction ws arbitrary: k cnt)
  case Nil
  then show ?case by (intro exI [of _ k]) (simp add: fun_upd_idem)
next
  case (Cons t ts)
  show ?case
  proof (cases "cnt < n")
    case False
    with Cons show ?thesis by (intro exI [of _ k]) (simp add: fun_upd_idem)
  next
    case True
    let ?k = "rendez_to_bkl t (upd_blocked (Rendez_futex f) tl k)"
    have ok: "kernel_inv ?k"
      using rendez_to_bkl_ok(1) [OF Cons(2,3), of t "Rendez_futex f" tl] kernel_inv_lists(4) [OF Cons(2), of "Rendez_futex f"] Cons(6) by simp
    have fr: "bkl_locked ?k" "blocked_list ?k = (blocked_list k)(Rendez_futex f := ts)" "bkl_blocked_list ?k = bkl_blocked_list k @ [t]"
      using Cons(3,6) by (auto simp: rendez_to_bkl_def)
    have "requeue_loop lim n f f2 cnt k = requeue_loop lim n f f2 (cnt + 1) ?k"
      using True Cons(5) wake_head [OF Cons(2,6)] by (subst requeue_loop.simps) (simp add: Cons(6))
    moreover have le: "cnt + 1 \<le> n" and ts: "blocked_list ?k (Rendez_futex f) = ts" using True fr(2) by simp_all
    moreover obtain k' where k': "requeue_loop lim n f f2 (cnt + 1) ?k = requeue_loop lim n f f2 (cnt + 1 + min (n - (cnt + 1)) (length ts)) k'"
      "kernel_inv k'" "bkl_locked k'" "blocked_list k' = (blocked_list ?k)(Rendez_futex f := drop (n - (cnt + 1)) ts)"
      "bkl_blocked_list k' = bkl_blocked_list ?k @ take (n - (cnt + 1)) ts"
      using Cons(1) [OF ok fr(1) le Cons(5) ts] by blast
    moreover have n: "n - cnt = Suc (n - (cnt + 1))" using True by simp
    moreover have "blocked_list k' = (blocked_list k)(Rendez_futex f := drop (n - cnt) (t # ts))"
      unfolding k'(4) fr(2) n by (simp only: drop_Suc_Cons fun_upd_upd)
    ultimately show ?thesis using fr(3) by (intro exI [of _ k']) (simp add: n)
  qed
qed

lemma futexes_ok_fk:
  assumes "futexes_ok pt s" "\<And>f. f \<in> set (free_futex_list s) \<Longrightarrow> blocked_list k (Rendez_futex f) = []"
  shows "futexes_ok pt (s\<lparr>futex_table_busy := b, fk := k\<rparr>)" (is "futexes_ok pt ?s")
proof -
  have e: "free_futex_list ?s = free_futex_list s" "proc_futexes ?s = proc_futexes s" "futex_table ?s = futex_table s"
    "futex_hash_table ?s = futex_hash_table s" "fk ?s = k" by simp_all
  from assms show ?thesis unfolding futexes_ok_def e by blast
qed

lemma futex_map_fk [simp]: "futex_map (s\<lparr>futex_table_busy := b, fk := k\<rparr>) = futex_map s" "futex_map (s\<lparr>futex_table_busy := b\<rparr>) = futex_map s"
  "futex_map (s\<lparr>fk := k\<rparr>) = futex_map s"
  by (simp_all add: futex_map_def)

lemma unlock_ok:
  assumes "kernel_inv (fk s)" "bkl_locked (fk s)" "futexes_ok pt s"
  shows "\<exists>s'. unlock_futex_table s = Some s' \<and> kernel_inv (fk s') \<and> futexes_ok pt s' \<and> futex_map s' = futex_map s
     \<and> \<not> futex_table_busy s' \<and> bkl_blocked_list (fk s') = bkl_blocked_list (fk s) @ take 1 (blocked_list (fk s) Rendez_futex_table)
     \<and> bkl_locked (fk s') \<and> (\<forall>f. blocked_list (fk s') (Rendez_futex f) = blocked_list (fk s) (Rendez_futex f))"
proof -
  obtain k where k: "TaskWakeup Rendez_futex_table (fk s) = Some k" "kernel_inv k" "wake_frame (fk s) k"
    "bkl_blocked_list k = bkl_blocked_list (fk s) @ take 1 (blocked_list (fk s) Rendez_futex_table)"
    "blocked_list k = (blocked_list (fk s))(Rendez_futex_table := tl (blocked_list (fk s) Rendez_futex_table))"
    using TaskWakeup_ok [OF assms(1,2), of Rendez_futex_table] by blast
  moreover have "futexes_ok pt (s\<lparr>futex_table_busy := False, fk := k\<rparr>)"
    by (rule futexes_ok_fk [OF assms(3)]) (use k(5) futexes_okD(8) [OF assms(3)] in simp)
  moreover have "bkl_locked k" using k(3) assms(2) by (simp add: wake_frame_def lock_frame_def)
  ultimately show ?thesis by (simp add: unlock_futex_table_def)
qed

text \<open>
  C34. Waking the waiters of a futex. \<open>sys_futex_wake\<close> wakes exactly the first \<open>n\<close> threads that sleep on
  the address, or all of them if there are fewer, in the order in which they went to sleep, and
  returns their number; the others keep their places. The table of futexes stays consistent and is
  unlocked again, with one thread that waited for it woken as well.
\<close>

theorem futex_wake_fifo:
  assumes inv: "kernel_inv (fk s)" "bkl_locked (fk s)" "futexes_ok pt s" "\<not> futex_table_busy s"
    and f: "u \<noteq> 0" "unat u mod 4 = 0" "futex_map s (p, u) = Some f" and ws: "blocked_list (fk s) (Rendez_futex f) = ws"
  shows "\<exists>s'. sys_futex_wake pt p u n s = Some (Done (Inr (min (unat n) (length ws))), s')
     \<and> bkl_blocked_list (fk s') = bkl_blocked_list (fk s) @ take (unat n) ws @ take 1 (blocked_list (fk s) Rendez_futex_table)
     \<and> blocked_list (fk s') (Rendez_futex f) = drop (unat n) ws
     \<and> kernel_inv (fk s') \<and> futexes_ok pt s' \<and> futex_map s' = futex_map s \<and> \<not> futex_table_busy s'"
proof -
  let ?s1 = "s\<lparr>futex_table_busy := True\<rparr>"
  have ok1: "futexes_ok pt ?s1" using futexes_ok_fk [OF inv(3) futexes_okD(8) [OF inv(3)], of True] by simp
  obtain k where k: "requeue_loop (unat n) (unat n) f None 0 (fk s) = requeue_loop (unat n) (unat n) f None (min (unat n) (length ws)) k"
    "kernel_inv k" "bkl_locked k" "blocked_list k = (blocked_list (fk s))(Rendez_futex f := drop (unat n) ws)"
    "bkl_blocked_list k = bkl_blocked_list (fk s) @ take (unat n) ws"
    using requeue_wakes [OF inv(1,2) _ order_refl ws, of 0 "unat n" None] by auto
  have fin: "requeue_loop (unat n) (unat n) f None (min (unat n) (length ws)) k = Some (min (unat n) (length ws), k)"
    using k(4) by (subst requeue_loop.simps) (auto split: list.splits dest: sym [where s = "drop _ _"])
  have f': "f \<notin> set (free_futex_list s)" using futexes_okD(3) [OF inv(3)] futex_map_SomeD [OF f(3)] by blast
  let ?s2 = "?s1\<lparr>fk := k\<rparr>"
  have ok2: "futexes_ok pt ?s2" by (rule futexes_ok_fk [OF inv(3)]) (use k(4) f' futexes_okD(8) [OF inv(3)] in auto)
  obtain s' where s': "unlock_futex_table ?s2 = Some s'" "kernel_inv (fk s')" "futexes_ok pt s'" "futex_map s' = futex_map ?s2"
    "\<not> futex_table_busy s'" "bkl_blocked_list (fk s') = bkl_blocked_list k @ take 1 (blocked_list k Rendez_futex_table)"
    "blocked_list (fk s') (Rendez_futex f) = blocked_list k (Rendez_futex f)"
    using unlock_ok [of ?s2 pt] k(2,3) ok2 by auto
  have "sys_futex_wake pt p u n s = Some (Done (Inr (min (unat n) (length ws))), s')"
    using f inv(4) futex_get_found [OF ok1 f(2), of p f True] k(1) fin s'(1)
    by (simp add: sys_futex_wake_def sys_futex_requeue_def lock_futex_table_def futex_return_def Let_def)
  then show ?thesis using s' k(4,5) ok2 by simp
qed

text \<open>One process with a thread asleep on its first futex and a second futex nobody sleeps on.\<close>

definition two_futexes :: "kstate \<Rightarrow> futexes" where
  "two_futexes k =
     (let h = futex_hash three_pids 0
      in \<lparr>fk = k, futex_table = (\<lambda>f. \<lparr>fx_uaddr = (if f = 0 then 8 else 12), fx_proc = Some 0, fx_hash = h (if f = 0 then 8 else 12)\<rparr>),
          free_futex_list = [], futex_hash_table = (\<lambda>i. if i = h 8 then [0] else if i = h 12 then [1] else []),
          proc_futexes = (\<lambda>p. if p = 0 then [0, 1] else []), futex_table_busy = False\<rparr>)"

lemma two_futexes_ok: "futexes_ok three_pids (two_futexes k)"
  "futex_map (two_futexes k) (0, 8) = Some 0" "futex_map (two_futexes k) (0, 12) = Some 1"
proof -
  have "futex_hash three_pids 0 8 = 7" "futex_hash three_pids 0 12 = 11"
    by (simp_all add: futex_hash_def three_pids_def FUTEX_HASH_SZ_def)
  then show "futexes_ok three_pids (two_futexes k)" by (auto simp: futexes_ok_def two_futexes_def Let_def split: if_splits)
  show "futex_map (two_futexes k) (0, 8) = Some 0" "futex_map (two_futexes k) (0, 12) = Some 1"
    by (simp_all add: futex_map_def two_futexes_def Let_def)
qed

theorem futex_wake_fifo_witness:
  "\<exists>k s'. sys_futex_wake three_pids 0 8 5 (two_futexes k) = Some (Done (Inr 1), s') \<and> bkl_blocked_list (fk s') = [2]
     \<and> blocked_list (fk s') (Rendez_futex 0) = []"
proof -
  obtain k where k: "kernel_inv k" "bkl_locked k" "blocked_list k (Rendez_futex 0) = [2]"
    "\<forall>r. r \<noteq> Rendez_futex 0 \<longrightarrow> blocked_list k r = []" "bkl_blocked_list k = []"
    using asleep_on by blast
  then show ?thesis
    using futex_wake_fifo [of "two_futexes k" three_pids 8 0 0 "[2]" 5] two_futexes_ok [of k]
    by (auto simp: two_futexes_def Let_def)
qed

text \<open>
  C35. Moving waiters to another futex stops the kernel. When more threads sleep on the first address
  than are to be woken, at least one is to be moved, and nobody sleeps on the second address,
  \<open>sys_futex_requeue\<close> dereferences a null pointer: it passes the two condition variables in the wrong
  order, so the thread is taken from the empty list of the second futex.
\<close>

theorem futex_requeue_breaks:
  assumes inv: "kernel_inv (fk s)" "bkl_locked (fk s)" "futexes_ok pt s" "\<not> futex_table_busy s"
    and f: "unat u mod 4 = 0" "futex_map s (p, u) = Some f" and g: "u2 \<noteq> 0" "u \<noteq> u2" "unat u2 mod 4 = 0" "futex_map s (p, u2) = Some g"
    and ws: "unat n < length (blocked_list (fk s) (Rendez_futex f))" "blocked_list (fk s) (Rendez_futex g) = []"
    and m: "0 < unat m" "unat n + unat m < 2 ^ 32"
  shows "sys_futex_requeue pt p u n u2 m s = None"
proof -
  let ?s1 = "s\<lparr>futex_table_busy := True\<rparr>" and ?ws = "blocked_list (fk s) (Rendez_futex f)"
  have ok1: "futexes_ok pt ?s1" using futexes_ok_fk [OF inv(3) futexes_okD(8) [OF inv(3)], of True] by simp
  have nm: "unat (n + m) = unat n + unat m" using m(2) by (subst unat_add_lem [THEN iffD1]) simp_all
  have le: "unat n \<le> unat (n + m)" by (simp add: nm)
  have ne: "f \<noteq> g" using ws by auto
  obtain k where k: "requeue_loop (unat (n + m)) (unat n) f (Some g) 0 (fk s) = requeue_loop (unat (n + m)) (unat n) f (Some g) (unat n) k"
    "blocked_list k = (blocked_list (fk s))(Rendez_futex f := drop (unat n) ?ws)"
    using requeue_wakes [OF inv(1,2) _ le refl, of 0 f "Some g"] ws(1) by auto
  obtain t ts where "drop (unat n) ?ws = t # ts" using ws(1) by (cases "drop (unat n) ?ws") auto
  then have "requeue_loop (unat (n + m)) (unat n) f (Some g) (unat n) k = None"
    using k(2) ws(2) ne m(1) by (subst requeue_loop.simps) (simp add: TaskRendezRequeue_def nm)
  then show ?thesis
    using k(1) f g inv(4) futex_get_found [OF ok1 f(1), of p f True] futex_get_found [OF ok1 g(3), of p g True]
    by (simp add: sys_futex_requeue_def lock_futex_table_def Let_def)
qed

theorem futex_requeue_breaks_witness: "\<exists>k. kernel_inv k \<and> sys_futex_requeue three_pids 0 8 0 12 1 (two_futexes k) = None"
proof -
  obtain k where k: "kernel_inv k" "bkl_locked k" "blocked_list k (Rendez_futex 0) = [2]"
    "\<forall>r. r \<noteq> Rendez_futex 0 \<longrightarrow> blocked_list k r = []"
    using asleep_on by blast
  then have "sys_futex_requeue three_pids 0 8 0 12 1 (two_futexes k) = None"
    using two_futexes_ok [of k] by (intro futex_requeue_breaks [where f = 0 and g = 1]) (simp_all add: two_futexes_def Let_def)
  with k(1) show ?thesis by blast
qed

text \<open>
  A thread that waits for a futex is put at the end of its queue if the value at the address is the
  expected one, and otherwise returns at once.
\<close>

lemma futex_wait_sleeps:
  assumes inv: "kernel_inv (fk s)" "futexes_ok pt s" "\<not> futex_table_busy s"
    and c: "current_thread (fk s) = Some c" "idle_thread (fk s) \<noteq> Some c" "bkl_owner (fk s) = Some c"
    and f: "unat u mod 4 = 0" "futex_map s (p, u) = Some f"
  shows "\<exists>s'. sys_futex_wait pt p u v (Some v) None s = Some (Asleep_on f, s') \<and> kernel_inv (fk s')
     \<and> blocked_list (fk s') (Rendez_futex f) = blocked_list (fk s) (Rendez_futex f) @ [c]"
    "cv \<noteq> v \<Longrightarrow> \<exists>s'. sys_futex_wait pt p u v (Some cv) to s = Some (Done (Inl EAGAIN), s') \<and> kernel_inv (fk s')"
proof -
  let ?s1 = "s\<lparr>futex_table_busy := True\<rparr>"
  have ok1: "futexes_ok pt ?s1" using futexes_ok_fk [OF inv(2) futexes_okD(8) [OF inv(2)], of True] by simp
  have lk: "bkl_locked (fk s)" using kernel_inv_owner [OF inv(1)] c(3) by simp
  obtain s2 where s2: "unlock_futex_table ?s1 = Some s2" "kernel_inv (fk s2)"
    "blocked_list (fk s2) (Rendez_futex f) = blocked_list (fk s) (Rendez_futex f)"
    using unlock_ok [of ?s1 pt] inv(1) lk ok1 by auto
  have fr: "current_thread (fk s2) = Some c" "idle_thread (fk s2) \<noteq> Some c" "bkl_owner (fk s2) = Some c"
    using s2(1) c TaskWakeup_ok [OF inv(1) lk, of Rendez_futex_table]
    by (auto simp: unlock_futex_table_def wake_frame_def lock_frame_def split: bind_splits)
  show "\<exists>s'. sys_futex_wait pt p u v (Some v) None s = Some (Asleep_on f, s') \<and> kernel_inv (fk s')
     \<and> blocked_list (fk s') (Rendez_futex f) = blocked_list (fk s) (Rendez_futex f) @ [c]"
    using futex_get_found [OF ok1 f(1), of p f True] f inv(3) s2 TaskSleep_ok [OF s2(2) fr, of "Rendez_futex f"]
    by (auto simp: sys_futex_wait_def lock_futex_table_def)
  show "cv \<noteq> v \<Longrightarrow> \<exists>s'. sys_futex_wait pt p u v (Some cv) to s = Some (Done (Inl EAGAIN), s') \<and> kernel_inv (fk s')"
    using inv(3) s2 by (simp add: sys_futex_wait_def lock_futex_table_def futex_return_def)
qed

text \<open>
  Destroying a futex forgets the threads that sleep on it: it is free while they are still on its
  queue, and the next \<open>futex_create\<close> empties the queue.
\<close>

lemma futex_destroy_loses_waiters:
  assumes "free_futex_list s = f # fs" "blocked_list (fk s) (Rendez_futex f) \<noteq> []"
  shows "blocked_list (fk (snd (futex_create pt p u s))) (Rendez_futex f) = []"
  using assms by (simp add: futex_create_def InitRendez_def Let_def)

end
