(* ===== verification/Signal.thy ===== *)
theory Signal
  imports Futex Cred
begin

text \<open>
  Signals (\<open>proc/signal.c\<close> and \<open>boards/raspberry_pi_4/signals.c\<close>): the handlers of a process, the masks
  and pending signals of its threads, sending a signal to a process or a group, and the delivery to
  a handler on the user stack with the return from it. Signals are the integers 1 to 32; a set of
  signals is a word with bit \<open>sig - 1\<close> for signal \<open>sig\<close>. The table of the processes' credentials and
  what \<open>copyin\<close> and \<open>copyout\<close> do are arguments.
\<close>

unbundle bit_operations_syntax

section \<open>State\<close>

definition NSIG :: int where "NSIG = 32"
definition SIGSTOP :: int where "SIGSTOP = 17"
definition SIGSEGV :: int where "SIGSEGV = 11"
definition SIG_DFL :: u32 where "SIG_DFL = 0"
definition SIG_IGN :: u32 where "SIG_IGN = 1"

definition SIGBIT :: "int \<Rightarrow> u32" where "SIGBIT sig = push_bit (nat (sig - 1)) 1"

definition SP_KILL :: u32 where "SP_KILL = 1"
definition SP_CORE :: u32 where "SP_CORE = 2"
definition SP_NORESET :: u32 where "SP_NORESET = 4"
definition SP_CANTMASK :: u32 where "SP_CANTMASK = 8"
definition SP_CONT :: u32 where "SP_CONT = 16"
definition SP_STOP :: u32 where "SP_STOP = 32"
definition SP_TTYSTOP :: u32 where "SP_TTYSTOP = 64"

definition sigprop :: "u32 list" where
  "sigprop =
     [0, SP_KILL, SP_KILL, SP_KILL OR SP_CORE, (SP_KILL OR SP_CORE) OR SP_NORESET, (SP_KILL OR SP_CORE) OR SP_NORESET,
      SP_KILL OR SP_CORE, SP_KILL OR SP_CORE, SP_KILL OR SP_CORE, SP_KILL OR SP_CANTMASK, SP_KILL OR SP_CORE,
      SP_KILL OR SP_CORE, SP_KILL OR SP_CORE, SP_KILL, SP_KILL, SP_KILL, 0, SP_STOP OR SP_CANTMASK,
      SP_STOP OR SP_TTYSTOP, SP_CONT, 0, SP_STOP OR SP_TTYSTOP, SP_STOP OR SP_TTYSTOP, 0, SP_KILL, SP_KILL,
      SP_KILL, SP_KILL, 0, 0, SP_KILL, SP_KILL]"

record proc_signal =
  handler :: "nat \<Rightarrow> u32"
  handler_mask :: "nat \<Rightarrow> u32"
  restorer :: u32
  sig_info :: u32
  sig_resethand :: u32
  sig_nodefer :: u32
  p_sig_pending :: u32

record thread_signal =
  sig_mask :: u32
  sig_pending :: u32
  sigsuspend_oldmask :: u32
  use_sigsuspend_mask :: bool
  sigreturn_sigframe :: u32
  si_code :: "nat \<Rightarrow> u8"
  si_value :: "nat \<Rightarrow> u32"

text \<open>\<open>proc_threads\<close> is the list \<open>thread_list\<close> of each process.\<close>

record signals =
  gk :: kstate
  psig :: "nat \<Rightarrow> proc_signal"
  tsig :: "tid \<Rightarrow> thread_signal"
  proc_threads :: "nat \<Rightarrow> tid list"

definition INTRF_SIGNAL :: u32 where "INTRF_SIGNAL = 1"

definition upd_psig :: "nat \<Rightarrow> (proc_signal \<Rightarrow> proc_signal) \<Rightarrow> signals \<Rightarrow> signals" where
  "upd_psig p f s = s\<lparr>psig := (psig s)(p := f (psig s p))\<rparr>"

definition upd_tsig :: "tid \<Rightarrow> (thread_signal \<Rightarrow> thread_signal) \<Rightarrow> signals \<Rightarrow> signals" where
  "upd_tsig t f s = s\<lparr>tsig := (tsig s)(t := f (tsig s t))\<rparr>"

lemma upd_sig_simps [simp]:
  "gk (upd_psig p f s) = gk s" "tsig (upd_psig p f s) = tsig s" "proc_threads (upd_psig p f s) = proc_threads s"
  "psig (upd_psig p f s) = (psig s)(p := f (psig s p))"
  "gk (upd_tsig t g s) = gk s" "psig (upd_tsig t g s) = psig s" "proc_threads (upd_tsig t g s) = proc_threads s"
  "tsig (upd_tsig t g s) = (tsig s)(t := g (tsig s t))"
  by (simp_all add: upd_psig_def upd_tsig_def)

section \<open>Creation, fork and exec\<close>

definition init_signals :: "nat \<Rightarrow> signals \<Rightarrow> signals" where
  "init_signals p s = upd_psig p (\<lambda>_. \<lparr>handler = (\<lambda>_. SIG_DFL), handler_mask = (\<lambda>_. 0), restorer = 0,
     sig_info = 0, sig_resethand = 0, sig_nodefer = 0, p_sig_pending = 0\<rparr>) s"

definition fork_signals :: "nat \<Rightarrow> nat \<Rightarrow> signals \<Rightarrow> signals" where
  "fork_signals d p s = upd_psig d (\<lambda>_. (psig s p)\<lparr>p_sig_pending := 0\<rparr>) s"

definition exec_signals :: "nat \<Rightarrow> tid \<Rightarrow> signals \<Rightarrow> signals" where
  "exec_signals d t s =
     upd_tsig t (\<lambda>_. \<lparr>sig_mask = 0, sig_pending = 0, sigsuspend_oldmask = 0, use_sigsuspend_mask = False,
         sigreturn_sigframe = 0, si_code = (\<lambda>_. 0), si_value = (\<lambda>_. 0)\<rparr>)
       (upd_psig d (\<lambda>g. \<lparr>handler = (\<lambda>i. if handler g i \<noteq> SIG_IGN then SIG_DFL else handler g i), handler_mask = (\<lambda>_. 0),
         restorer = 0, sig_info = 0, sig_resethand = 0, sig_nodefer = 0, p_sig_pending = 0\<rparr>) s)"

section \<open>Sending\<close>

text \<open>The first thread of the list that does not mask the signal gets it; without one it stays with the process.\<close>

definition do_signal_process :: "nat \<Rightarrow> int \<Rightarrow> u8 \<Rightarrow> u32 \<Rightarrow> signals \<Rightarrow> signals option" where
  "do_signal_process p sig code val s =
     (if handler (psig s p) (nat (sig - 1)) = SIG_IGN then Some s
      else
        (let s1 = upd_psig p (\<lambda>g. g\<lparr>p_sig_pending := p_sig_pending g OR SIGBIT sig\<rparr>) s
         in case find (\<lambda>t. SIGBIT sig AND NOT (sig_mask (tsig s t)) \<noteq> 0) (proc_threads s p) of
              None \<Rightarrow> Some s1
            | Some t \<Rightarrow>
                (let s2 = upd_tsig t (\<lambda>g. g\<lparr>sig_pending := sig_pending g OR SIGBIT sig,
                             si_code := (si_code g)(nat (sig - 1) := code), si_value := (si_value g)(nat (sig - 1) := val)\<rparr>)
                            (upd_psig p (\<lambda>g. g\<lparr>p_sig_pending := p_sig_pending g AND NOT (SIGBIT sig)\<rparr>) s1)
                 in if t_state (threads (gk s2) t) = THREAD_STATE_RENDEZ_BLOCKED
                    then map_option (\<lambda>k. s2\<lparr>gk := k\<rparr>) (TaskWakeupSpecific (Some t) INTRF_SIGNAL (gk s2))
                    else Some s2)))"

definition do_signal_thread :: "tid \<Rightarrow> int \<Rightarrow> u8 \<Rightarrow> u32 \<Rightarrow> signals \<Rightarrow> signals option" where
  "do_signal_thread t sig code val s =
     (if handler (psig s (t_process (threads (gk s) t))) (nat (sig - 1)) = SIG_IGN then Some s
      else
        (let s1 = upd_tsig t (\<lambda>g. g\<lparr>sig_pending := sig_pending g OR SIGBIT sig,
                    si_code := (si_code g)(nat (sig - 1) := code), si_value := (si_value g)(nat (sig - 1) := val)\<rparr>) s
         in if t_state (threads (gk s1) t) = THREAD_STATE_RENDEZ_BLOCKED \<and> SIGBIT sig AND NOT (sig_mask (tsig s1 t)) \<noteq> 0
            then map_option (\<lambda>k. s1\<lparr>gk := k\<rparr>) (TaskWakeupSpecific (Some t) INTRF_SIGNAL (gk s1))
            else Some s1))"

definition do_kill_process ::
    "pids \<Rightarrow> (nat \<Rightarrow> cred) \<Rightarrow> nat \<Rightarrow> int \<Rightarrow> int \<Rightarrow> u8 \<Rightarrow> u32 \<Rightarrow> signals \<Rightarrow> (unit result \<times> signals) option" where
  "do_kill_process pt creds cproc n sig code val s =
     (case get_process n pt of
        None \<Rightarrow> Some (Inl ESRCH, s)
      | Some p \<Rightarrow>
          if uid (creds p) \<noteq> 0 \<and> uid (creds p) \<noteq> uid (creds cproc) then Some (Inl EPERM, s)
          else map_option (Pair (Inr ())) (do_signal_process p sig code val s))"

fun signal_all :: "nat list \<Rightarrow> int \<Rightarrow> u8 \<Rightarrow> u32 \<Rightarrow> signals \<Rightarrow> signals option" where
  "signal_all [] sig code val s = Some s"
| "signal_all (p # ps) sig code val s = do { s1 \<leftarrow> do_signal_process p sig code val s; signal_all ps sig code val s1 }"

definition do_kill_process_group ::
    "pids \<Rightarrow> int \<Rightarrow> int \<Rightarrow> int \<Rightarrow> u8 \<Rightarrow> u32 \<Rightarrow> signals \<Rightarrow> (unit result \<times> signals) option" where
  "do_kill_process_group pt max_process n sig code val s =
     (if n < 0 \<or> n \<ge> max_process then Some (Inl EINVAL, s)
      else case get_pgrp n pt of
             None \<Rightarrow> Some (Inl EINVAL, s)
           | Some g \<Rightarrow> map_option (Pair (Inr ())) (signal_all (g_process_list (pgrps pt g)) sig code val s))"

text \<open>\<open>si_user\<close> is the constant \<open>SI_USER\<close>.\<close>

definition sys_kill ::
    "pids \<Rightarrow> (nat \<Rightarrow> cred) \<Rightarrow> int \<Rightarrow> u8 \<Rightarrow> nat \<Rightarrow> int \<Rightarrow> int \<Rightarrow> signals \<Rightarrow> (unit result \<times> signals) option" where
  "sys_kill pt creds max_process si_user cproc n sig s =
     (if sig \<le> 0 \<or> sig > NSIG \<or> n = 0 then Some (Inl EINVAL, s)
      else if n > 0 then do_kill_process pt creds cproc n sig si_user 0 s
      else do_kill_process_group pt max_process (- n) sig si_user 0 s)"

definition sys_thread_kill :: "int \<Rightarrow> int \<Rightarrow> unit result" where "sys_thread_kill n sig = Inl ENOSYS"

definition do_kill_thread :: "tid \<Rightarrow> int \<Rightarrow> signals \<Rightarrow> signals" where "do_kill_thread t sig s = s"

section \<open>Handlers and masks\<close>

text \<open>
  What \<open>sys_sigaction\<close> reads: the handler, its mask, the restorer and the four flags it tests. The
  old action it writes has the handler, the mask and whether \<open>SA_SIGINFO\<close> is set; the other flags are
  uninitialised memory.
\<close>

record sigaction =
  sa_handler :: u32
  sa_mask :: u32
  sa_restorer :: u32
  sa_siginfo :: bool
  sa_nodefer :: bool
  sa_resethand :: bool
  sa_restorer_set :: bool

definition set_bit_if :: "bool \<Rightarrow> u32 \<Rightarrow> u32 \<Rightarrow> u32" where "set_bit_if b m w = (if b then w OR m else w)"

text \<open>\<open>out\<close> is \<open>None\<close> for a null pointer, else whether copying out succeeds; \<open>act\<close> likewise, with what is copied in.\<close>

definition sys_sigaction ::
    "nat \<Rightarrow> int \<Rightarrow> sigaction option option \<Rightarrow> bool option \<Rightarrow> signals
       \<Rightarrow> unit result \<times> (u32 \<times> u32 \<times> bool) option \<times> signals" where
  "sys_sigaction p sig act out s =
     (let i = nat (sig - 1)
      in if sig \<le> 0 \<or> sig > NSIG then (Inl EINVAL, None, s)
         else if sig = SIGKILL \<or> sig = SIGSTOP then (Inl EINVAL, None, s)
         else
           (let s1 = (if out \<noteq> None then upd_psig p (\<lambda>g. g\<lparr>sig_info := sig_info g AND SIGBIT sig\<rparr>) s else s);
                old = (handler (psig s1 p) i, handler_mask (psig s1 p) i, sig_info (psig s1 p) \<noteq> 0)
            in if out = Some False then (Inl EFAULT, None, s1)
               else
                 (let written = (if out = Some True then Some old else None)
                  in case act of
                       None \<Rightarrow> (Inr (), written, s1)
                     | Some None \<Rightarrow> (Inl EFAULT, written, s1)
                     | Some (Some a) \<Rightarrow>
                         (Inr (), written,
                          upd_psig p (\<lambda>g. g\<lparr>sig_info := set_bit_if (sa_siginfo a) (SIGBIT sig) (sig_info g),
                            sig_nodefer := set_bit_if (sa_nodefer a) (SIGBIT sig) (sig_nodefer g),
                            sig_resethand := set_bit_if (sa_resethand a) (SIGBIT sig) (sig_resethand g),
                            restorer := (if sa_restorer_set a then sa_restorer a else restorer g),
                            handler := (handler g)(i := sa_handler a),
                            handler_mask := (handler_mask g)(i := sa_mask a AND NOT (SIGBIT SIGKILL OR SIGBIT SIGSTOP))\<rparr>) s1))))"

definition sys_sigsuspend :: "tid \<Rightarrow> u32 option \<Rightarrow> signals \<Rightarrow> (unit result sleep_outcome \<times> signals) option" where
  "sys_sigsuspend c m s =
     (case m of
        None \<Rightarrow> Some (Returned (Inl EFAULT), s)
      | Some mk \<Rightarrow>
          (let s1 = upd_tsig c (\<lambda>g. g\<lparr>sigsuspend_oldmask := sig_mask g, use_sigsuspend_mask := True, sig_mask := mk\<rparr>) s
           in if sig_pending (tsig s1 c) AND NOT (sig_mask (tsig s1 c)) = 0
              then map_option (\<lambda>k. (Asleep, s1\<lparr>gk := k\<rparr>)) (TaskSleep (Rendez_thread c) (gk s1))
              else Some (Returned (Inl EINTR), s1)))"

datatype sig_how = SIG_SETMASK | SIG_BLOCK | SIG_UNBLOCK | SIG_OTHER

text \<open>
  The mask written to \<open>oset_out\<close> is not part of the state. \<open>set_in\<close> is \<open>None\<close> for a null pointer, \<open>Some
  (True, _)\<close> when copying in succeeds and \<open>Some (False, w)\<close> when it fails, \<open>w\<close> being what the
  uninitialised variable holds.
\<close>

definition sys_sigprocmask :: "tid \<Rightarrow> sig_how \<Rightarrow> (bool \<times> u32) option \<Rightarrow> bool option \<Rightarrow> signals \<Rightarrow> unit result \<times> signals" where
  "sys_sigprocmask c how set_in oset_out s =
     (if oset_out = Some False then (Inl EFAULT, s)
      else case set_in of
             None \<Rightarrow> (Inr (), s)
           | Some (True, _) \<Rightarrow> (Inl EFAULT, s)
           | Some (False, w) \<Rightarrow>
               (case how of
                  SIG_SETMASK \<Rightarrow> (Inr (), upd_tsig c (\<lambda>g. g\<lparr>sig_mask := w\<rparr>) s)
                | SIG_BLOCK \<Rightarrow> (Inr (), upd_tsig c (\<lambda>g. g\<lparr>sig_mask := sig_mask g OR w\<rparr>) s)
                | SIG_UNBLOCK \<Rightarrow> (Inr (), upd_tsig c (\<lambda>g. g\<lparr>sig_mask := sig_mask g AND NOT w\<rparr>) s)
                | SIG_OTHER \<Rightarrow> (Inl EINVAL, s)))"

definition sys_sigpending :: "tid \<Rightarrow> bool \<Rightarrow> signals \<Rightarrow> u32 result" where
  "sys_sigpending c ok s =
     (if ok then Inr (sig_pending (tsig s c) AND NOT (sig_mask (tsig s c))) else Inl EFAULT)"

section \<open>Delivery\<close>

text \<open>The default action: \<open>Some st\<close> when it ends the process with status \<open>st\<close>.\<close>

definition do_signal_default :: "int \<Rightarrow> int option option" where
  "do_signal_default sig =
     (if sig < NSIG then Some (if sigprop ! nat sig AND SP_KILL \<noteq> 0 then Some (sig * 256) else None) else None)"

text \<open>One step of the search of \<open>pick_signal\<close>, on its variables \<open>sig\<close> and \<open>sigbits\<close>: skip the upper \<open>k\<close> bits when they are clear.\<close>

definition narrow :: "nat \<Rightarrow> u32 \<Rightarrow> int \<times> u32 \<Rightarrow> int \<times> u32" where
  "narrow k m x = (if snd x AND m = 0 then (fst x - int k, push_bit k (snd x)) else x)"

definition pick_signal :: "u32 \<Rightarrow> int" where
  "pick_signal sigbits =
     (if sigbits = 0 then 0
      else
        (let x1 = narrow 16 0xFFFF0000 (32, sigbits);
             x2 = narrow 8 0xFF000000 x1;
             x3 = narrow 4 0xF0000000 x2;
             x4 = narrow 2 0xC0000000 x3
         in if snd x4 AND 0x80000000 = 0 then fst x4 - 1 else fst x4))"

text \<open>The registers saved and restored; \<open>regs\<close> are \<open>r0\<close> to \<open>r12\<close>.\<close>

record ucontext =
  regs :: "nat \<Rightarrow> u32"
  uc_sp :: u32
  uc_lr :: u32
  uc_pc :: u32
  uc_cpsr :: u32

text \<open>
  The frame on the user stack. Of its pointers to its own parts it has whether the one to \<open>sf_si\<close> is set.
\<close>

record sigframe =
  uc_mcontext :: ucontext
  uc_sigmask :: u32
  sf_signum :: int
  sf_siginfo :: bool
  sf_action :: u32

definition sys_sigreturn :: "tid \<Rightarrow> u32 \<Rightarrow> signals \<Rightarrow> signals" where
  "sys_sigreturn c u s = upd_tsig c (\<lambda>g. g\<lparr>sigreturn_sigframe := u\<rparr>) s"

text \<open>
  What \<open>check_signals\<close> does: it returns to the user with a context and possibly a frame written at an
  address, or ends the process with a status.
\<close>

datatype delivery = To_user ucontext "(u32 \<times> sigframe) option" | Killed int

definition take_proc_signals :: "nat \<Rightarrow> tid \<Rightarrow> signals \<Rightarrow> signals" where
  "take_proc_signals p c s =
     (let w = p_sig_pending (psig s p) AND NOT (sig_mask (tsig s c))
      in if w \<noteq> 0
         then upd_psig p (\<lambda>g. g\<lparr>p_sig_pending := p_sig_pending g AND NOT w\<rparr>)
                (upd_tsig c (\<lambda>g. g\<lparr>sig_pending := sig_pending g OR w\<rparr>) s)
         else s)"

text \<open>Call the handler of a signal: write the frame and go to the restorer.\<close>

definition call_handler :: "u32 \<Rightarrow> bool \<Rightarrow> nat \<Rightarrow> int \<Rightarrow> u32 \<Rightarrow> ucontext \<Rightarrow> signals \<Rightarrow> delivery \<times> signals" where
  "call_handler frame_size ok p sig old_mask uc s =
     (let i = nat (sig - 1);
          s1 = (if sig_resethand (psig s p) AND SIGBIT sig \<noteq> 0
                then upd_psig p (\<lambda>g. g\<lparr>handler := (handler g)(i := SIG_DFL)\<rparr>) s else s);
          u = (uc_sp uc - frame_size) AND NOT 15;
          frame = \<lparr>uc_mcontext = uc, uc_sigmask = old_mask, sf_signum = sig,
                   sf_siginfo = (sig_info (psig s1 p) AND SIGBIT sig \<noteq> 0), sf_action = handler (psig s1 p) i\<rparr>
      in if ok then (To_user (uc\<lparr>uc_sp := u, uc_pc := restorer (psig s1 p)\<rparr>) (Some (u, frame)), s1)
         else (Killed (SIGSEGV * 256), s1))"

definition deliver_signal ::
    "u32 \<Rightarrow> bool \<Rightarrow> nat \<Rightarrow> tid \<Rightarrow> int \<Rightarrow> ucontext \<Rightarrow> signals \<Rightarrow> (delivery \<times> signals) option" where
  "deliver_signal frame_size ok p c sig uc s =
     (let i = nat (sig - 1);
          old_mask = sig_mask (tsig s c);
          s1 = upd_tsig c (\<lambda>g. g\<lparr>sig_pending := sig_pending g AND NOT (SIGBIT sig)\<rparr>) s;
          blocked = (if sig_nodefer (psig s p) AND SIGBIT sig \<noteq> 0 then NOT (handler_mask (psig s p) i)
                     else SIGBIT sig OR NOT (handler_mask (psig s p) i));
          s2 = upd_tsig c (\<lambda>g. g\<lparr>sig_mask := sig_mask g OR blocked\<rparr>) s1;
          s3 = upd_tsig c (\<lambda>g. g\<lparr>sig_mask := old_mask\<rparr>) s2
      in if restorer (psig s2 p) = 0 then do {
           st \<leftarrow> do_signal_default sig;
           Some (case st of Some e \<Rightarrow> Killed e | None \<Rightarrow> To_user uc None, s2) }
         else if handler (psig s2 p) i = SIG_DFL then do {
           st \<leftarrow> do_signal_default sig;
           Some (case st of Some e \<Rightarrow> (Killed e, s2) | None \<Rightarrow> (To_user uc None, s3)) }
         else if handler (psig s2 p) i = SIG_IGN then
           Some (To_user uc None,
             if sig_resethand (psig s3 p) AND SIGBIT sig \<noteq> 0
             then upd_psig p (\<lambda>g. g\<lparr>handler := (handler g)(i := SIG_DFL)\<rparr>) s3 else s3)
         else Some (call_handler frame_size ok p sig old_mask uc s2))"

text \<open>Choose one of the pending signals that are not masked.\<close>

definition handle_pending ::
    "u32 \<Rightarrow> bool \<Rightarrow> nat \<Rightarrow> tid \<Rightarrow> ucontext \<Rightarrow> signals \<Rightarrow> (delivery \<times> signals) option" where
  "handle_pending frame_size ok p c uc s =
     (let s1 = take_proc_signals p c s;
          caught = sig_pending (tsig s1 c) AND NOT (sig_mask (tsig s1 c))
      in if caught = 0 then Some (To_user uc None, s1)
         else if caught AND SIGBIT SIGKILL \<noteq> 0 then Some (Killed (SIGKILL * 256), s1)
         else
           (let s2 = (if use_sigsuspend_mask (tsig s1 c)
                      then upd_tsig c (\<lambda>g. g\<lparr>sig_mask := sigsuspend_oldmask g, use_sigsuspend_mask := False\<rparr>) s1
                      else s1)
            in deliver_signal frame_size ok p c (pick_signal caught) uc s2))"

text \<open>
  \<open>frame\<close> is what \<open>copyin\<close> reads of the frame that \<open>sys_sigreturn\<close> has named, \<open>None\<close> when it fails; \<open>ok\<close>
  tells whether copying out a new frame succeeds, \<open>frame_size\<close> is the size of a frame.
\<close>

definition check_signals ::
    "u32 \<Rightarrow> sigframe option \<Rightarrow> bool \<Rightarrow> nat \<Rightarrow> tid \<Rightarrow> ucontext \<Rightarrow> signals \<Rightarrow> (delivery \<times> signals) option" where
  "check_signals frame_size frame ok p c uc s =
     (if sigreturn_sigframe (tsig s c) = 0 then handle_pending frame_size ok p c uc s
      else
        (let s1 = upd_tsig c (\<lambda>g. g\<lparr>sigreturn_sigframe := 0\<rparr>) s
         in case frame of
              None \<Rightarrow> Some (Killed (SIGSEGV * 256), s1)
            | Some f \<Rightarrow> handle_pending frame_size ok p c (uc_mcontext f) (upd_tsig c (\<lambda>g. g\<lparr>sig_mask := uc_sigmask f\<rparr>) s1)))"

section \<open>Choosing a signal\<close>

text \<open>The word is shifted so that its bit 31 is bit \<open>n - 1\<close> of \<open>w0\<close>, above which all bits are clear, and one of its upper \<open>k\<close> bits is set.\<close>

definition narrowed :: "u32 \<Rightarrow> nat \<Rightarrow> int \<times> u32 \<Rightarrow> bool" where
  "narrowed w0 k x \<longleftrightarrow> int k \<le> fst x \<and> fst x \<le> 32 \<and> snd x = push_bit (nat (32 - fst x)) w0
     \<and> (\<forall>j. bit w0 j \<longrightarrow> int j < fst x) \<and> (\<exists>j. 32 - k \<le> j \<and> j < 32 \<and> bit (snd x) j)"

lemma narrow_ok:
  assumes x: "narrowed w0 (2 * k) x" and m: "\<And>j. bit m j \<longleftrightarrow> 32 - k \<le> j \<and> j < 32" and k: "2 * k \<le> 32"
  shows "narrowed w0 k (narrow k m x)"
proof -
  obtain n w where x': "x = (n, w)" by (cases x)
  note N = x [unfolded narrowed_def x' fst_conv snd_conv]
  obtain j where j: "32 - 2 * k \<le> j" "j < 32" "bit w j" using N by blast
  show ?thesis
  proof (cases "w AND m = 0")
    case False
    then obtain i where "bit (w AND m) i" by (metis bit_eqI bit_0_eq bot_apply bot_bool_def)
    then have "32 - k \<le> i \<and> i < 32 \<and> bit w i" by (simp add: bit_and_iff m)
    then show ?thesis using N False by (auto simp: narrow_def narrowed_def x')
  next
    case True
    then have clear: "\<not> bit w i" if "32 - k \<le> i" "i < 32" for i using that m by (metis bit_and_iff bit_0_eq bot_apply bot_bool_def)
    then have "j < 32 - k" using j by (meson not_le)
    then have hit: "bit (push_bit k w) (j + k)" "32 - k \<le> j + k" "j + k < 32" using j k by (auto simp: bit_push_bit_iff)
    have "nat (32 - (n - int k)) = k + nat (32 - n)" using N by linarith
    then have "push_bit k w = push_bit (nat (32 - (n - int k))) w0" using N by (simp add: push_bit_push_bit)
    moreover have "int i < n - int k" if "bit w0 i" for i
    proof (rule ccontr)
      assume "\<not> int i < n - int k"
      moreover have "int i < n" using N that by blast
      ultimately have "32 - k \<le> i + nat (32 - n)" "i + nat (32 - n) < 32" using N by linarith+
      moreover then have "bit w (i + nat (32 - n))" using N that by (simp add: bit_push_bit_iff)
      ultimately show False using clear by blast
    qed
    ultimately show ?thesis using N True hit unfolding narrow_def narrowed_def x' by (auto intro!: exI [of _ "j + k"])
  qed
qed

lemma narrow_step:
  assumes "narrowed w0 (2 * k) x" "m = push_bit (32 - k) (mask k)" "2 * k \<le> 32"
  shows "narrowed w0 k (narrow k m x)"
  using assms(3) by (intro narrow_ok [OF assms(1)]) (auto simp: assms(2) bit_push_bit_iff bit_mask_iff)

lemma upper_masks:
  "(0xFFFF0000 :: u32) = push_bit (32 - 16) (mask 16)" "(0xFF000000 :: u32) = push_bit (32 - 8) (mask 8)"
  "(0xF0000000 :: u32) = push_bit (32 - 4) (mask 4)" "(0xC0000000 :: u32) = push_bit (32 - 2) (mask 2)"
  by (simp_all add: mask_eq_exp_minus_1)

lemma narrowed_start: "w \<noteq> 0 \<Longrightarrow> narrowed w 32 (32, w)"
proof -
  assume "w \<noteq> 0"
  then obtain i where "bit w i" by (metis bit_eqI bit_0_eq bot_apply bot_bool_def)
  moreover have "j < 32" if "bit w j" for j using bit_imp_le_length [OF that] by simp
  ultimately show ?thesis by (auto simp: narrowed_def)
qed

text \<open>
  C36. \<open>pick_signal\<close> returns the highest numbered signal of a set, found by halving, and 0 for the empty
  set.
\<close>

theorem pick_signal_highest:
  "pick_signal 0 = 0 \<and>
   (w \<noteq> 0 \<longrightarrow> 1 \<le> pick_signal w \<and> pick_signal w \<le> 32 \<and> bit w (nat (pick_signal w - 1)) \<and> (\<forall>j. bit w j \<longrightarrow> int j < pick_signal w))"
proof (rule conjI [OF _ impI])
  assume w: "w \<noteq> 0"
  define x where "x = narrow 2 0xC0000000 (narrow 4 0xF0000000 (narrow 8 0xFF000000 (narrow 16 0xFFFF0000 (32, w))))"
  obtain n v where x: "x = (n, v)" by (cases x)
  have "narrowed w (2 * 16) (32, w)" using narrowed_start [OF w] by simp
  note n16 = narrow_step [OF this upper_masks(1)]
  have "narrowed w (2 * 8) (narrow 16 0xFFFF0000 (32, w))" using n16 by simp
  note n8 = narrow_step [OF this upper_masks(2)]
  have "narrowed w (2 * 4) (narrow 8 0xFF000000 (narrow 16 0xFFFF0000 (32, w)))" using n8 by simp
  note n4 = narrow_step [OF this upper_masks(3)]
  have "narrowed w (2 * 2) (narrow 4 0xF0000000 (narrow 8 0xFF000000 (narrow 16 0xFFFF0000 (32, w))))" using n4 by simp
  note n2 = narrow_step [OF this upper_masks(4)]
  have "narrowed w 2 x" unfolding x_def by (rule n2) simp
  note N = this [unfolded narrowed_def x fst_conv snd_conv]
  have pick: "pick_signal w = (if v AND 0x80000000 = 0 then n - 1 else n)"
    using w by (simp only: pick_signal_def Let_def x_def [symmetric] x fst_conv snd_conv if_False)
  have top: "v AND 0x80000000 = 0 \<longleftrightarrow> \<not> bit v 31" using queue_bit_test [of v 31] by simp
  have bits: "bit v j \<longleftrightarrow> 32 - n \<le> int j \<and> j < 32 \<and> bit w (nat (int j - (32 - n)))" for j
    using N by (auto simp: bit_push_bit_iff nat_diff_distrib)
  obtain j where j': "30 \<le> j" "j < 32" "bit v j" using N by auto
  then have "j = 30 \<or> j = 31" by linarith
  then have j: "bit v 31 \<or> bit v 30" using j'(3) by auto
  show "1 \<le> pick_signal w \<and> pick_signal w \<le> 32 \<and> bit w (nat (pick_signal w - 1)) \<and> (\<forall>j. bit w j \<longrightarrow> int j < pick_signal w)"
  proof (cases "bit v 31")
    case True
    then have "pick_signal w = n" "bit w (nat (n - 1))" using bits [of 31] by (simp_all add: pick top)
    then show ?thesis using N by auto
  next
    case False
    then have "bit v 30" using j by blast
    then have "bit w (nat (n - 2))" "1 \<le> n - 1" using bits [of 30] by simp_all
    moreover have "int i < n - 1" if i: "bit w i" for i
    proof (rule ccontr)
      assume "\<not> int i < n - 1"
      with N i have "nat (n - 1) = i" by force
      then show False using bits [of 31] False i N by simp
    qed
    moreover have "pick_signal w = n - 1" using False by (simp add: pick top)
    ultimately show ?thesis using N by simp
  qed
qed (simp add: pick_signal_def)

theorem pick_signal_highest_witness: "pick_signal 0x10100 = 17 \<and> bit (0x10100 :: u32) 16 \<and> \<not> bit (0x10100 :: u32) 17"
proof -
  have "pick_signal 0x10100 = 17" by (simp add: pick_signal_def narrow_def)
  moreover from this have "bit (0x10100 :: u32) 16" using pick_signal_highest [of "0x10100"] by simp
  moreover have "\<not> bit (0x10100 :: u32) 17" using pick_signal_highest [of "0x10100"] calculation(1) by force
  ultimately show ?thesis by blast
qed

section \<open>Sending a signal\<close>

lemma SIGBIT_bits [simp]:
  assumes "1 \<le> sig" "sig \<le> 32"
  shows "bit (w OR SIGBIT sig) i = (bit w i \<or> i = nat (sig - 1))" "bit (w AND NOT (SIGBIT sig)) i = (bit w i \<and> i \<noteq> nat (sig - 1))"
  using assms by (auto simp: SIGBIT_def bit_simps dest: bit_imp_le_length)

lemma SIGBIT_test:
  assumes "1 \<le> sig" "sig \<le> 32"
  shows "SIGBIT sig AND w = 0 \<longleftrightarrow> \<not> bit w (nat (sig - 1))"
  using queue_bit_test [of w "nat (sig - 1)"] by (simp add: SIGBIT_def push_bit_of_1 and.commute)

text \<open>
  C37. Sending a signal. A signal that the process ignores has no effect. Otherwise the first thread of
  the process that does not mask it has it pending, and no other thread does; the thread is moved to
  the waiters of the kernel lock if it sleeps and may be interrupted by signals. If every thread
  masks the signal it stays pending with the process.
\<close>

theorem signal_delivered:
  assumes inv: "kernel_inv (gk s)" "bkl_locked (gk s)" and sig: "1 \<le> sig" "sig \<le> 32"
  shows "\<exists>s'. do_signal_process p sig code val s = Some s' \<and> kernel_inv (gk s')
     \<and> (if handler (psig s p) (nat (sig - 1)) = SIG_IGN then s' = s
        else case find (\<lambda>t. \<not> bit (sig_mask (tsig s t)) (nat (sig - 1))) (proc_threads s p) of
               None \<Rightarrow> bit (p_sig_pending (psig s' p)) (nat (sig - 1)) \<and> tsig s' = tsig s \<and> gk s' = gk s
             | Some t \<Rightarrow> bit (sig_pending (tsig s' t)) (nat (sig - 1)) \<and> (\<forall>u. u \<noteq> t \<longrightarrow> tsig s' u = tsig s u)
                 \<and> sig_mask (tsig s' t) = sig_mask (tsig s t) \<and> \<not> bit (p_sig_pending (psig s' p)) (nat (sig - 1))
                 \<and> (t_state (threads (gk s) t) = THREAD_STATE_RENDEZ_BLOCKED \<and> bit (intr_flags (threads (gk s) t)) 0 \<longrightarrow>
                    t_state (threads (gk s') t) = THREAD_STATE_BKL_BLOCKED \<and> bkl_blocked_list (gk s') = bkl_blocked_list (gk s) @ [t])
                 \<and> (\<not> (t_state (threads (gk s) t) = THREAD_STATE_RENDEZ_BLOCKED \<and> bit (intr_flags (threads (gk s) t)) 0) \<longrightarrow> gk s' = gk s))"
proof -
  have unmasked: "(SIGBIT sig AND NOT (sig_mask (tsig s t)) \<noteq> 0) = (\<not> bit (sig_mask (tsig s t)) (nat (sig - 1)))" for t
    using sig by (auto simp: SIGBIT_test bit_not_iff)
  have reason: "intr_flags th AND INTRF_SIGNAL \<noteq> 0 \<longleftrightarrow> bit (intr_flags th) 0" for th :: thread
    using queue_bit_test [of "intr_flags th" 0] by (simp add: INTRF_SIGNAL_def)
  have nz: "INTRF_SIGNAL \<noteq> 0" by (simp add: INTRF_SIGNAL_def)
  show ?thesis
  proof (cases "find (\<lambda>t. \<not> bit (sig_mask (tsig s t)) (nat (sig - 1))) (proc_threads s p)")
    case None
    then show ?thesis using sig inv by (simp add: do_signal_process_def unmasked Let_def)
  next
    case (Some t)
    obtain k where k: "TaskWakeupSpecific (Some t) INTRF_SIGNAL (gk s) = Some k" "kernel_inv k"
      using TaskWakeupSpecific_ok [OF inv] by blast
    have same: "k = gk s" if "\<not> bit (intr_flags (threads (gk s) t)) 0"
      using k(1) that nz by (auto simp: TaskWakeupSpecific_def reason split: if_splits)
    show ?thesis
      using Some sig inv k same TaskWakeupSpecific_thread(2) [OF k(1)]
      by (auto simp: do_signal_process_def unmasked Let_def reason)
  qed
qed

text \<open>A process with one thread, which sleeps on itself and masks no signal.\<close>

definition one_sleeper :: "kstate \<Rightarrow> signals" where
  "one_sleeper k = init_signals 0 \<lparr>gk = k, psig = (\<lambda>_. \<lparr>handler = (\<lambda>_. 0), handler_mask = (\<lambda>_. 0), restorer = 0, sig_info = 0,
       sig_resethand = 0, sig_nodefer = 0, p_sig_pending = 0\<rparr>),
     tsig = (\<lambda>_. \<lparr>sig_mask = 0, sig_pending = 0, sigsuspend_oldmask = 0, use_sigsuspend_mask = False, sigreturn_sigframe = 0,
       si_code = (\<lambda>_. 0), si_value = (\<lambda>_. 0)\<rparr>), proc_threads = (\<lambda>_. [2])\<rparr>"

theorem signal_delivered_witness:
  "\<exists>k s'. kernel_inv k \<and> do_signal_process 0 15 0 0 (one_sleeper k) = Some s' \<and> bit (sig_pending (tsig s' 2)) 14"
proof -
  obtain k where k: "kernel_inv k" "bkl_locked k" using asleep_on by blast
  then show ?thesis
    using signal_delivered [of "one_sleeper k" 15 0 0 0] by (auto simp: one_sleeper_def init_signals_def SIG_DFL_def SIG_IGN_def)
qed

text \<open>
  A thread that sleeps without allowing interruption, as \<open>sys_sigsuspend\<close> does by calling \<open>TaskSleep\<close>,
  is not woken by a signal it accepts.
\<close>

lemma sigsuspend_deaf:
  assumes "do_signal_process p sig code val s = Some s'" "intr_flags (threads (gk s) t) = 0"
    and "find (\<lambda>t. SIGBIT sig AND NOT (sig_mask (tsig s t)) \<noteq> 0) (proc_threads s p) = Some t"
  shows "gk s' = gk s"
  using assms by (auto simp: do_signal_process_def TaskWakeupSpecific_def INTRF_SIGNAL_def Let_def split: if_splits)

text \<open>
  A call of \<open>sys_sigprocmask\<close> that reads its new mask successfully fails and changes nothing.
\<close>

lemma sigprocmask_inverted: "oset_out \<noteq> Some False \<Longrightarrow> sys_sigprocmask c how (Some (True, w)) oset_out s = (Inl EFAULT, s)"
  by (simp add: sys_sigprocmask_def)

section \<open>Returning from a handler\<close>

lemma take_proc_signals_keeps:
  "sig_mask (tsig (take_proc_signals p c s) c) = sig_mask (tsig s c)"
  "use_sigsuspend_mask (tsig (take_proc_signals p c s) c) = use_sigsuspend_mask (tsig s c)"
  "sigsuspend_oldmask (tsig (take_proc_signals p c s) c) = sigsuspend_oldmask (tsig s c)"
  by (simp_all add: take_proc_signals_def Let_def)

lemma deliver_frame:
  assumes "deliver_signal n ok p c sig uc s = Some (To_user uc' (Some (u, f)), s')"
  shows "uc_mcontext f = uc \<and> uc_sigmask f = sig_mask (tsig s c)"
  using assms by (auto simp: deliver_signal_def call_handler_def Let_def split: if_splits bind_splits option.splits)

text \<open>
  C38. Returning from a signal handler. When a signal has been delivered to a handler and the handler
  returns through \<open>sys_sigreturn\<close> with the frame it was given, the thread goes on with exactly the
  registers it was interrupted with and the mask it had, or had before \<open>sys_sigsuspend\<close>, provided no
  other signal is pending that this mask lets through.
\<close>

theorem signal_return_restores:
  assumes del: "check_signals n fr True p c uc s = Some (To_user uc' (Some (u, f)), s1)" "sigreturn_sigframe (tsig s c) = 0" "u \<noteq> 0"
    and quiet: "(sig_pending (tsig s1 c) OR p_sig_pending (psig s1 p)) AND NOT (uc_sigmask f) = 0"
  shows "\<exists>s2. check_signals n (Some f) ok p c uc2 (sys_sigreturn c u s1) = Some (To_user uc None, s2)
     \<and> sig_mask (tsig s2 c) = (if use_sigsuspend_mask (tsig s c) then sigsuspend_oldmask (tsig s c) else sig_mask (tsig s c))
     \<and> sigreturn_sigframe (tsig s2 c) = 0"
proof -
  let ?t = "take_proc_signals p c s"
  let ?m = "if use_sigsuspend_mask (tsig s c) then sigsuspend_oldmask (tsig s c) else sig_mask (tsig s c)"
  have "handle_pending n True p c uc s = Some (To_user uc' (Some (u, f)), s1)" using del(1,2) by (simp add: check_signals_def)
  then have f: "uc_mcontext f = uc" "uc_sigmask f = ?m"
    by (auto simp: handle_pending_def Let_def take_proc_signals_keeps dest!: deliver_frame split: if_splits)
  have q: "p_sig_pending (psig s1 p) AND NOT ?m = 0" "sig_pending (tsig s1 c) AND NOT ?m = 0"
    using quiet by (simp_all add: f(2) bit.conj_disj_distrib2 or_eq_0_iff)
  let ?s = "upd_tsig c (\<lambda>g. g\<lparr>sig_mask := ?m\<rparr>) (upd_tsig c (\<lambda>g. g\<lparr>sigreturn_sigframe := 0\<rparr>) (sys_sigreturn c u s1))"
  have "check_signals n (Some f) ok p c uc2 (sys_sigreturn c u s1) = Some (To_user uc None, ?s)"
    using del(3) f q by (simp add: check_signals_def handle_pending_def take_proc_signals_def sys_sigreturn_def Let_def)
  then show ?thesis by (intro exI [of _ ?s]) simp
qed

definition with_handler :: signals where
  "with_handler = upd_tsig 2 (\<lambda>g. g\<lparr>sig_pending := 0x4000\<rparr>)
     (upd_psig 0 (\<lambda>g. g\<lparr>handler := (\<lambda>_. 0x8000), restorer := 0x9000\<rparr>) (one_sleeper init_tables))"

definition interrupted :: ucontext where
  "interrupted = \<lparr>regs = (\<lambda>i. of_nat i), uc_sp = 0x70000000, uc_lr = 0x8100, uc_pc = 0x8104, uc_cpsr = 0x10\<rparr>"

theorem signal_return_restores_witness:
  "\<exists>uc' u f s1 s2. check_signals 0x100 None True 0 2 interrupted with_handler = Some (To_user uc' (Some (u, f)), s1) \<and> uc_pc uc' = 0x9000
     \<and> check_signals 0x100 (Some f) True 0 2 uc' (sys_sigreturn 2 u s1) = Some (To_user interrupted None, s2) \<and> sig_mask (tsig s2 2) = 0"
proof -
  have "pick_signal 0x4000 = 15" by (simp add: pick_signal_def narrow_def)
  then have "\<exists>uc' u f s1. check_signals 0x100 None True 0 2 interrupted with_handler = Some (To_user uc' (Some (u, f)), s1) \<and> uc_pc uc' = 0x9000
    \<and> u \<noteq> 0 \<and> sig_pending (tsig s1 2) = 0 \<and> p_sig_pending (psig s1 0) = 0"
    by (simp add: check_signals_def handle_pending_def take_proc_signals_def deliver_signal_def call_handler_def with_handler_def
        one_sleeper_def init_signals_def interrupted_def SIGBIT_def SIGKILL_def SIG_DFL_def SIG_IGN_def Let_def)
  then obtain uc' u f s1 where d: "check_signals 0x100 None True 0 2 interrupted with_handler = Some (To_user uc' (Some (u, f)), s1)"
    "uc_pc uc' = 0x9000" "u \<noteq> 0" "sig_pending (tsig s1 2) = 0" "p_sig_pending (psig s1 0) = 0" by blast
  have m: "sigreturn_sigframe (tsig with_handler 2) = 0" "sig_mask (tsig with_handler 2) = 0" "\<not> use_sigsuspend_mask (tsig with_handler 2)"
    by (simp_all add: with_handler_def one_sleeper_def init_signals_def)
  show ?thesis using signal_return_restores [OF d(1) m(1) d(3), of True uc'] d m by auto
qed

end
