(* ===== verification/Interrupt.thy ===== *)
theory Interrupt
  imports Events Cred
begin

text \<open>
  Interrupt servers (\<open>proc/interrupt.c\<close>, and \<open>interrupt_top_half\<close>, \<open>enable_irq\<close> and \<open>disable_irq\<close> of
  \<open>boards/raspberry_pi_4/interrupt.c\<close>): threads that are sent an event when an interrupt occurs, the
  counts that mask an interrupt, and the clean up when a thread ends. \<open>irq_enabled\<close> stands for the
  enable bits of the interrupt controller.
\<close>

unbundle bit_operations_syntax

section \<open>Operations\<close>

definition NIRQ :: int where "NIRQ = 192"
definition BASE_USER_IRQ :: int where "BASE_USER_IRQ = 96"

record isrhandler =
  i_irq :: nat
  i_thread :: tid
  i_event :: nat

record isrs =
  ik :: kstate
  isr_handler_table :: "nat \<Rightarrow> isrhandler"
  isr_handler_free_list :: "nat list"
  isr_handler_list :: "nat \<Rightarrow> nat list"
  thread_isr_handlers :: "tid \<Rightarrow> nat list"
  irq_handler_cnt :: "nat \<Rightarrow> int"
  irq_mask_cnt :: "nat \<Rightarrow> int"
  irq_enabled :: "nat \<Rightarrow> bool"

definition enable_irq :: "nat \<Rightarrow> isrs \<Rightarrow> isrs" where "enable_irq irq s = s\<lparr>irq_enabled := (irq_enabled s)(irq := True)\<rparr>"

definition disable_irq :: "nat \<Rightarrow> isrs \<Rightarrow> isrs" where "disable_irq irq s = s\<lparr>irq_enabled := (irq_enabled s)(irq := False)\<rparr>"

definition alloc_isrhandler :: "isrs \<Rightarrow> nat option \<times> isrs" where
  "alloc_isrhandler s =
     (case isr_handler_free_list s of [] \<Rightarrow> (None, s) | h # hs \<Rightarrow> (Some h, s\<lparr>isr_handler_free_list := hs\<rparr>))"

definition free_isrhandler :: "nat \<Rightarrow> isrs \<Rightarrow> isrs" where
  "free_isrhandler h s = s\<lparr>isr_handler_free_list := h # isr_handler_free_list s\<rparr>"

text \<open>
  \<open>priv\<close> is the constant \<open>PRIV_INTERRUPT\<close> and \<open>c\<close> the calling thread. The interrupt number \<open>NIRQ\<close> passes
  the test of the range and is past the end of the tables.
\<close>

definition sys_addinterruptserver :: "u64 \<Rightarrow> cred \<Rightarrow> tid \<Rightarrow> int \<Rightarrow> nat \<Rightarrow> isrs \<Rightarrow> (nat result \<times> isrs) option" where
  "sys_addinterruptserver priv cr c irq0 event s =
     (let irq = irq0 + BASE_USER_IRQ
      in if check_privileges cr priv \<noteq> Inr () then Some (Inl EPERM, s)
         else if irq < 0 \<or> irq > NIRQ then Some (Inl EINVAL, s)
         else case alloc_isrhandler s of
                (None, s1) \<Rightarrow> Some (Inl ENOMEM, s1)
              | (Some h, s1) \<Rightarrow> do {
                  kassert (irq < NIRQ);
                  let i = nat irq;
                  let s2 = s1\<lparr>isr_handler_table := (isr_handler_table s1)(h := \<lparr>i_irq = i, i_thread = c, i_event = event\<rparr>),
                    thread_isr_handlers := (thread_isr_handlers s1)(c := thread_isr_handlers s1 c @ [h]),
                    isr_handler_list := (isr_handler_list s1)(i := isr_handler_list s1 i @ [h]),
                    irq_handler_cnt := (irq_handler_cnt s1)(i := irq_handler_cnt s1 i + 1),
                    irq_mask_cnt := (irq_mask_cnt s1)(i := irq_mask_cnt s1 i + 1)\<rparr>;
                  Some (Inr h, disable_irq i s2) })"

definition do_free_isrhandler :: "nat \<Rightarrow> tid \<Rightarrow> nat \<Rightarrow> isrs \<Rightarrow> unit result \<times> isrs" where
  "do_free_isrhandler p t h s =
     (if t_process (threads (ik s) t) \<noteq> p \<or> i_thread (isr_handler_table s h) \<noteq> t then (Inl EINVAL, s)
      else
        (let i = i_irq (isr_handler_table s h);
             s1 = s\<lparr>thread_isr_handlers := (thread_isr_handlers s)(t := remove1 h (thread_isr_handlers s t)),
                    isr_handler_list := (isr_handler_list s)(i := remove1 h (isr_handler_list s i)),
                    irq_handler_cnt := (irq_handler_cnt s)(i := irq_handler_cnt s i - 1)\<rparr>;
             s2 = (if irq_handler_cnt s1 i = 0 then disable_irq i (s1\<lparr>irq_mask_cnt := (irq_mask_cnt s1)(i := 0)\<rparr>) else s1)
         in (Inr (), free_isrhandler h s2)))"

definition sys_reminterruptserver :: "nat \<Rightarrow> tid \<Rightarrow> nat \<Rightarrow> isrs \<Rightarrow> unit result \<times> isrs" where
  "sys_reminterruptserver p c isrid s =
     (if thread_isr_handlers s c = [] then (Inl ENOENT, s)
      else (Inr (), if isrid \<in> set (thread_isr_handlers s c) then snd (do_free_isrhandler p c isrid s) else s))"

text \<open>The loop ends when the thread has no handler; one that cannot be freed keeps it going for ever.\<close>

partial_function (option) do_free_all_isrhandlers :: "nat \<Rightarrow> tid \<Rightarrow> isrs \<Rightarrow> isrs option" where
  "do_free_all_isrhandlers p t s =
     (case thread_isr_handlers s t of
        [] \<Rightarrow> Some s
      | h # _ \<Rightarrow> do_free_all_isrhandlers p t (snd (do_free_isrhandler p t h s)))"

definition user_irq :: "int \<Rightarrow> bool" where "user_irq irq \<longleftrightarrow> 0 \<le> irq \<and> irq < NIRQ - BASE_USER_IRQ"

definition sys_maskinterrupt :: "u64 \<Rightarrow> cred \<Rightarrow> int \<Rightarrow> isrs \<Rightarrow> int result \<times> isrs" where
  "sys_maskinterrupt priv cr irq s =
     (if check_privileges cr priv \<noteq> Inr () then (Inl EPERM, s)
      else if \<not> user_irq irq then (Inl EINVAL, s)
      else
        (let i = nat (irq + BASE_USER_IRQ);
             s1 = s\<lparr>irq_mask_cnt := (irq_mask_cnt s)(i := irq_mask_cnt s i + 1)\<rparr>;
             s2 = (if irq_mask_cnt s1 i > 0 then disable_irq i s1 else s1)
         in (Inr (irq_mask_cnt s2 i), s2)))"

definition sys_unmaskinterrupt :: "u64 \<Rightarrow> cred \<Rightarrow> int \<Rightarrow> isrs \<Rightarrow> int result \<times> isrs" where
  "sys_unmaskinterrupt priv cr irq s =
     (if check_privileges cr priv \<noteq> Inr () then (Inl EPERM, s)
      else if \<not> user_irq irq then (Inl EINVAL, s)
      else
        (let i = nat (irq + BASE_USER_IRQ);
             s1 = (if irq_mask_cnt s i > 0 then s\<lparr>irq_mask_cnt := (irq_mask_cnt s)(i := irq_mask_cnt s i - 1)\<rparr> else s);
             s2 = (if irq_mask_cnt s1 i = 0 then enable_irq i s1 else disable_irq i s1)
         in (Inr (irq_mask_cnt s2 i), s2)))"

fun broadcast :: "(nat \<Rightarrow> isrhandler) \<Rightarrow> nat list \<Rightarrow> kstate \<Rightarrow> kstate option" where
  "broadcast tab [] k = Some k"
| "broadcast tab (h # hs) k = do {
     (_, k1) \<leftarrow> isr_thread_event_signal (Some (i_thread (tab h))) (i_event (tab h)) k;
     broadcast tab hs k1 }"

definition interrupt_server_broadcast_event :: "nat \<Rightarrow> isrs \<Rightarrow> isrs option" where
  "interrupt_server_broadcast_event irq s =
     map_option (\<lambda>k. s\<lparr>ik := k\<rparr>) (broadcast (isr_handler_table s) (isr_handler_list s irq) (ik s))"

text \<open>
  What an interrupt does; \<open>irq\<close> is the number read from the controller, \<open>spurious\<close> and \<open>timer3\<close> are the
  constants \<open>IRQ_SPURIOUS\<close> and \<open>IRQ_TIMER3\<close>, and \<open>timer\<close> is what the timer interrupt does.
\<close>

definition interrupt_top_half :: "nat \<Rightarrow> nat \<Rightarrow> (kstate \<Rightarrow> kstate option) \<Rightarrow> nat \<Rightarrow> isrs \<Rightarrow> isrs option" where
  "interrupt_top_half spurious timer3 timer irq s =
     (if irq = spurious then Some s
      else if irq = timer3 then map_option (\<lambda>k. s\<lparr>ik := k\<rparr>) (timer (ik s))
      else do {
        kassert (int irq < NIRQ);
        interrupt_server_broadcast_event irq
          (disable_irq irq (s\<lparr>irq_mask_cnt := (irq_mask_cnt s)(irq := irq_mask_cnt s irq + 1)\<rparr>)) })"

section \<open>An interrupt reaches its servers\<close>

definition waits_for :: "kstate \<Rightarrow> tid \<Rightarrow> nat \<Rightarrow> bool" where
  "waits_for k t e \<longleftrightarrow> t_state (threads k t) = THREAD_STATE_RENDEZ_BLOCKED \<and> intr_flags (threads k t) AND INTRF_EVENT \<noteq> 0
     \<and> bit (event_mask (threads k t)) e"

lemma post_event_frame:
  assumes "post_event t e k = Some k'"
  shows "event_mask (threads k' u) = event_mask (threads k u)" "intr_flags (threads k' u) = intr_flags (threads k u)"
    "t_state (threads k' u) = t_state (threads k u) \<or> t_state (threads k' u) = THREAD_STATE_BKL_BLOCKED"
  using assms
  by (auto simp: post_event_def TaskWakeupSpecific_def rendez_to_bkl_def upd_thread_def upd_blocked_def Let_def split: if_splits bind_splits)

lemma broadcast_ok:
  assumes "kernel_inv k" "bkl_locked k" "\<forall>h \<in> set hs. i_event (tab h) < 32"
  shows "\<exists>k'. broadcast tab hs k = Some k' \<and> kernel_inv k'
     \<and> (\<forall>u. event_mask (threads k' u) = event_mask (threads k u) \<and> intr_flags (threads k' u) = intr_flags (threads k u)
          \<and> (t_state (threads k' u) = t_state (threads k u) \<or> t_state (threads k' u) = THREAD_STATE_BKL_BLOCKED))
     \<and> (\<forall>u e. bit (pending_events (threads k' u)) e \<longleftrightarrow>
          bit (pending_events (threads k u)) e \<or> (\<exists>h \<in> set hs. u = i_thread (tab h) \<and> e = i_event (tab h)))
     \<and> (\<forall>h \<in> set hs. waits_for k (i_thread (tab h)) (i_event (tab h)) \<longrightarrow>
          t_state (threads k' (i_thread (tab h))) = THREAD_STATE_BKL_BLOCKED)"
  using assms
proof (induction hs arbitrary: k)
  case Nil
  then show ?case by simp
next
  case (Cons h hs)
  let ?t = "i_thread (tab h)" and ?e = "i_event (tab h)"
  have e: "?e < 32" using Cons(4) by simp
  obtain k1 where k1: "post_event ?t ?e k = Some k1" "kernel_inv k1" "bkl_locked k1"
    "\<And>u. pending_events (threads k1 u) = (if u = ?t then pending_events (threads k ?t) OR push_bit ?e 1 else pending_events (threads k u))"
    "waits_for k ?t ?e \<longrightarrow> t_state (threads k1 ?t) = THREAD_STATE_BKL_BLOCKED"
    using post_event_ok [OF Cons(2,3) e, of ?t] unfolding waits_for_def by blast
  note F = post_event_frame [OF k1(1)]
  have bits: "bit (pending_events (threads k1 u)) i \<longleftrightarrow> bit (pending_events (threads k u)) i \<or> u = ?t \<and> i = ?e" for u i
    using e by (auto simp: k1(4) bit_simps dest: bit_imp_le_length)
  have "\<forall>g \<in> set hs. i_event (tab g) < 32" using Cons(4) by simp
  from Cons(1) [OF k1(2,3) this] obtain k' where k': "broadcast tab hs k1 = Some k'" "kernel_inv k'"
    "\<forall>u. event_mask (threads k' u) = event_mask (threads k1 u) \<and> intr_flags (threads k' u) = intr_flags (threads k1 u)
       \<and> (t_state (threads k' u) = t_state (threads k1 u) \<or> t_state (threads k' u) = THREAD_STATE_BKL_BLOCKED)"
    "\<forall>u e. bit (pending_events (threads k' u)) e \<longleftrightarrow>
       bit (pending_events (threads k1 u)) e \<or> (\<exists>h \<in> set hs. u = i_thread (tab h) \<and> e = i_event (tab h))"
    "\<forall>h \<in> set hs. waits_for k1 (i_thread (tab h)) (i_event (tab h)) \<longrightarrow>
       t_state (threads k' (i_thread (tab h))) = THREAD_STATE_BKL_BLOCKED"
    by (elim exE conjE) rule
  have w: "waits_for k u i \<Longrightarrow> waits_for k1 u i \<or> t_state (threads k1 u) = THREAD_STATE_BKL_BLOCKED" for u i
    using F(3) [of u] F(1,2) by (auto simp: waits_for_def)
  have woken: "t_state (threads k1 u) = THREAD_STATE_BKL_BLOCKED \<Longrightarrow> t_state (threads k' u) = THREAD_STATE_BKL_BLOCKED" for u
    using k'(3) by metis
  have "t_state (threads k' (i_thread (tab g))) = THREAD_STATE_BKL_BLOCKED"
    if "g \<in> set (h # hs)" "waits_for k (i_thread (tab g)) (i_event (tab g))" for g
  proof (cases "g = h")
    case True
    then show ?thesis using that(2) k1(5) woken by simp
  next
    case False
    then show ?thesis using that w [OF that(2)] woken k'(5) by auto
  qed
  moreover have "broadcast tab (h # hs) k = Some k'" using k1(1) k'(1) by (simp add: isr_thread_event_signal_def)
  moreover have "t_state (threads k' u) = t_state (threads k u) \<or> t_state (threads k' u) = THREAD_STATE_BKL_BLOCKED" for u
    using F(3) k'(3) by metis
  ultimately show ?case using k'(2,3,4) F(1,2) bits by (intro exI [of _ k']) auto
qed

text \<open>
  C39. Interrupts reach their servers. When a device interrupt occurs it is masked, every registered
  server of that interrupt has its event pending, no thread gets any other event, and every server
  that waits for its event is moved to the waiters of the kernel lock.
\<close>

theorem interrupt_reaches_servers:
  assumes inv: "kernel_inv (ik s)" "bkl_locked (ik s)" and irq: "irq \<noteq> spurious" "irq \<noteq> timer3" "int irq < NIRQ"
    and ev: "\<forall>h \<in> set (isr_handler_list s irq). i_event (isr_handler_table s h) < 32"
  shows "\<exists>s'. interrupt_top_half spurious timer3 timer irq s = Some s' \<and> kernel_inv (ik s') \<and> \<not> irq_enabled s' irq
     \<and> irq_mask_cnt s' irq = irq_mask_cnt s irq + 1
     \<and> (\<forall>u e. bit (pending_events (threads (ik s') u)) e \<longleftrightarrow> bit (pending_events (threads (ik s) u)) e
          \<or> (\<exists>h \<in> set (isr_handler_list s irq). u = i_thread (isr_handler_table s h) \<and> e = i_event (isr_handler_table s h)))
     \<and> (\<forall>h \<in> set (isr_handler_list s irq). waits_for (ik s) (i_thread (isr_handler_table s h)) (i_event (isr_handler_table s h)) \<longrightarrow>
          t_state (threads (ik s') (i_thread (isr_handler_table s h))) = THREAD_STATE_BKL_BLOCKED)"
  using broadcast_ok [OF inv ev] irq
  by (auto simp: interrupt_top_half_def interrupt_server_broadcast_event_def disable_irq_def)

definition one_server :: "kstate \<Rightarrow> isrs" where
  "one_server k = \<lparr>ik = k, isr_handler_table = (\<lambda>_. \<lparr>i_irq = 100, i_thread = 2, i_event = 5\<rparr>), isr_handler_free_list = [1, 2],
     isr_handler_list = (\<lambda>i. if i = 100 then [0] else []), thread_isr_handlers = (\<lambda>t. if t = 2 then [0] else []),
     irq_handler_cnt = (\<lambda>i. if i = 100 then 1 else 0), irq_mask_cnt = (\<lambda>_. 0), irq_enabled = (\<lambda>i. i = 100)\<rparr>"

theorem interrupt_reaches_servers_witness:
  "\<exists>k s'. interrupt_top_half 1023 99 Some 100 (one_server k) = Some s' \<and> bit (pending_events (threads (ik s') 2)) 5 \<and> irq_mask_cnt s' 100 = 1"
proof -
  obtain k where k: "kernel_inv k" "bkl_locked k" using asleep_on by blast
  then show ?thesis
    using interrupt_reaches_servers [of "one_server k" 100 1023 99 Some] by (auto simp: one_server_def NIRQ_def)
qed

section \<open>A thread that ends\<close>

definition handlers_of :: "tid \<Rightarrow> isrs \<Rightarrow> bool" where
  "handlers_of t s \<longleftrightarrow> distinct (thread_isr_handlers s t) \<and> (\<forall>h \<in> set (thread_isr_handlers s t). i_thread (isr_handler_table s h) = t)"

lemma free_own_handlers:
  assumes "t_process (threads (ik s) t) = p" "handlers_of t s" "thread_isr_handlers s t = hs"
  shows "\<exists>s'. do_free_all_isrhandlers p t s = Some s' \<and> thread_isr_handlers s' t = []
     \<and> (\<forall>i. set (isr_handler_list s' i) \<subseteq> set (isr_handler_list s i)) \<and> set (isr_handler_free_list s') = set (isr_handler_free_list s) \<union> set hs"
  using assms
proof (induction hs arbitrary: s)
  case Nil
  then show ?case by (subst do_free_all_isrhandlers.simps) simp
next
  case (Cons h hs)
  let ?s = "snd (do_free_isrhandler p t h s)"
  have h: "i_thread (isr_handler_table s h) = t" using Cons(3,4) by (simp add: handlers_of_def)
  have f: "thread_isr_handlers ?s t = hs" "ik ?s = ik s" "isr_handler_table ?s = isr_handler_table s"
    "isr_handler_free_list ?s = h # isr_handler_free_list s" "\<And>i. set (isr_handler_list ?s i) \<subseteq> set (isr_handler_list s i)"
    using Cons(2,4) h by (auto simp: do_free_isrhandler_def free_isrhandler_def disable_irq_def Let_def dest: set_remove1_subset [THEN subsetD])
  have "handlers_of t ?s" using Cons(3,4) f by (simp add: handlers_of_def)
  with Cons(1) [of ?s] Cons(2) f(1,2) obtain s' where s': "do_free_all_isrhandlers p t ?s = Some s'" "thread_isr_handlers s' t = []"
    "\<And>i. set (isr_handler_list s' i) \<subseteq> set (isr_handler_list ?s i)"
    "set (isr_handler_free_list s') = set (isr_handler_free_list ?s) \<union> set hs" by auto
  moreover have "do_free_all_isrhandlers p t s = do_free_all_isrhandlers p t ?s"
    using Cons(4) by (subst do_free_all_isrhandlers.simps) simp
  ultimately show ?case using f(4,5) by (intro exI [of _ s']) (auto dest!: subsetD)
qed

lemma free_others_diverges:
  assumes "do_free_all_isrhandlers p t s = Some s'"
  shows "t_process (threads (ik s) t) = p \<or> thread_isr_handlers s t = []"
proof (rule do_free_all_isrhandlers.raw_induct [where P = "\<lambda>p t s _. t_process (threads (ik s) t) = p \<or> thread_isr_handlers s t = []", OF _ assms])
  fix rec p t s s'
  assume IH: "\<And>p t s s'. rec p t s = Some s' \<Longrightarrow> t_process (threads (ik s) t) = p \<or> thread_isr_handlers s t = []"
    and run: "(case thread_isr_handlers s t of [] \<Rightarrow> Some s | h # _ \<Rightarrow> rec p t (snd (do_free_isrhandler p t h s))) = Some s'"
  show "t_process (threads (ik s) t) = p \<or> thread_isr_handlers s t = []"
  proof (cases "thread_isr_handlers s t")
    case (Cons h hs)
    then have "rec p t (snd (do_free_isrhandler p t h s)) = Some s'" using run by simp
    from IH [OF this] show ?thesis by (cases "t_process (threads (ik s) t) = p") (simp_all add: do_free_isrhandler_def)
  qed simp
qed

text \<open>
  C40. Freeing the interrupt servers of a thread ends, and frees all of them, when the thread belongs to
  the process given. It never ends when the thread belongs to another process and has a server, which
  is how \<open>do_exit_thread\<close> calls it for the last thread of a process and for every detached one, after
  it has moved the thread to the root process.
\<close>

theorem free_isrhandlers_terminates:
  assumes own: "handlers_of t s"
  shows "(t_process (threads (ik s) t) = p \<longrightarrow> (\<exists>s'. do_free_all_isrhandlers p t s = Some s' \<and> thread_isr_handlers s' t = []
           \<and> set (thread_isr_handlers s t) \<subseteq> set (isr_handler_free_list s')))
     \<and> (t_process (threads (ik s) t) \<noteq> p \<and> thread_isr_handlers s t \<noteq> [] \<longrightarrow> do_free_all_isrhandlers p t s = None)"
proof (intro conjI impI)
  assume "t_process (threads (ik s) t) = p"
  then show "\<exists>s'. do_free_all_isrhandlers p t s = Some s' \<and> thread_isr_handlers s' t = []
      \<and> set (thread_isr_handlers s t) \<subseteq> set (isr_handler_free_list s')"
    using free_own_handlers [OF _ own refl] by blast
next
  assume "t_process (threads (ik s) t) \<noteq> p \<and> thread_isr_handlers s t \<noteq> []"
  then show "do_free_all_isrhandlers p t s = None" using free_others_diverges by (cases "do_free_all_isrhandlers p t s") auto
qed

theorem free_isrhandlers_terminates_witness:
  "(\<exists>s'. do_free_all_isrhandlers 0 2 (one_server init_tables) = Some s' \<and> thread_isr_handlers s' 2 = [])
   \<and> do_free_all_isrhandlers 7 2 (one_server init_tables) = None"
proof -
  have "handlers_of 2 (one_server init_tables)" by (simp add: handlers_of_def one_server_def)
  from free_isrhandlers_terminates [OF this, of 0] free_isrhandlers_terminates [OF this, of 7] show ?thesis
    by (auto simp: one_server_def init_tables_def free_thread_def)
qed

text \<open>Masking and unmasking an interrupt are balanced: after both it is as it was, if it was enabled.\<close>

lemma mask_unmask:
  assumes "check_privileges cr priv = Inr ()" "user_irq irq" "irq_mask_cnt s (nat (irq + BASE_USER_IRQ)) = 0" "irq_enabled s (nat (irq + BASE_USER_IRQ))"
  shows "snd (sys_unmaskinterrupt priv cr irq (snd (sys_maskinterrupt priv cr irq s))) = s"
  using assms by (simp add: sys_maskinterrupt_def sys_unmaskinterrupt_def enable_irq_def disable_irq_def Let_def fun_upd_idem)

end
