(* ===== verification/Spec2Isabelle.thy ===== *)
theory Spec2Isabelle
  imports Lists Kernel_Lock Pipe Access Dnlc Events Msg Timer Vm Signal Interrupt
begin

text \<open>
  The Cheviot kernel: a small kernel for the Raspberry Pi whose file systems and drivers are processes
  outside the kernel. One big lock serialises what threads do inside it; they sleep on condition
  variables, send messages to servers, and share a cache of file pages and a tree of vnodes. This
  development models the parts of the kernel below, in the order in which they build on each other.

  \<^bold>\<open>Conventions.\<close> A pointer to an entry of a table is the index of the entry and a null pointer is
  \<open>None\<close>; an intrusive list is the list of its entries, which \<open>Lists\<close> justifies over the links
  themselves. A system call that returns \<open>-e\<close> returns \<open>Inl e\<close>. A failed assertion, a panic, a null
  dereference, an access outside an array, or a list operation that would damage a list is the result
  \<open>None\<close> of the whole operation. 32 and 64 bit fields whose bits or wrap-around matter are words. The
  outcome of copying to or from user memory, constants of headers outside the repository, and the
  processor's page table bits are arguments. The servers and the transport to them are the argument
  \<open>ksend\<close> of the requests in \<open>Vfs\<close>. A call that goes to sleep ends with the outcome \<open>Asleep\<close>; the
  definitions with suffix \<open>_return\<close> go on after the wakeup.

  \<^bold>\<open>Lists and threads.\<close>
  \<^item> \<open>Prelude\<close>: machine types, error numbers, the result type, lemmas on lists, options and words.
  \<^item> \<open>Lists\<close> (\<open>include/kernel/lists.h\<close>): the two list families over a store of links; both implement the
    queue contract of the locale \<open>linked_queue\<close>.
  \<^item> \<open>Kernel_State\<close>, \<open>Sched\<close> (\<open>proc/sched.c\<close>, \<open>proc/thread_sched.c\<close>): thread table, run queues with their
    bitmap, \<open>Reschedule\<close>; which thread runs next (C4).
  \<^item> \<open>Sleep\<close>, \<open>Kernel_Lock\<close> (\<open>proc/sleep_wakeup_bkl.c\<close>, \<open>init_processes\<close>): lock, sleep and wakeup, and the
    kernel as a step relation from boot. One invariant gives mutual exclusion, the absence of failed
    assertions, service in order of arrival, and the correctness of changed parameters (C1 to C3, C5).
  \<^item> \<open>Timer\<close> (\<open>proc/timer.c\<close>): clocks, timeouts and the timer task (C29).
  \<^item> \<open>Events\<close> (\<open>proc/thread_events.c\<close>): no event is lost (C24).
  \<^item> \<open>Futex\<close> (\<open>proc/thread_futex.c\<close>): waking is in order (C34), requeueing is broken (C35).
  \<^item> \<open>Signal\<close> (\<open>proc/signal.c\<close>, \<open>boards/raspberry_pi_4/signals.c\<close>): choice, sending, and the return from a
    handler (C36 to C38).
  \<^item> \<open>Interrupt\<close> (\<open>proc/interrupt.c\<close>): events of interrupt servers, freeing them (C39, C40).

  \<^bold>\<open>Identity.\<close>
  \<^item> \<open>Cred\<close> (\<open>proc/id.c\<close>, \<open>proc/privileges.c\<close>): no sequence of calls gains rights (C6, C7).
  \<^item> \<open>Pid\<close> (\<open>proc/pid.c\<close>): identifiers, sessions and groups (C23).

  \<^bold>\<open>Files.\<close>
  \<^item> \<open>Fs_State\<close>, \<open>File_Desc\<close>, \<open>File_Desc_Inv\<close> (\<open>fs/filedesc.c\<close>, \<open>fs/filp.c\<close>, \<open>fs/fproc.c\<close>, \<open>fs/close.c\<close>,
    \<open>fs/seek.c\<close>): reference counts stay exact (C8, C10); a full table is overrun (C9).
  \<^item> \<open>Pipe\<close> (\<open>fs/pipe.c\<close>): the ring buffer (C11, C12) and the error path of creation (C13).
  \<^item> \<open>Hash\<close> (\<open>utility/lookup3.c\<close>): the hash functions agree with each other (C14 to C16).
  \<^item> \<open>Vnode\<close>, \<open>Vfs\<close> (\<open>fs/vnode.c\<close>, \<open>fs/superblock.c\<close>, \<open>fs/vfs.c\<close>): one vnode per inode (C17).
  \<^item> \<open>Lookup\<close> (\<open>fs/lookup.c\<close>): a lookup refines the walk along the components of the path (C18).
  \<^item> \<open>Access\<close> (\<open>fs/access.c\<close>): what permission bits grant (C19, C20).
  \<^item> \<open>Dnlc\<close> (\<open>fs/dnlc.c\<close>): the name cache (C21, C22).
  \<^item> \<open>Msg\<close> (\<open>fs/msg.c\<close>, \<open>fs/msgport.c\<close>): messages, their bytes, and the end of a port (C25 to C28).

  \<^bold>\<open>Memory.\<close>
  \<^item> \<open>Memregion\<close> (\<open>vm/memregion.c\<close>, \<open>vm/bounds.c\<close>): regions partition the user part (C30).
  \<^item> \<open>Cache\<close> (\<open>fs/cache.c\<close>, \<open>fs/file.c\<close>): reading through the page cache refines reading the file (C31); a
    fault leaves a page busy (C32).
  \<^item> \<open>Pmap\<close>, \<open>Vm\<close> (\<open>vm/page.c\<close>, \<open>boards/raspberry_pi_4/pmap.c\<close>, \<open>vm/as.c\<close>, \<open>vm/mmap.c\<close>, \<open>vm/pagefault.c\<close>,
    \<open>vm/ipcopy.c\<close>): address spaces and copy-on-write (C33).

  \<^bold>\<open>Bounds and termination.\<close> Recursions are structural or have a measure; no fuel is used. Loops that
  may run for ever are partial functions with the value \<open>None\<close> for that, and C27 and C40 tell when.
  Several properties describe defects: they state what the code does, not what it should do.

  \<^bold>\<open>Not modelled.\<close> Creation, fork, exit, join and wait of processes and threads (\<open>proc/proc.c\<close>,
  \<open>proc/thread.c\<close>), the system calls of \<open>fs/open.c\<close>, \<open>fs/read.c\<close>, \<open>fs/write.c\<close>, \<open>fs/dir.c\<close> and their like, which
  compose the components above, and \<open>fs/exec.c\<close>, which also reads ELF files: left out for their size.
  The reader-writer locks have disabled bodies. Sockets are stubs. Debug output, assembly, device
  registers and the start of the boards have no state the kernel proper depends on except through
  the arguments named above. The first board's page tables are a variant of those of the second.
\<close>

end
